(* ===== verification/Nport_Prelude.thy ===== *)
theory Nport_Prelude
  imports Main "HOL-Library.Word"
begin

text \<open>
  Shared vocabulary of the development: machine integers, results, strings and the parts of the
  Rust core library on strings that the program uses.

  Strings are Rust \<open>String\<close>s: lists of bytes (\<open>char\<close> is the eight-bit type of HOL), so
  \<open>length\<close> is \<open>str::len\<close>. A \<open>Result\<close> is a sum, \<open>Err\<close> on the left. A panic is a value of
  its own (\<open>outcome\<close>), never a missing case.
\<close>

section \<open>Machine integers, bytes, results\<close>

type_synonym u8 = "8 word"
type_synonym u16 = "16 word"
type_synonym u32 = "32 word"
type_synonym i32 = "32 word"
type_synonym i64 = "64 word"
type_synonym u64 = "64 word"
type_synonym bytes = "u8 list"

abbreviation Ok :: "'a \<Rightarrow> 'e + 'a" where "Ok \<equiv> Inr"
abbreviation Err :: "'e \<Rightarrow> 'e + 'a" where "Err \<equiv> Inl"

text \<open>
  The result of code that may panic (\<open>unwrap\<close>, \<open>expect\<close>, an index out of range) or
  loop for ever.
\<close>

datatype 'a outcome = Return 'a | Panic | Diverge

fun bind_outcome :: "'a outcome \<Rightarrow> ('a \<Rightarrow> 'b outcome) \<Rightarrow> 'b outcome" where
  "bind_outcome (Return x) f = f x"
| "bind_outcome Panic f = Panic"
| "bind_outcome Diverge f = Diverge"

fun unwrap_result :: "'e + 'a \<Rightarrow> 'a outcome" where
  "unwrap_result (Inr x) = Return x"
| "unwrap_result (Inl e) = Panic"

fun unwrap_option :: "'a option \<Rightarrow> 'a outcome" where
  "unwrap_option (Some x) = Return x"
| "unwrap_option None = Panic"

fun map_err :: "('e \<Rightarrow> 'f) \<Rightarrow> 'e + 'a \<Rightarrow> 'f + 'a" where
  "map_err f (Inr x) = Inr x"
| "map_err f (Inl e) = Inl (f e)"

fun is_ok :: "'e + 'a \<Rightarrow> bool" where
  "is_ok (Inr x) = True"
| "is_ok (Inl e) = False"

fun err_of :: "'e + 'a \<Rightarrow> 'e option" where
  "err_of (Inl e) = Some e"
| "err_of (Inr x) = None"

fun ok_of :: "'e + 'a \<Rightarrow> 'a option" where
  "ok_of (Inr x) = Some x"
| "ok_of (Inl e) = None"

section \<open>Strings\<close>

abbreviation colon :: char where "colon \<equiv> CHR '':''"
abbreviation dot :: char where "dot \<equiv> CHR ''.''"

text \<open>\<open>str::split\<close> by one ASCII character: never empty, keeps empty parts.\<close>

fun split_on :: "char \<Rightarrow> string \<Rightarrow> string list" where
  "split_on c [] = [[]]"
| "split_on c (x # xs) =
     (if x = c then [] # split_on c xs
      else (case split_on c xs of [] \<Rightarrow> [[x]] | p # ps \<Rightarrow> (x # p) # ps))"

fun join_with :: "char \<Rightarrow> string list \<Rightarrow> string" where
  "join_with c [] = []"
| "join_with c [p] = p"
| "join_with c (p # q # ps) = p @ c # join_with c (q # ps)"

text \<open>\<open>str::rsplit_once\<close>: the parts before and after the last occurrence.\<close>

fun rsplit_once :: "char \<Rightarrow> string \<Rightarrow> (string \<times> string) option" where
  "rsplit_once c [] = None"
| "rsplit_once c (x # xs) =
     (case rsplit_once c xs of
        Some (l, r) \<Rightarrow> Some (x # l, r)
      | None \<Rightarrow> if x = c then Some ([], xs) else None)"

fun strip_prefix :: "string \<Rightarrow> string \<Rightarrow> string option" where
  "strip_prefix [] s = Some s"
| "strip_prefix (p # ps) [] = None"
| "strip_prefix (p # ps) (x # xs) = (if p = x then strip_prefix ps xs else None)"

definition strip_suffix :: "string \<Rightarrow> string \<Rightarrow> string option" where
  "strip_suffix p s = map_option rev (strip_prefix (rev p) (rev s))"

definition starts_with :: "string \<Rightarrow> string \<Rightarrow> bool" where
  "starts_with p s \<longleftrightarrow> strip_prefix p s \<noteq> None"

definition ends_with :: "string \<Rightarrow> string \<Rightarrow> bool" where
  "ends_with p s \<longleftrightarrow> strip_suffix p s \<noteq> None"

definition is_ascii :: "char \<Rightarrow> bool" where
  "is_ascii c \<longleftrightarrow> (of_char c :: nat) < 128"

definition ascii_lower :: "char \<Rightarrow> char" where
  "ascii_lower c =
     (if 65 \<le> (of_char c :: nat) \<and> (of_char c :: nat) \<le> 90
      then char_of ((of_char c :: nat) + 32) else c)"

definition is_digit :: "char \<Rightarrow> bool" where
  "is_digit c \<longleftrightarrow> 48 \<le> (of_char c :: nat) \<and> (of_char c :: nat) \<le> 57"

section \<open>Printing and reading decimal numbers\<close>

definition digit_char :: "nat \<Rightarrow> char" where
  "digit_char d = (if d < 10 then char_of (48 + d) else char_of (87 + d))"

text \<open>Display of an unsigned integer in a radix from 2 to 16 (\<open>{}\<close> and \<open>{:x}\<close>).\<close>

function show_radix :: "nat \<Rightarrow> nat \<Rightarrow> string" where
  "show_radix r n =
     (if r < 2 \<or> n < r then [digit_char n] else show_radix r (n div r) @ [digit_char (n mod r)])"
  by pat_completeness auto
termination
  by (relation "measure snd") auto

declare show_radix.simps [simp del]

abbreviation show_nat :: "nat \<Rightarrow> string" where "show_nat \<equiv> show_radix 10"

definition show_int :: "int \<Rightarrow> string" where
  "show_int i = (if i < 0 then CHR ''-'' # show_nat (nat (- i)) else show_nat (nat i))"

text \<open>\<open>char::to_digit\<close> for a radix up to 16.\<close>

definition to_digit :: "nat \<Rightarrow> char \<Rightarrow> nat option" where
  "to_digit r c =
     (let n = (of_char c :: nat);
          d = (if 48 \<le> n \<and> n \<le> 57 then n - 48
               else if 97 \<le> n \<and> n \<le> 102 then n - 87
               else if 65 \<le> n \<and> n \<le> 70 then n - 55 else 99)
      in if d < r then Some d else None)"

definition is_radix_digit :: "nat \<Rightarrow> char \<Rightarrow> bool" where
  "is_radix_digit r c \<longleftrightarrow> to_digit r c \<noteq> None"

text \<open>The value of a digit string, most significant digit first.\<close>

definition digits_value :: "nat \<Rightarrow> string \<Rightarrow> nat" where
  "digits_value r = foldl (\<lambda>acc c. acc * r + (case to_digit r c of Some d \<Rightarrow> d | None \<Rightarrow> 0)) 0"

text \<open>\<open>u16::from_str\<close>: an optional \<open>+\<close>, at least one digit, no overflow.\<close>

definition parse_u16 :: "string \<Rightarrow> u16 option" where
  "parse_u16 s =
     (let ds = (case s of [] \<Rightarrow> [] | x # xs \<Rightarrow> if x = CHR ''+'' then xs else s)
      in if ds = [] \<or> \<not> list_all (is_radix_digit 10) ds \<or> 65535 < digits_value 10 ds then None
         else Some (of_nat (digits_value 10 ds)))"

section \<open>Lemmas on results\<close>

lemma bind_outcome_Return:
  "bind_outcome m f = Return y \<longleftrightarrow> (\<exists>x. m = Return x \<and> f x = Return y)"
  by (cases m) auto

lemma bind_outcome_Ok:
  "bind_outcome m (\<lambda>r. case r of Inl e \<Rightarrow> Return (Inl (f e)) | Inr x \<Rightarrow> g x) = Return (Inr y)
   \<longleftrightarrow> (\<exists>x. m = Return (Inr x) \<and> g x = Return (Inr y))"
  by (cases m) (auto split: sum.splits)

section \<open>Lemmas on strings\<close>

lemma split_on_nonempty [simp]: "split_on c s \<noteq> []"
  by (induction s) (auto split: list.splits)

lemma split_on_no_sep: "c \<notin> set s \<Longrightarrow> split_on c s = [s]"
  by (induction s) auto

lemma split_on_append_sep: "c \<notin> set l \<Longrightarrow> split_on c (l @ c # r) = l # split_on c r"
  by (induction l) auto

lemma split_on_parts_no_sep: "p \<in> set (split_on c s) \<Longrightarrow> c \<notin> set p"
  by (induction s arbitrary: p) (auto split: if_splits list.splits)

lemma join_with_Cons [simp]: "ps \<noteq> [] \<Longrightarrow> join_with c (p # ps) = p @ c # join_with c ps"
  by (cases ps) auto

lemma join_with_prepend: "ps \<noteq> [] \<Longrightarrow> join_with c ((x # hd ps) # tl ps) = x # join_with c ps"
  by (cases ps rule: list.exhaust; cases "tl ps") auto

lemma split_on_join: "\<lbrakk>ls \<noteq> []; \<forall>l \<in> set ls. c \<notin> set l\<rbrakk> \<Longrightarrow> split_on c (join_with c ls) = ls"
  by (induction c ls rule: join_with.induct) (auto simp: split_on_no_sep split_on_append_sep)

lemma join_split_on: "join_with c (split_on c s) = s"
proof (induction s)
  case (Cons x xs)
  then show ?case
    using join_with_prepend [of "split_on c xs" c x] by (auto split: list.splits)
qed simp

lemma split_on_set: "p \<in> set (split_on c s) \<Longrightarrow> set p \<subseteq> set s"
  by (induction s arbitrary: p) (fastforce split: if_splits list.splits)+

lemma rsplit_once_None: "rsplit_once c s = None \<longleftrightarrow> c \<notin> set s"
  by (induction s) (auto split: option.splits)

lemma rsplit_once_append: "c \<notin> set r \<Longrightarrow> rsplit_once c (l @ c # r) = Some (l, r)"
  by (induction l) (simp_all add: rsplit_once_None [THEN iffD2])

lemma rsplit_once_SomeD: "rsplit_once c s = Some (l, r) \<Longrightarrow> s = l @ c # r \<and> c \<notin> set r"
proof (induction s arbitrary: l)
  case (Cons x xs)
  show ?case
  proof (cases "rsplit_once c xs")
    case None
    then show ?thesis
      using Cons.prems rsplit_once_None [of c xs] by (auto split: if_splits)
  next
    case (Some p)
    then obtain l' r' where p: "rsplit_once c xs = Some (l', r')"
      by (cases p) auto
    with Cons.prems have "l = x # l'" "r = r'"
      by simp_all
    then show ?thesis
      using Cons.IH [of l'] p by simp
  qed
qed simp

lemma rsplit_once_Some: "rsplit_once c s = Some (l, r) \<longleftrightarrow> s = l @ c # r \<and> c \<notin> set r"
  using rsplit_once_SomeD [of c s l r] rsplit_once_append [of c r l] by metis

lemma strip_prefix_Some: "strip_prefix p s = Some r \<longleftrightarrow> s = p @ r"
  by (induction p s rule: strip_prefix.induct) auto

lemma strip_suffix_Some: "strip_suffix p s = Some r \<longleftrightarrow> s = r @ p"
proof -
  have "strip_suffix p s = Some r \<longleftrightarrow> strip_prefix (rev p) (rev s) = Some (rev r)"
    by (auto simp: strip_suffix_def)
  also have "\<dots> \<longleftrightarrow> rev s = rev p @ rev r"
    by (rule strip_prefix_Some)
  also have "\<dots> \<longleftrightarrow> s = r @ p"
    by (metis rev_append rev_rev_ident)
  finally show ?thesis .
qed

lemma strip_suffix_append [simp]: "strip_suffix p (r @ p) = Some r"
  by (simp add: strip_suffix_Some)

lemma strip_suffix_None: "strip_suffix p s = None \<longleftrightarrow> (\<nexists>r. s = r @ p)"
  by (metis not_None_eq strip_suffix_Some)

lemma starts_with_iff: "starts_with p s \<longleftrightarrow> (\<exists>r. s = p @ r)"
  by (metis not_None_eq starts_with_def strip_prefix_Some)

lemma ends_with_iff: "ends_with p s \<longleftrightarrow> (\<exists>r. s = r @ p)"
  by (metis not_None_eq ends_with_def strip_suffix_Some)

section \<open>Lemmas on numbers\<close>

lemma to_digit_digit_char:
  assumes "d < r" "r \<le> 16"
  shows "to_digit r (digit_char d) = Some d"
  using assms by (auto simp: to_digit_def digit_char_def Let_def)

lemma digit_char_0: "digit_char 0 = CHR ''0''"
  by code_simp

lemma show_radix_ne [simp]: "show_radix r n \<noteq> []"
  by (subst show_radix.simps) simp

lemma show_radix_digits:
  assumes "2 \<le> r" "r \<le> 16"
  shows "list_all (is_radix_digit r) (show_radix r n)"
  using assms
proof (induction r n rule: show_radix.induct)
  case (1 r n)
  have "is_radix_digit r (digit_char d)" if "d < r" for d
    using that "1.prems" by (simp add: is_radix_digit_def to_digit_digit_char)
  then show ?case
    using 1 by (subst show_radix.simps) auto
qed

lemma digits_value_Nil [simp]: "digits_value r [] = 0"
  by (simp add: digits_value_def)

lemma digits_value_snoc:
  "digits_value r (s @ [c]) =
     digits_value r s * r + (case to_digit r c of Some d \<Rightarrow> d | None \<Rightarrow> 0)"
  by (simp add: digits_value_def)

lemma digits_value_single:
  "digits_value r [c] = (case to_digit r c of Some d \<Rightarrow> d | None \<Rightarrow> 0)"
  by (simp add: digits_value_def)

lemma digits_value_show_radix:
  assumes "2 \<le> r" "r \<le> 16"
  shows "digits_value r (show_radix r n) = n"
  using assms
proof (induction r n rule: show_radix.induct)
  case (1 r n)
  show ?case
  proof (cases "n < r")
    case True
    then show ?thesis
      using 1 digits_value_snoc [of r "[]" "digit_char n"]
      by (subst show_radix.simps) (simp add: to_digit_digit_char)
  next
    case False
    have "to_digit r (digit_char (n mod r)) = Some (n mod r)"
      using "1.prems" by (simp add: to_digit_digit_char)
    then show ?thesis
      using 1 False by (subst show_radix.simps) (simp add: digits_value_snoc)
  qed
qed

lemma show_radix_inject:
  "\<lbrakk>2 \<le> r; r \<le> 16; show_radix r n = show_radix r m\<rbrakk> \<Longrightarrow> n = m"
  by (metis digits_value_show_radix)

lemma show_nat_inject [simp]: "show_nat n = show_nat m \<longleftrightarrow> n = m"
  using show_radix_inject [of 10 n m] by auto

text \<open>Characters that are no hexadecimal digit never occur in a printed number.\<close>

lemma show_radix_no_char:
  assumes "to_digit r c = None" "2 \<le> r" "r \<le> 16"
  shows "c \<notin> set (show_radix r n)"
  using show_radix_digits [of r n] assms by (auto simp: list_all_iff is_radix_digit_def)

lemma show_nat_no_colon [simp]: "colon \<notin> set (show_nat n)"
  by (rule show_radix_no_char) (simp_all add: to_digit_def)

lemma show_nat_no_dot [simp]: "dot \<notin> set (show_nat n)"
  by (rule show_radix_no_char) (simp_all add: to_digit_def)

lemma show_hex_no_colon [simp]: "colon \<notin> set (show_radix 16 n)"
  by (rule show_radix_no_char) (simp_all add: to_digit_def)

lemma show_nat_hd_digit: "is_radix_digit 10 (hd (show_nat n))"
  using show_radix_digits [of 10 n] by (cases "show_nat n") auto

lemma show_nat_not_plus: "show_nat n \<noteq> CHR ''+'' # s"
  using show_nat_hd_digit [of n] by (auto simp: is_radix_digit_def to_digit_def)

lemma parse_u16_show [simp]: "parse_u16 (show_nat (unat (p :: u16))) = Some p"
proof -
  have b: "unat p \<le> 65535"
    using unsigned_less [of p, where ?'a = nat] by simp
  have "(case show_nat (unat p) of [] \<Rightarrow> [] | x # xs \<Rightarrow> if x = CHR ''+'' then xs else show_nat (unat p))
      = show_nat (unat p)"
    using show_nat_not_plus [of "unat p"] by (auto split: list.splits)
  then show ?thesis
    using b by (simp add: parse_u16_def digits_value_show_radix show_radix_digits)
qed

lemma parse_u16_bound: "parse_u16 s = Some p \<Longrightarrow> unat p \<le> 65535"
  using unsigned_less [of p, where ?'a = nat] by simp

section \<open>Lower case on ASCII\<close>

lemma ascii_lower_idem [simp]: "ascii_lower (ascii_lower c) = ascii_lower c"
  by (auto simp: ascii_lower_def)

lemma ascii_lower_eq_low:
  assumes "(of_char d :: nat) < 65"
  shows "ascii_lower c = d \<longleftrightarrow> c = d"
  using assms by (auto simp: ascii_lower_def)

lemma ascii_lower_dot [simp]: "ascii_lower c = dot \<longleftrightarrow> c = dot"
  by (rule ascii_lower_eq_low) simp

lemma is_ascii_lower: "is_ascii c \<Longrightarrow> is_ascii (ascii_lower c)"
  by (auto simp: is_ascii_def ascii_lower_def)

end
