(* ===== verification/Messages.thy ===== *)
theory Messages
  imports Nport_Prelude
begin

text \<open>
  The protocol messages of \<open>libnp/src/common.proto\<close>, \<open>client.proto\<close> and
  \<open>server.proto\<close>. A message is a record with the fields of the \<open>.proto\<close> file, a
  \<open>oneof\<close> a datatype, and an absent field \<open>None\<close>. An enum field travels as a raw
  \<open>i32\<close>, as in the Rust that is generated, so a peer can send a value outside the enum;
  \<open>..._try_from\<close> is the checked reading of it and \<open>..._code\<close> the \<open>as i32\<close> cast.
  A header map is an association list in the order in which the \<open>HashMap\<close> iterates.
  The binary encoding itself (\<open>prost\<close>) is not modelled: a message is what is sent.
\<close>

section \<open>common.proto\<close>

datatype port_protocol = Tcp

fun port_protocol_code :: "port_protocol \<Rightarrow> i32" where
  "port_protocol_code Tcp = 0"

definition port_protocol_try_from :: "i32 \<Rightarrow> port_protocol option" where
  "port_protocol_try_from n = (if n = 0 then Some Tcp else None)"

record address =
  address_host :: "string option"
  address_port :: u32

section \<open>client.proto: from the client to the server\<close>

type_synonym header_map = "(string \<times> bytes) list"

record http_open =
  ho_hostname :: "string option"
  ho_local_address :: "address option"

record http_close =
  hc_hostname :: string

datatype http_response_error =
    ForwardingNotRegistered string
  | InvalidMethod string string
  | InvalidHeaderName string string
  | InvalidHeaderValue string string string
  | CreatingRequest string
  | FetchingResponse string
  | ReadingResponse string

record http_response_data =
  hd_headers :: header_map
  hd_status_code :: u32
  hd_body :: bytes

datatype http_response_payload =
    PayloadError "http_response_error option"
  | PayloadData http_response_data

record http_response =
  hr_uuid :: string
  hr_payload :: "http_response_payload option"

record port_open =
  po_protocol :: i32
  po_remote_address :: "address option"
  po_local_address :: "address option"

record port_connected =
  pc_uuid :: string
  pc_error :: "string option"

record port_receive =
  pr_uuid :: string
  pr_data :: bytes

record port_close =
  pcl_uuid :: string

datatype client_message =
    C_HttpOpen http_open
  | C_HttpClose http_close
  | C_HttpResponse http_response
  | C_PortOpen port_open
  | C_PortConnected port_connected
  | C_PortReceive port_receive
  | C_PortClose port_close

type_synonym client_payload = "client_message option"

section \<open>server.proto: from the server to the client\<close>

datatype http_open_error = HttpOpenError_InUse | HttpOpenError_Invalid | HttpOpenError_Disallowed

fun http_open_error_code :: "http_open_error \<Rightarrow> i32" where
  "http_open_error_code HttpOpenError_InUse = 0"
| "http_open_error_code HttpOpenError_Invalid = 1"
| "http_open_error_code HttpOpenError_Disallowed = 2"

definition http_open_error_try_from :: "i32 \<Rightarrow> http_open_error option" where
  "http_open_error_try_from n =
     (if n = 0 then Some HttpOpenError_InUse
      else if n = 1 then Some HttpOpenError_Invalid
      else if n = 2 then Some HttpOpenError_Disallowed else None)"

record http_opened =
  hod_hostname :: string
  hod_local_address :: "address option"
  hod_error :: "i32 option"

datatype http_close_error = HttpCloseError_NotRegistered

fun http_close_error_code :: "http_close_error \<Rightarrow> i32" where
  "http_close_error_code HttpCloseError_NotRegistered = 0"

record http_closed =
  hcd_hostname :: string
  hcd_error :: "i32 option"

datatype http_scheme = Scheme_Http | Scheme_Https

fun http_scheme_code :: "http_scheme \<Rightarrow> i32" where
  "http_scheme_code Scheme_Http = 0"
| "http_scheme_code Scheme_Https = 1"

record http_request =
  hq_uuid :: string
  hq_hostname :: string
  hq_client_address :: "address option"
  hq_scheme :: i32
  hq_method :: string
  hq_uri :: string
  hq_headers :: header_map
  hq_body :: "bytes option"

datatype port_open_error =
  PortOpenError_InUse | PortOpenError_PortNotAllowed | PortOpenError_HostNotAllowed

fun port_open_error_code :: "port_open_error \<Rightarrow> i32" where
  "port_open_error_code PortOpenError_InUse = 0"
| "port_open_error_code PortOpenError_PortNotAllowed = 1"
| "port_open_error_code PortOpenError_HostNotAllowed = 2"

definition port_open_error_try_from :: "i32 \<Rightarrow> port_open_error option" where
  "port_open_error_try_from n =
     (if n = 0 then Some PortOpenError_InUse
      else if n = 1 then Some PortOpenError_PortNotAllowed
      else if n = 2 then Some PortOpenError_HostNotAllowed else None)"

record port_opened =
  pod_protocol :: i32
  pod_remote_address :: "address option"
  pod_local_address :: "address option"
  pod_error :: "i32 option"

record port_connect =
  pct_uuid :: string
  pct_protocol :: i32
  pct_remote_address :: "address option"
  pct_from_address :: "address option"

datatype print_level = Level_Trace | Level_Debug | Level_Info | Level_Warning | Level_Error

fun print_level_code :: "print_level \<Rightarrow> i32" where
  "print_level_code Level_Trace = 0"
| "print_level_code Level_Debug = 1"
| "print_level_code Level_Info = 2"
| "print_level_code Level_Warning = 3"
| "print_level_code Level_Error = 4"

definition print_level_try_from :: "i32 \<Rightarrow> print_level option" where
  "print_level_try_from n =
     (if n = 0 then Some Level_Trace else if n = 1 then Some Level_Debug
      else if n = 2 then Some Level_Info else if n = 3 then Some Level_Warning
      else if n = 4 then Some Level_Error else None)"

record print_msg =
  print_message :: string
  print_level :: i32

datatype server_message =
    S_HttpOpened http_opened
  | S_HttpClosed http_closed
  | S_HttpRequest http_request
  | S_PortOpened port_opened
  | S_PortConnect port_connect
  | S_PortReceive port_receive
  | S_PortClose port_close
  | S_Print print_msg

type_synonym server_payload = "server_message option"

section \<open>Reading an enum back\<close>

lemma port_protocol_code_roundtrip [simp]: "port_protocol_try_from (port_protocol_code p) = Some p"
  by (cases p) (simp add: port_protocol_try_from_def)

lemma http_open_error_code_roundtrip [simp]: "http_open_error_try_from (http_open_error_code e) = Some e"
  by (cases e) (simp_all add: http_open_error_try_from_def)

lemma port_open_error_code_roundtrip [simp]: "port_open_error_try_from (port_open_error_code e) = Some e"
  by (cases e) (simp_all add: port_open_error_try_from_def)

lemma print_level_code_roundtrip [simp]: "print_level_try_from (print_level_code l) = Some l"
  by (cases l) (simp_all add: print_level_try_from_def)

end
