(* ===== verification/Channels.thy ===== *)
theory Channels
  imports Messages
begin

text \<open>
  The Tokio channels of the program. A \<open>oneshot\<close> channel carries one value; a bounded
  \<open>mpsc\<close> channel is a queue whose sender waits while it is full and fails once the receiver is
  gone. An operation that may wait returns \<open>Pending\<close> (no progress now) or \<open>Ready\<close>.

  \<open>PortMessage\<close> is \<open>libnp/src/common.rs\<close>. A table of named queues with registration,
  removal and sending is shared by the client of \<open>np\<close> and the client object of the server: the
  locale \<open>port_table\<close> states what both promise.
\<close>

datatype port_message = PM_Data bytes | PM_Close

datatype 'a poll = Ready 'a | Pending

section \<open>oneshot\<close>

datatype 'a oneshot = Waiting | Delivered 'a | SenderDropped | ReceiverDropped

text \<open>\<open>Sender::send\<close>: \<open>Err\<close> where nobody receives any more.\<close>

fun oneshot_send :: "'a \<Rightarrow> 'a oneshot \<Rightarrow> ('a + unit) \<times> 'a oneshot" where
  "oneshot_send x Waiting = (Ok (), Delivered x)"
| "oneshot_send x ch = (Err x, ch)"

fun oneshot_drop_sender :: "'a oneshot \<Rightarrow> 'a oneshot" where
  "oneshot_drop_sender Waiting = SenderDropped"
| "oneshot_drop_sender ch = ch"

definition oneshot_drop_receiver :: "'a oneshot \<Rightarrow> 'a oneshot" where
  "oneshot_drop_receiver ch = ReceiverDropped"

text \<open>Awaiting the receiver: \<open>Err\<close> is \<open>RecvError\<close>.\<close>

fun oneshot_recv :: "'a oneshot \<Rightarrow> (unit + 'a) poll" where
  "oneshot_recv Waiting = Pending"
| "oneshot_recv (Delivered x) = Ready (Ok x)"
| "oneshot_recv SenderDropped = Ready (Err ())"
| "oneshot_recv ReceiverDropped = Pending"

section \<open>mpsc\<close>

record 'a mpsc =
  mp_capacity :: nat
  mp_queue :: "'a list"
  mp_receiver :: bool

definition mpsc_channel :: "nat \<Rightarrow> 'a mpsc" where
  "mpsc_channel n = \<lparr>mp_capacity = n, mp_queue = [], mp_receiver = True\<rparr>"

text \<open>\<open>Sender::send\<close>.\<close>

definition mpsc_send :: "'a \<Rightarrow> 'a mpsc \<Rightarrow> (unit + 'a mpsc) poll" where
  "mpsc_send x ch =
     (if \<not> mp_receiver ch then Ready (Err ())
      else if length (mp_queue ch) < mp_capacity ch then Ready (Ok (ch\<lparr>mp_queue := mp_queue ch @ [x]\<rparr>))
      else Pending)"

text \<open>\<open>Receiver::recv\<close> with a queued message.\<close>

definition mpsc_recv :: "'a mpsc \<Rightarrow> ('a \<times> 'a mpsc) option" where
  "mpsc_recv ch = (case mp_queue ch of [] \<Rightarrow> None | x # xs \<Rightarrow> Some (x, ch\<lparr>mp_queue := xs\<rparr>))"

lemma mpsc_send_capacity:
  "\<lbrakk>mpsc_send x ch = Ready (Inr ch'); length (mp_queue ch) \<le> mp_capacity ch\<rbrakk>
   \<Longrightarrow> length (mp_queue ch') \<le> mp_capacity ch'"
  by (auto simp: mpsc_send_def split: if_splits)

section \<open>Tables of port writers\<close>

type_synonym writers = "string \<rightharpoonup> port_message mpsc"

text \<open>
  What the clients on both sides promise of their tables of port writers: \<open>get\<close> reads the table
  of a state \<open>'s\<close>; registration fills a vacant entry and refuses an occupied one; removal
  empties the entry; sending appends to the one queue it names. \<open>dup\<close> and \<open>unknown\<close> are
  the errors.
\<close>

locale port_table =
  fixes get :: "'s \<Rightarrow> writers"
    and register :: "string \<Rightarrow> port_message mpsc \<Rightarrow> 's \<Rightarrow> ('e + unit) \<times> 's"
    and remove :: "string \<Rightarrow> 's \<Rightarrow> ('e + unit) \<times> 's"
    and message :: "string \<Rightarrow> port_message \<Rightarrow> 's \<Rightarrow> ('e + unit) poll \<times> 's"
    and dup :: "string \<Rightarrow> 'e" and unknown :: "string \<Rightarrow> 'e"
  assumes register_vacant:
      "get s u = None \<Longrightarrow> fst (register u ch s) = Ok () \<and> get (snd (register u ch s)) = (get s)(u \<mapsto> ch)"
    and register_occupied: "get s u = Some ch' \<Longrightarrow> register u ch s = (Err (dup u), s)"
    and remove_get: "fst (remove u s) = Ok () \<and> get (snd (remove u s)) = (get s)(u := None)"
    and message_unknown: "get s u = None \<Longrightarrow> message u m s = (Ready (Err (unknown u)), s)"
    and message_sent: "\<lbrakk>get s u = Some ch; mpsc_send m ch = Ready (Inr ch')\<rbrakk> \<Longrightarrow>
      fst (message u m s) = Ready (Ok ()) \<and> get (snd (message u m s)) = (get s)(u \<mapsto> ch')"
    and message_gone: "\<lbrakk>get s u = Some ch; mpsc_send m ch = Ready (Inl e)\<rbrakk> \<Longrightarrow>
      message u m s = (Ready (Err (unknown u)), s)"
    and message_full: "\<lbrakk>get s u = Some ch; mpsc_send m ch = Pending\<rbrakk> \<Longrightarrow> message u m s = (Pending, s)"
begin

text \<open>Messages to a port leave every other port alone.\<close>

lemma message_other:
  assumes "v \<noteq> u"
  shows "get (snd (message u m s)) v = get s v"
proof (cases "get s u")
  case None
  then show ?thesis by (simp add: message_unknown)
next
  case (Some ch)
  show ?thesis
  proof (cases "mpsc_send m ch")
    case (Ready r)
    then show ?thesis
      using Some assms message_sent [OF Some] message_gone [OF Some] by (cases r) auto
  next
    case Pending
    then show ?thesis using message_full [OF Some] by simp
  qed
qed

lemma register_once: "get s u \<noteq> None \<Longrightarrow> get (snd (register u ch s)) = get s"
  using register_occupied by fastforce

lemma register_remove:
  "get s u = None \<Longrightarrow> get (snd (remove u (snd (register u ch s)))) = get s"
  using register_vacant [of s u ch] remove_get [of u "snd (register u ch s)"] by (simp add: fun_upd_idem)

text \<open>
  Sending a list of messages to a port with room for all of them appends them in order; this is
  what keeps the byte stream of a connection in order.
\<close>

fun messages :: "string \<Rightarrow> port_message list \<Rightarrow> 's \<Rightarrow> 's" where
  "messages u [] s = s"
| "messages u (m # ms) s = messages u ms (snd (message u m s))"

lemma messages_in_order:
  assumes "get s u = Some ch" "mp_receiver ch" "length (mp_queue ch) + length ms \<le> mp_capacity ch"
  shows "get (messages u ms s) = (get s)(u \<mapsto> ch\<lparr>mp_queue := mp_queue ch @ ms\<rparr>)"
  using assms
proof (induction ms arbitrary: s ch)
  case (Cons m ms)
  let ?ch = "ch\<lparr>mp_queue := mp_queue ch @ [m]\<rparr>"
  have "mpsc_send m ch = Ready (Inr ?ch)"
    using Cons.prems by (simp add: mpsc_send_def)
  then have "get (snd (message u m s)) = (get s)(u \<mapsto> ?ch)"
    using message_sent [OF Cons.prems(1)] by blast
  then show ?case
    using Cons.IH [of "snd (message u m s)" ?ch] Cons.prems by (auto simp: fun_eq_iff)
qed (simp add: fun_upd_idem)

end

end
