(* ===== verification/Std_Net.thy ===== *)
theory Std_Net
  imports Nport_Prelude
begin

text \<open>
  The part of Rust's \<open>std::net\<close> that \<open>libnp\<close> uses: \<open>IpAddr::from_str\<close>,
  \<open>IpAddr::is_loopback\<close>, \<open>SocketAddr::from_str\<close> and the canonical \<open>Display\<close> of an
  address. A parser maps the unread input to a result and the rest, \<open>None\<close> leaving the
  input where it was (\<open>Parser::read_atomically\<close>). Octets and segments are naturals below
  256 and 65536 (\<open>wf_ip\<close>); a scope id is read and dropped, as nothing in the program
  looks at it.

  The lemmas show that the textual form of an IPv4 address is canonical (what parses prints
  back to itself) and that an IPv6 address spends at least two colons, which is what the
  round trip of \<open>libnp\<close>'s own addresses needs.
\<close>

section \<open>Addresses and their printed form\<close>

datatype ip_addr = V4 nat nat nat nat | V6 "nat list"

definition wf_ip :: "ip_addr \<Rightarrow> bool" where
  "wf_ip a = (case a of
     V4 b c d e \<Rightarrow> b < 256 \<and> c < 256 \<and> d < 256 \<and> e < 256
   | V6 gs \<Rightarrow> length gs = 8 \<and> list_all (\<lambda>g. g < 65536) gs)"

definition ip_is_loopback :: "ip_addr \<Rightarrow> bool" where
  "ip_is_loopback a = (case a of
     V4 b _ _ _ \<Rightarrow> b = 127
   | V6 gs \<Rightarrow> gs = [0, 0, 0, 0, 0, 0, 0, 1])"

record socket_addr =
  sa_ip :: ip_addr
  sa_port :: u16

definition show_v4 :: "nat \<Rightarrow> nat \<Rightarrow> nat \<Rightarrow> nat \<Rightarrow> string" where
  "show_v4 a b c d = show_nat a @ dot # show_nat b @ dot # show_nat c @ dot # show_nat d"

fun show_groups :: "nat list \<Rightarrow> string" where
  "show_groups [] = []"
| "show_groups [g] = show_radix 16 g"
| "show_groups (g # h # gs) = show_radix 16 g @ colon # show_groups (h # gs)"

text \<open>The first longest run of zero segments: its start and its length.\<close>

fun zero_span :: "nat list \<Rightarrow> nat \<Rightarrow> nat \<times> nat \<Rightarrow> nat \<times> nat \<Rightarrow> nat \<times> nat" where
  "zero_span [] i cur best = best"
| "zero_span (g # gs) i (start, len) best =
     (if g = 0
      then (let cur = (if len = 0 then i else start, len + 1)
            in zero_span gs (i + 1) cur (if snd best < len + 1 then cur else best))
      else zero_span gs (i + 1) (0, 0) best)"

definition show_v6 :: "nat list \<Rightarrow> string" where
  "show_v6 gs =
     (if gs = replicate 8 0 then ''::''
      else if gs = [0, 0, 0, 0, 0, 0, 0, 1] then ''::1''
      else if take 6 gs = [0, 0, 0, 0, 0, 65535]
        then ''::ffff:'' @ show_v4 (gs ! 6 div 256) (gs ! 6 mod 256) (gs ! 7 div 256) (gs ! 7 mod 256)
      else (let (s, n) = zero_span gs 0 (0, 0) (0, 0)
            in if 1 < n then show_groups (take s gs) @ ''::'' @ show_groups (drop (s + n) gs)
               else show_groups gs))"

definition show_ip :: "ip_addr \<Rightarrow> string" where
  "show_ip a = (case a of V4 b c d e \<Rightarrow> show_v4 b c d e | V6 gs \<Rightarrow> show_v6 gs)"

section \<open>The parser of \<open>core::net\<close>\<close>

definition read_given_char :: "char \<Rightarrow> string \<Rightarrow> string option" where
  "read_given_char c s = (case s of [] \<Rightarrow> None | x # xs \<Rightarrow> if x = c then Some xs else None)"

text \<open>
  \<open>Parser::read_number\<close>: all the digits at the front; refused if there is none, if there are
  more than \<open>max_digits\<close>, on a leading zero where that is not allowed, or on overflow of the
  result type (\<open>limit\<close>).
\<close>

definition read_number ::
  "nat \<Rightarrow> nat option \<Rightarrow> bool \<Rightarrow> nat \<Rightarrow> string \<Rightarrow> (nat \<times> string) option" where
  "read_number radix max_digits allow_zero_prefix limit s =
     (let ds = takeWhile (is_radix_digit radix) s;
          v = digits_value radix ds
      in if ds = []
           \<or> (case max_digits of Some m \<Rightarrow> m < length ds | None \<Rightarrow> False)
           \<or> \<not> allow_zero_prefix \<and> hd ds = CHR ''0'' \<and> 1 < length ds
           \<or> limit \<le> v
         then None
         else Some (v, dropWhile (is_radix_digit radix) s))"

definition read_separator ::
  "char \<Rightarrow> nat \<Rightarrow> (string \<Rightarrow> ('a \<times> string) option) \<Rightarrow> string \<Rightarrow> ('a \<times> string) option" where
  "read_separator sep index inner s =
     (if 0 < index then (case read_given_char sep s of None \<Rightarrow> None | Some r \<Rightarrow> inner r)
      else inner s)"

definition read_octet :: "nat \<Rightarrow> string \<Rightarrow> (nat \<times> string) option" where
  "read_octet i = read_separator dot i (read_number 10 (Some 3) False 256)"

definition read_ipv4 :: "string \<Rightarrow> ((nat \<times> nat \<times> nat \<times> nat) \<times> string) option" where
  "read_ipv4 s =
     (case read_octet 0 s of None \<Rightarrow> None | Some (a, s1) \<Rightarrow>
      (case read_octet 1 s1 of None \<Rightarrow> None | Some (b, s2) \<Rightarrow>
      (case read_octet 2 s2 of None \<Rightarrow> None | Some (c, s3) \<Rightarrow>
      (case read_octet 3 s3 of None \<Rightarrow> None | Some (d, s4) \<Rightarrow>
        Some ((a, b, c, d), s4)))))"

text \<open>
  \<open>read_groups\<close>: the groups read, whether the last two came from an embedded IPv4 address,
  and the unread input.
\<close>

function read_groups :: "nat \<Rightarrow> nat \<Rightarrow> string \<Rightarrow> nat list \<times> bool \<times> string" where
  "read_groups limit i s =
     (if limit \<le> i then ([], False, s)
      else case (if i + 1 < limit then read_separator colon i read_ipv4 s else None) of
        Some ((a, b, c, d), s') \<Rightarrow> ([256 * a + b, 256 * c + d], True, s')
      | None \<Rightarrow>
          (case read_separator colon i (read_number 16 (Some 4) True 65536) s of
             None \<Rightarrow> ([], False, s)
           | Some (g, s') \<Rightarrow>
               (let (gs, v4, s'') = read_groups limit (i + 1) s' in (g # gs, v4, s''))))"
  by pat_completeness auto
termination
  by (relation "measure (\<lambda>(limit, i, s). limit - i)") auto

declare read_groups.simps [simp del]

definition read_ipv6 :: "string \<Rightarrow> (nat list \<times> string) option" where
  "read_ipv6 s =
     (let (head, head_ipv4, s1) = read_groups 8 0 s
      in if length head = 8 then Some (head, s1)
         else if head_ipv4 then None
         else (case read_given_char colon s1 of None \<Rightarrow> None | Some s2 \<Rightarrow>
              (case read_given_char colon s2 of None \<Rightarrow> None | Some s3 \<Rightarrow>
                (let (tail, _, s4) = read_groups (8 - (length head + 1)) 0 s3
                 in Some (head @ replicate (8 - length head - length tail) 0 @ tail, s4)))))"

definition read_ip_addr :: "string \<Rightarrow> (ip_addr \<times> string) option" where
  "read_ip_addr s =
     (case read_ipv4 s of
        Some ((a, b, c, d), r) \<Rightarrow> Some (V4 a b c d, r)
      | None \<Rightarrow> map_option (\<lambda>(gs, r). (V6 gs, r)) (read_ipv6 s))"

definition read_port :: "string \<Rightarrow> (u16 \<times> string) option" where
  "read_port s =
     (case read_given_char colon s of None \<Rightarrow> None | Some r \<Rightarrow>
        map_option (\<lambda>(v, r'). (of_nat v, r')) (read_number 10 None True 65536 r))"

definition read_scope_id :: "string \<Rightarrow> string" where
  "read_scope_id s =
     (case read_given_char (CHR ''%'') s of None \<Rightarrow> s | Some r \<Rightarrow>
        (case read_number 10 None True 4294967296 r of None \<Rightarrow> s | Some (_, r') \<Rightarrow> r'))"

definition read_socket_addr_v4 :: "string \<Rightarrow> (socket_addr \<times> string) option" where
  "read_socket_addr_v4 s =
     (case read_ipv4 s of None \<Rightarrow> None | Some ((a, b, c, d), r) \<Rightarrow>
        map_option (\<lambda>(p, r'). (\<lparr>sa_ip = V4 a b c d, sa_port = p\<rparr>, r')) (read_port r))"

definition read_socket_addr_v6 :: "string \<Rightarrow> (socket_addr \<times> string) option" where
  "read_socket_addr_v6 s =
     (case read_given_char (CHR ''['') s of None \<Rightarrow> None | Some s1 \<Rightarrow>
      (case read_ipv6 s1 of None \<Rightarrow> None | Some (gs, s2) \<Rightarrow>
      (case read_given_char (CHR '']'') (read_scope_id s2) of None \<Rightarrow> None | Some s3 \<Rightarrow>
        map_option (\<lambda>(p, r). (\<lparr>sa_ip = V6 gs, sa_port = p\<rparr>, r)) (read_port s3))))"

text \<open>\<open>Parser::parse_with\<close>: the whole input must be read.\<close>

definition parse_with :: "(string \<Rightarrow> ('a \<times> string) option) \<Rightarrow> string \<Rightarrow> 'a option" where
  "parse_with p s = (case p s of Some (x, []) \<Rightarrow> Some x | _ \<Rightarrow> None)"

definition ip_addr_from_str :: "string \<Rightarrow> ip_addr option" where
  "ip_addr_from_str = parse_with read_ip_addr"

definition socket_addr_from_str :: "string \<Rightarrow> socket_addr option" where
  "socket_addr_from_str = parse_with (\<lambda>s.
     case read_socket_addr_v4 s of Some x \<Rightarrow> Some x | None \<Rightarrow> read_socket_addr_v6 s)"

section \<open>Canonical decimal numbers\<close>

lemma to_digit_10_inverse: "to_digit 10 c = Some d \<Longrightarrow> digit_char d = c \<and> d < 10"
  by (auto simp: to_digit_def digit_char_def Let_def split: if_splits)

lemma digits_value_pos:
  assumes "list_all (is_radix_digit 10) ds" "ds \<noteq> []" "hd ds \<noteq> CHR ''0''"
  shows "0 < digits_value 10 ds"
  using assms
proof (induction ds rule: rev_induct)
  case (snoc c ds)
  obtain d where d: "to_digit 10 c = Some d"
    using snoc.prems by (auto simp: is_radix_digit_def)
  show ?case
  proof (cases "ds = []")
    case True
    have "d \<noteq> 0"
    proof
      assume "d = 0"
      with to_digit_10_inverse [OF d] have "c = CHR ''0''"
        by (simp add: digit_char_0)
      with True snoc.prems(3) show False by simp
    qed
    then show ?thesis
      using d True by (simp add: digits_value_single)
  next
    case False
    then show ?thesis
      using snoc by (simp add: digits_value_snoc)
  qed
qed simp

lemma show_nat_digits_value:
  assumes "list_all (is_radix_digit 10) ds" "ds \<noteq> []" "hd ds \<noteq> CHR ''0'' \<or> length ds \<le> 1"
  shows "show_nat (digits_value 10 ds) = ds"
  using assms
proof (induction ds rule: rev_induct)
  case (snoc c ds)
  obtain d where d: "to_digit 10 c = Some d"
    using snoc.prems by (auto simp: is_radix_digit_def)
  note c = to_digit_10_inverse [OF d]
  show ?case
  proof (cases "ds = []")
    case True
    then show ?thesis
      using c d by (subst show_radix.simps) (simp add: digits_value_single)
  next
    case False
    then have h: "hd ds \<noteq> CHR ''0''" and a: "list_all (is_radix_digit 10) ds"
      using snoc.prems by (auto simp: Suc_le_eq)
    have "0 < digits_value 10 ds"
      using digits_value_pos [OF a False h] .
    then show ?thesis
      using snoc.IH [OF a False] h c d by (subst show_radix.simps) (simp add: digits_value_snoc)
  qed
qed simp

lemma show_nat_hd_zero: "hd (show_nat n) = CHR ''0'' \<Longrightarrow> n = 0"
proof (induction "10 :: nat" n rule: show_radix.induct)
  case (1 n)
  have "d = 0" if "digit_char d = CHR ''0''" "d < 10" for d
    using that to_digit_digit_char [of d 10] by (simp add: to_digit_def)
  then show ?case
    using 1 by (cases "n < 10") (simp_all add: show_radix.simps [of 10 n])
qed

lemma takeWhile_digits_append:
  assumes "list_all P ds" "r = [] \<or> \<not> P (hd r)"
  shows "takeWhile P (ds @ r) = ds" "dropWhile P (ds @ r) = r"
  using assms by (cases r; auto simp: list_all_iff takeWhile_append2 dropWhile_append2)+

lemma read_number_show:
  assumes "v < limit" "r = [] \<or> \<not> is_radix_digit 10 (hd r)" "m = None \<or> m = Some 3 \<and> v < 256"
  shows "read_number 10 m z limit (show_nat v @ r) = Some (v, r)"
proof -
  note ds = show_radix_digits [of 10 v, simplified]
  have len: "length (show_nat v) \<le> 3" if "v < 256"
    using that by (subst show_radix.simps, subst show_radix.simps, subst show_radix.simps) auto
  have lz: "length (show_nat v) \<le> 1" if "hd (show_nat v) = CHR ''0''"
    using show_nat_hd_zero [OF that] by (subst show_radix.simps) simp
  show ?thesis
    using assms len lz takeWhile_digits_append [OF ds assms(2)]
    by (auto simp: read_number_def Let_def digits_value_show_radix)
qed

section \<open>IPv4: printing and parsing are inverse\<close>

lemma read_octet_0_show:
  "\<lbrakk>v < 256; r = [] \<or> \<not> is_radix_digit 10 (hd r)\<rbrakk> \<Longrightarrow> read_octet 0 (show_nat v @ r) = Some (v, r)"
  by (simp add: read_octet_def read_separator_def read_number_show)

lemma read_octet_Suc_show:
  "\<lbrakk>v < 256; 0 < i; r = [] \<or> \<not> is_radix_digit 10 (hd r)\<rbrakk>
   \<Longrightarrow> read_octet i (dot # show_nat v @ r) = Some (v, r)"
  by (simp add: read_octet_def read_separator_def read_given_char_def read_number_show)

lemma dot_no_digit [simp]: "\<not> is_radix_digit 10 dot"
  by (simp add: is_radix_digit_def to_digit_def)

lemma colon_no_digit [simp]: "\<not> is_radix_digit 10 colon" "\<not> is_radix_digit 16 colon"
  by (simp_all add: is_radix_digit_def to_digit_def)

lemma read_ipv4_show:
  assumes "a < 256" "b < 256" "c < 256" "d < 256" "r = [] \<or> \<not> is_radix_digit 10 (hd r)"
  shows "read_ipv4 (show_v4 a b c d @ r) = Some ((a, b, c, d), r)"
  using assms by (simp add: read_ipv4_def show_v4_def read_octet_0_show read_octet_Suc_show)

lemma read_number_strict:
  assumes "read_number 10 (Some 3) False 256 s = Some (v, r)"
  shows "s = show_nat v @ r" "v < 256"
proof -
  let ?ds = "takeWhile (is_radix_digit 10) s"
  have v: "v = digits_value 10 ?ds" "r = dropWhile (is_radix_digit 10) s" "?ds \<noteq> []"
    "hd ?ds \<noteq> CHR ''0'' \<or> length ?ds \<le> 1" "v < 256"
    using assms by (auto simp: read_number_def Let_def split: if_splits)
  have "list_all (is_radix_digit 10) ?ds"
    by (auto simp: list_all_iff dest: set_takeWhileD)
  then have "show_nat v = ?ds"
    using v show_nat_digits_value by simp
  then show "s = show_nat v @ r"
    using v by simp
  show "v < 256" by fact
qed

lemma read_octet_canonical:
  assumes "read_octet i s = Some (v, r)"
  shows "s = (if i = 0 then [] else [dot]) @ show_nat v @ r \<and> v < 256"
proof (cases "i = 0")
  case True
  then have "read_number 10 (Some 3) False 256 s = Some (v, r)"
    using assms by (simp add: read_octet_def read_separator_def)
  from read_number_strict [OF this] True show ?thesis by simp
next
  case False
  then obtain t where t: "read_given_char dot s = Some t" "read_number 10 (Some 3) False 256 t = Some (v, r)"
    using assms by (auto simp: read_octet_def read_separator_def split: option.splits)
  have "s = dot # t"
    using t(1) by (auto simp: read_given_char_def split: list.splits if_splits)
  with read_number_strict [OF t(2)] False show ?thesis by simp
qed

lemma read_ipv4_canonical:
  assumes "read_ipv4 s = Some ((a, b, c, d), r)"
  shows "s = show_v4 a b c d @ r" "wf_ip (V4 a b c d)"
proof -
  obtain s1 s2 s3 where o: "read_octet 0 s = Some (a, s1)" "read_octet 1 s1 = Some (b, s2)"
    "read_octet 2 s2 = Some (c, s3)" "read_octet 3 s3 = Some (d, r)"
    using assms by (auto simp: read_ipv4_def split: option.splits)
  note o = o [THEN read_octet_canonical]
  from o show "s = show_v4 a b c d @ r"
    by (simp add: show_v4_def)
  from o show "wf_ip (V4 a b c d)"
    by (simp add: wf_ip_def)
qed

section \<open>Colons spent by the IPv6 parser\<close>

lemma count_dropWhile_digits:
  "count_list (dropWhile (is_radix_digit 10) s) colon = count_list s colon"
  "count_list (dropWhile (is_radix_digit 16) s) colon = count_list s colon"
  by (induction s) auto

lemma read_number_colons:
  "\<lbrakk>read_number q m z l s = Some (v, r); q = 10 \<or> q = 16\<rbrakk> \<Longrightarrow> count_list r colon = count_list s colon"
  by (auto simp: read_number_def Let_def count_dropWhile_digits split: if_splits)

lemma read_given_char_SomeD: "read_given_char c s = Some r \<Longrightarrow> s = c # r"
  by (auto simp: read_given_char_def split: list.splits if_splits)

lemma show_v4_no_colon [simp]: "colon \<notin> set (show_v4 a b c d)"
  by (simp add: show_v4_def)

lemma read_ipv4_colons: "read_ipv4 s = Some (x, r) \<Longrightarrow> count_list r colon = count_list s colon"
  using read_ipv4_canonical(1) [of s _ _ _ _ r] by (cases x) (auto simp: count_list_0_iff)

lemma read_group_colons:
  assumes "read_separator colon i inner s = Some (x, r)"
    and "\<And>t. inner t = Some (x, r) \<Longrightarrow> count_list r colon = count_list t colon"
  shows "count_list r colon + (if i = 0 then 0 else 1) = count_list s colon"
  using assms
  by (auto simp: read_separator_def split: if_splits option.splits dest: read_given_char_SomeD)

lemma read_groups_colons:
  "read_groups limit i s = (gs, v4, r) \<Longrightarrow>
   length gs + count_list r colon \<le> count_list s colon + (if i = 0 then 1 else 0) + (if v4 then 1 else 0)
   \<and> count_list r colon \<le> count_list s colon"
proof (induction limit i s arbitrary: gs v4 r rule: read_groups.induct)
  case (1 limit i s)
  let ?v4 = "if i + 1 < limit then read_separator colon i read_ipv4 s else None"
  let ?num = "read_separator colon i (read_number 16 (Some 4) True 65536) s"
  consider (stop) "limit \<le> i"
    | (v4) a b c d r' where "i < limit" "?v4 = Some ((a, b, c, d), r')"
    | (none) "i < limit" "?v4 = None" "?num = None"
    | (num) g r' where "i < limit" "?v4 = None" "?num = Some (g, r')"
    by (metis linorder_not_le option.exhaust surj_pair)
  then show ?case
  proof cases
    case stop
    then show ?thesis
      using "1.prems" by (simp add: read_groups.simps [of limit i s])
  next
    case v4
    then have sep: "read_separator colon i read_ipv4 s = Some ((a, b, c, d), r')"
      by (simp split: if_splits)
    have "count_list r' colon + (if i = 0 then 0 else 1) = count_list s colon"
      by (rule read_group_colons [OF sep]) (rule read_ipv4_colons)
    moreover have "gs = [256 * a + b, 256 * c + d]" "v4" "r = r'"
      using "1.prems" v4 by (simp_all add: read_groups.simps [of limit i s])
    ultimately show ?thesis
      by (simp split: if_splits)
  next
    case none
    then show ?thesis
      using "1.prems" by (simp add: read_groups.simps [of limit i s])
  next
    case num
    obtain gs' w r'' where rec: "read_groups limit (i + 1) r' = (gs', w, r'')"
      by (cases "read_groups limit (i + 1) r'") auto
    have "count_list r' colon + (if i = 0 then 0 else 1) = count_list s colon"
      by (rule read_group_colons [OF num(3)]) (rule read_number_colons, auto)
    moreover have "gs = g # gs'" "v4 = w" "r = r''"
      using "1.prems" num rec by (simp_all add: read_groups.simps [of limit i s])
    moreover have "length gs' + count_list r'' colon \<le> count_list r' colon + (if w then 1 else 0)
        \<and> count_list r'' colon \<le> count_list r' colon"
      using "1.IH" [of "(g, r')" g r' gs' w r''] num rec by simp
    ultimately show ?thesis
      by (simp split: if_splits)
  qed
qed

lemma read_ipv6_colons:
  assumes "read_ipv6 s = Some (gs, r)"
  shows "count_list r colon + 2 \<le> count_list s colon"
proof -
  obtain hd6 v4 s1 where h: "read_groups 8 0 s = (hd6, v4, s1)"
    by (cases "read_groups 8 0 s") auto
  note c1 = read_groups_colons [OF h]
  show ?thesis
  proof (cases "length hd6 = 8")
    case True
    then show ?thesis
      using assms h c1 by (auto simp: read_ipv6_def split: if_splits)
  next
    case False
    then obtain s2 s3 where s: "read_given_char colon s1 = Some s2" "read_given_char colon s2 = Some s3"
      using assms h by (auto simp: read_ipv6_def split: if_splits option.splits)
    obtain tl6 w s4 where t: "read_groups (8 - (length hd6 + 1)) 0 s3 = (tl6, w, s4)"
      by (cases "read_groups (8 - (length hd6 + 1)) 0 s3") auto
    have "r = s4"
      using assms h t s False by (simp add: read_ipv6_def split: if_splits)
    moreover have "s1 = colon # colon # s3"
      using s by (simp add: read_given_char_SomeD)
    ultimately show ?thesis
      using c1 read_groups_colons [OF t] by simp
  qed
qed

lemma read_scope_id_colons: "count_list (read_scope_id s) colon = count_list s colon"
proof (cases "read_given_char (CHR ''%'') s")
  case (Some t)
  note Some [THEN read_given_char_SomeD]
  moreover have "count_list u colon = count_list t colon"
    if "read_number 10 None True 4294967296 t = Some (x, u)" for x u
    using read_number_colons [OF that] by simp
  ultimately show ?thesis
    using Some by (auto simp: read_scope_id_def split: option.splits)
qed (simp add: read_scope_id_def)

lemma read_socket_addr_v6_colons:
  assumes "read_socket_addr_v6 s = Some (a, r)"
  shows "2 \<le> count_list s colon"
proof -
  obtain s1 gs s2 s3 where s: "read_given_char (CHR ''['') s = Some s1" "read_ipv6 s1 = Some (gs, s2)"
    "read_given_char (CHR '']'') (read_scope_id s2) = Some s3"
    using assms by (auto simp: read_socket_addr_v6_def split: option.splits)
  have "s = CHR ''['' # s1"
    using s(1) by (rule read_given_char_SomeD)
  then show ?thesis
    using read_ipv6_colons [OF s(2)] by simp
qed

section \<open>What the parser of socket addresses accepts\<close>

lemma read_port_show: "read_port (colon # show_nat (unat (p :: u16))) = Some (p, [])"
  using unsigned_less [of p, where ?'a = nat] read_number_show [of "unat p" 65536 "[]" None True]
  by (simp add: read_port_def read_given_char_def)

lemma socket_addr_from_str_v4:
  assumes "a < 256" "b < 256" "c < 256" "d < 256"
  shows "socket_addr_from_str (show_v4 a b c d @ colon # show_nat (unat (p :: u16))) =
     Some \<lparr>sa_ip = V4 a b c d, sa_port = p\<rparr>"
  using assms by (simp add: socket_addr_from_str_def parse_with_def read_socket_addr_v4_def
      read_ipv4_show read_port_show)

text \<open>A host with no colon and a port: the host is an IPv4 address in canonical form, or nothing.\<close>

lemma socket_addr_from_str_host:
  assumes h: "colon \<notin> set h" and p: "socket_addr_from_str (h @ colon # show_nat (unat p)) = Some a"
  shows "h = show_ip (sa_ip a)" "sa_port a = p" "wf_ip (sa_ip a)"
proof -
  let ?s = "h @ colon # show_nat (unat p)"
  have "count_list ?s colon = 1"
    using h by (simp add: count_list_0_iff)
  then have "read_socket_addr_v6 ?s = None"
    using read_socket_addr_v6_colons [of ?s] by (cases "read_socket_addr_v6 ?s") auto
  then have "read_socket_addr_v4 ?s = Some (a, [])"
    using p by (auto simp: socket_addr_from_str_def parse_with_def split: option.splits list.splits)
  then obtain b c d e r q where r: "read_ipv4 ?s = Some ((b, c, d, e), r)" "read_port r = Some (q, [])"
    "a = \<lparr>sa_ip = V4 b c d e, sa_port = q\<rparr>"
    by (auto simp: read_socket_addr_v4_def split: option.splits)
  have s: "?s = show_v4 b c d e @ r" and wf: "wf_ip (V4 b c d e)"
    using read_ipv4_canonical [OF r(1)] by simp_all
  obtain t where t: "r = colon # t"
    using r(2) by (auto simp: read_port_def read_given_char_def split: option.splits list.splits if_splits)
  have "h = show_v4 b c d e \<and> show_nat (unat p) = t"
    using s h t by (simp add: append_Cons_eq_iff)
  then show "h = show_ip (sa_ip a)" "sa_port a = p" "wf_ip (sa_ip a)"
    using r t wf by (auto simp: show_ip_def read_port_show)
qed

lemma ip_addr_from_str_v4:
  assumes "a < 256" "b < 256" "c < 256" "d < 256"
  shows "ip_addr_from_str (show_v4 a b c d) = Some (V4 a b c d)"
  using assms read_ipv4_show [of a b c d "[]"]
  by (simp add: ip_addr_from_str_def parse_with_def read_ip_addr_def)

end
