(* ===== verification/Addr.thy ===== *)
theory Addr
  imports Complex_Main Messages Std_Net
begin

text \<open>
  \<open>libnp/src/lib.rs\<close>: \<open>Addr\<close>, an optional host and a port, its conversions, its textual
  form and serde form, and the origins \<open>tcp://host:port\<close> under which forwarded ports are
  registered. \<open>None\<close> as a host means the loopback interface. \<open>Url::parse\<close> is a
  parameter of \<open>split_origin\<close> (the \<open>url\<close> crate).

  The lemmas show the round trips of an address (text, protobuf, serde), the exact set of
  numbers serde accepts as a port, and when two addresses share an origin.
\<close>

section \<open>Addr\<close>

definition DEFAULT_ADDR_HOST :: string where "DEFAULT_ADDR_HOST = ''127.0.0.1''"
definition LOCALHOST :: string where "LOCALHOST = ''localhost''"

definition is_loopback :: "string \<Rightarrow> bool" where
  "is_loopback s = (case ip_addr_from_str s of Some a \<Rightarrow> ip_is_loopback a | None \<Rightarrow> False)"

record addr =
  addr_host :: "string option"
  addr_port :: u16

definition from_port :: "u16 \<Rightarrow> addr" where
  "from_port p = \<lparr>addr_host = None, addr_port = p\<rparr>"

definition from_host_and_port :: "string \<Rightarrow> u16 \<Rightarrow> addr" where
  "from_host_and_port h p =
     \<lparr>addr_host = (if h = [] \<or> h = LOCALHOST \<or> is_loopback h then None else Some h), addr_port = p\<rparr>"

definition from_socket_addr :: "socket_addr \<Rightarrow> addr" where
  "from_socket_addr a = from_host_and_port (show_ip (sa_ip a)) (sa_port a)"

text \<open>\<open>address.port as u16\<close> keeps the low sixteen bits.\<close>

definition from_address :: "address option \<Rightarrow> addr" where
  "from_address a = (case a of
     Some a \<Rightarrow> \<lparr>addr_host = address_host a, addr_port = ucast (address_port a)\<rparr>
   | None \<Rightarrow> \<lparr>addr_host = None, addr_port = 0\<rparr>)"

definition has_host :: "addr \<Rightarrow> bool" where
  "has_host a \<longleftrightarrow> addr_host a \<noteq> None"

definition with_port :: "addr \<Rightarrow> u16 \<Rightarrow> addr" where
  "with_port a p = \<lparr>addr_host = addr_host a, addr_port = p\<rparr>"

definition to_address :: "addr \<Rightarrow> address" where
  "to_address a = \<lparr>address_host = addr_host a, address_port = ucast (addr_port a)\<rparr>"

text \<open>\<open>Display\<close>: an address whose host contains a colon is printed in brackets.\<close>

definition addr_to_string :: "addr \<Rightarrow> string" where
  "addr_to_string a =
     (let host = (case addr_host a of Some h \<Rightarrow> h | None \<Rightarrow> DEFAULT_ADDR_HOST);
          host = (if colon \<in> set host then CHR ''['' # host @ [CHR '']''] else host)
      in host @ colon # show_nat (unat (addr_port a)))"

definition try_to_socket_addr :: "addr \<Rightarrow> socket_addr option" where
  "try_to_socket_addr a = socket_addr_from_str (addr_to_string a)"

datatype simple_error = NoSocketAddr | InvalidHostPort string | InvalidPort

definition try_parse_socket_addr :: "string \<Rightarrow> simple_error + addr" where
  "try_parse_socket_addr s =
     (case socket_addr_from_str s of None \<Rightarrow> Err NoSocketAddr | Some a \<Rightarrow> Ok (from_socket_addr a))"

definition try_parse_hostname :: "string \<Rightarrow> simple_error + addr" where
  "try_parse_hostname s =
     (let parts = split_on colon s
      in if length parts \<noteq> 2 then Err (InvalidHostPort s)
         else (case parse_u16 (parts ! 1) of
                 None \<Rightarrow> Err InvalidPort
               | Some p \<Rightarrow> Ok (from_host_and_port (parts ! 0) p)))"

definition addr_from_str :: "string \<Rightarrow> simple_error + addr" where
  "addr_from_str s =
     (case try_parse_socket_addr s of Inr a \<Rightarrow> Ok a | Inl _ \<Rightarrow> try_parse_hostname s)"

section \<open>Serde\<close>

text \<open>What the serializer is handed, and what a deserializer hands to the visitor.\<close>

datatype ser_value = SerStr string | SerU16 u16

datatype f64 = F64_Finite rat | F64_Infinity | F64_NegInfinity | F64_NaN

datatype de_value = DeF64 f64 | DeI64 i64 | DeU64 u64 | DeStr string

datatype de_error = PortOutOfRange i64 | BadAddress string simple_error

definition addr_serialize :: "addr \<Rightarrow> ser_value" where
  "addr_serialize a = (case addr_host a of
     Some _ \<Rightarrow> SerStr (addr_to_string a) | None \<Rightarrow> SerU16 (addr_port a))"

text \<open>\<open>v as i64\<close> on a float: towards zero, saturating, NaN to zero.\<close>

definition f64_as_i64 :: "f64 \<Rightarrow> i64" where
  "f64_as_i64 v = (case v of
     F64_Finite r \<Rightarrow>
       (let t = (if r < 0 then - \<lfloor>- r\<rfloor> else \<lfloor>r\<rfloor>)
        in word_of_int (max (- (2 ^ 63)) (min (2 ^ 63 - 1) t)))
   | F64_Infinity \<Rightarrow> word_of_int (2 ^ 63 - 1)
   | F64_NegInfinity \<Rightarrow> word_of_int (- (2 ^ 63))
   | F64_NaN \<Rightarrow> 0)"

definition visit_i64 :: "i64 \<Rightarrow> de_error + addr" where
  "visit_i64 v =
     (if 0 \<le> sint v \<and> sint v \<le> 65535 then Ok \<lparr>addr_host = None, addr_port = ucast v\<rparr>
      else Err (PortOutOfRange v))"

definition visit_f64 :: "f64 \<Rightarrow> de_error + addr" where
  "visit_f64 v = visit_i64 (f64_as_i64 v)"

definition visit_u64 :: "u64 \<Rightarrow> de_error + addr" where
  "visit_u64 v = visit_i64 v"

definition visit_str :: "string \<Rightarrow> de_error + addr" where
  "visit_str s = map_err (BadAddress s) (addr_from_str s)"

definition addr_deserialize :: "de_value \<Rightarrow> de_error + addr" where
  "addr_deserialize v = (case v of
     DeF64 f \<Rightarrow> visit_f64 f | DeI64 i \<Rightarrow> visit_i64 i | DeU64 u \<Rightarrow> visit_u64 u | DeStr s \<Rightarrow> visit_str s)"

text \<open>
  A text format hands back what was written: a string as a string, an unsigned number as
  a \<open>u64\<close> (JSON, YAML).
\<close>

definition reread :: "ser_value \<Rightarrow> de_value" where
  "reread v = (case v of SerStr s \<Rightarrow> DeStr s | SerU16 n \<Rightarrow> DeU64 (ucast n))"

section \<open>Protocols and origins\<close>

datatype libnp_error = InvalidOrigin_Parse string | InvalidOrigin_Protocol string
  | InvalidOrigin_MissingHost string | InvalidOrigin_MissingPort string

definition port_protocol_from_str :: "string \<Rightarrow> string + port_protocol" where
  "port_protocol_from_str s = (if s = ''tcp'' then Ok Tcp else Err s)"

definition port_origin :: "port_protocol \<Rightarrow> addr \<Rightarrow> string" where
  "port_origin p a = (case p of Tcp \<Rightarrow> ''tcp'') @ ''://'' @ addr_to_string a"

definition port_origin_from_raw :: "i32 \<Rightarrow> address option \<Rightarrow> string outcome" where
  "port_origin_from_raw p a =
     (case port_protocol_try_from p of
        None \<Rightarrow> Panic
      | Some p \<Rightarrow> Return (port_origin p (from_address a)))"

text \<open>What \<open>split_origin\<close> asks of a parsed \<open>Url\<close>: scheme, host and port.\<close>

record parsed_url =
  url_scheme :: string
  url_host :: "string option"
  url_port :: "u16 option"

definition split_origin ::
  "(string \<Rightarrow> parsed_url option) \<Rightarrow> string \<Rightarrow> libnp_error + (port_protocol \<times> string \<times> u16)" where
  "split_origin parse_url origin =
     (case parse_url origin of None \<Rightarrow> Err (InvalidOrigin_Parse origin) | Some url \<Rightarrow>
      (case port_protocol_from_str (url_scheme url) of Inl e \<Rightarrow> Err (InvalidOrigin_Protocol e) | Inr protocol \<Rightarrow>
      (case url_host url of None \<Rightarrow> Err (InvalidOrigin_MissingHost origin) | Some host \<Rightarrow>
      (case url_port url of None \<Rightarrow> Err (InvalidOrigin_MissingPort origin) | Some p \<Rightarrow>
        Ok (protocol, host, p)))))"

section \<open>Conversions\<close>

lemma u16_le_65535: "unat (p :: u16) \<le> 65535"
  using unsigned_less [of p, where ?'a = nat] by simp

lemma uint_u16_le: "uint (p :: u16) \<le> 65535"
  using unsigned_less [of p, where ?'a = int] by simp

lemma unat_ucast_u16_u32 [simp]: "unat (ucast (p :: u16) :: u32) = unat p"
  using u16_le_65535 [of p] by (simp add: unsigned_ucast_eq take_bit_nat_eq_self_iff)

lemma ucast_u32_u16 [simp]: "ucast (ucast (p :: u16) :: u32) = p"
  by (simp add: ucast_up_ucast_id is_up)

lemma ucast_u64_u16 [simp]: "ucast (ucast (p :: u16) :: u64) = p"
  by (simp add: ucast_up_ucast_id is_up)

lemma from_address_port: "unat (addr_port (from_address (Some a))) = unat (address_port a) mod 65536"
  by (simp add: from_address_def unsigned_ucast_eq take_bit_eq_mod)

lemma from_address_to_address [simp]: "from_address (Some (to_address a)) = a"
  by (simp add: from_address_def to_address_def)

section \<open>Text\<close>

text \<open>
  The addresses \<open>from_host_and_port\<close> makes of a host that is no IPv6 address: either no host, or
  a host that is not another name of the loopback interface.
\<close>

definition canonical_addr :: "addr \<Rightarrow> bool" where
  "canonical_addr a = (case addr_host a of
     None \<Rightarrow> True
   | Some h \<Rightarrow> h \<noteq> [] \<and> h \<noteq> LOCALHOST \<and> \<not> is_loopback h \<and> colon \<notin> set h)"

lemma from_host_and_port_canonical: "colon \<notin> set h \<Longrightarrow> canonical_addr (from_host_and_port h p)"
  by (simp add: canonical_addr_def from_host_and_port_def)

lemma from_host_and_port_of_canonical:
  "canonical_addr \<lparr>addr_host = Some h, addr_port = p\<rparr>
   \<Longrightarrow> from_host_and_port h p = \<lparr>addr_host = Some h, addr_port = p\<rparr>"
  by (simp add: canonical_addr_def from_host_and_port_def)

lemma default_host_v4: "DEFAULT_ADDR_HOST = show_v4 127 0 0 1"
  unfolding DEFAULT_ADDR_HOST_def show_v4_def by code_simp

lemma is_loopback_default [simp]: "is_loopback DEFAULT_ADDR_HOST"
  by (simp add: is_loopback_def default_host_v4 ip_addr_from_str_v4 ip_is_loopback_def)

lemma default_host_no_colon [simp]: "colon \<notin> set DEFAULT_ADDR_HOST"
  by (simp add: default_host_v4)

lemma addr_from_str_host:
  assumes "colon \<notin> set h"
  shows "addr_from_str (h @ colon # show_nat (unat p)) = Ok (from_host_and_port h p)"
proof (cases "socket_addr_from_str (h @ colon # show_nat (unat p))")
  case (Some a)
  then show ?thesis
    using socket_addr_from_str_host [OF assms Some]
    by (simp add: addr_from_str_def try_parse_socket_addr_def from_socket_addr_def)
next
  case None
  have "split_on colon (h @ colon # show_nat (unat p)) = [h, show_nat (unat p)]"
    using assms by (simp add: split_on_append_sep split_on_no_sep)
  with None show ?thesis
    by (simp add: addr_from_str_def try_parse_socket_addr_def try_parse_hostname_def)
qed

lemma addr_to_string_host:
  "colon \<notin> set h \<Longrightarrow>
   addr_to_string \<lparr>addr_host = Some h, addr_port = p\<rparr> = h @ colon # show_nat (unat p)"
  by (simp add: addr_to_string_def)

lemma addr_to_string_none:
  "addr_to_string \<lparr>addr_host = None, addr_port = p\<rparr> = DEFAULT_ADDR_HOST @ colon # show_nat (unat p)"
  by (simp add: addr_to_string_def)

lemma addr_text_canonical:
  assumes "canonical_addr a"
  shows "addr_from_str (addr_to_string a) = Ok a"
proof (cases "addr_host a")
  case None
  then have "a = \<lparr>addr_host = None, addr_port = addr_port a\<rparr>" by simp
  then show ?thesis
    using addr_from_str_host [OF default_host_no_colon, of "addr_port a"] None
    by (simp add: addr_to_string_def from_host_and_port_def)
next
  case (Some h)
  then have a: "a = \<lparr>addr_host = Some h, addr_port = addr_port a\<rparr>" by simp
  then have "colon \<notin> set h"
    using assms Some by (simp add: canonical_addr_def)
  then have "addr_from_str (addr_to_string a) = Ok (from_host_and_port h (addr_port a))"
    by (subst a) (simp add: addr_to_string_host addr_from_str_host)
  with a assms show ?thesis
    by (metis from_host_and_port_of_canonical)
qed

section \<open>Numbers as ports\<close>

lemma sint_small:
  fixes v :: u64
  assumes "uint v < 2 ^ 63"
  shows "sint v = uint v"
proof -
  have "- (2 ^ 63) \<le> uint v"
    by (rule order_trans [OF _ unsigned_greater_eq]) simp
  then have "signed_take_bit 63 (uint v) = uint v"
    using assms by (rule signed_take_bit_int_eq_self)
  then show ?thesis
    by (simp add: sint_uint)
qed

lemma sint_ucast_u16: "sint (ucast (p :: u16) :: u64) = int (unat p)"
  using uint_u16_le [of p] by (simp add: sint_small uint_up_ucast is_up)

lemma visit_u64_port: "visit_u64 (ucast (p :: u16)) = Ok \<lparr>addr_host = None, addr_port = p\<rparr>"
  using uint_u16_le [of p] by (simp add: visit_u64_def visit_i64_def sint_ucast_u16)

lemma sint_word_of_int_64: "- (2 ^ 63) \<le> i \<Longrightarrow> i < 2 ^ 63 \<Longrightarrow> sint (word_of_int i :: i64) = i"
  by (simp add: signed_of_int signed_take_bit_int_eq_self del: of_int_of_nat_eq)

lemma visit_i64_of_int:
  assumes "- (2 ^ 63) \<le> i" "i < 2 ^ 63"
  shows "is_ok (visit_i64 (word_of_int i)) \<longleftrightarrow> 0 \<le> i \<and> i \<le> 65535"
  using assms by (simp add: visit_i64_def sint_word_of_int_64)

lemma visit_i64_ok:
  "visit_i64 v = Ok a \<longleftrightarrow> 0 \<le> sint v \<and> sint v \<le> 65535 \<and> a = \<lparr>addr_host = None, addr_port = ucast v\<rparr>"
  by (auto simp: visit_i64_def)

lemma sint_nonneg_unat:
  fixes v :: u64
  shows "0 \<le> sint v \<and> sint v \<le> 65535 \<longleftrightarrow> unat v \<le> 65535"
proof
  have uv: "uint v = int (unat v)" by simp
  assume "unat v \<le> 65535"
  then have "int (unat v) \<le> 65535" by linarith
  with uv have u: "uint v \<le> 65535" by linarith
  then have "uint v < 2 ^ 63" by simp
  then have "sint v = uint v"
    by (rule sint_small)
  with u show "0 \<le> sint v \<and> sint v \<le> 65535"
    by simp
next
  assume s: "0 \<le> sint v \<and> sint v \<le> 65535"
  obtain i where i: "i = sint v" by simp
  then have v: "v = word_of_int i" by simp
  have "uint v = take_bit 64 i"
    unfolding v by (simp add: unsigned_of_int)
  also have "\<dots> = i"
    using s i by (intro take_bit_int_eq_self) simp_all
  finally have "int (unat v) \<le> 65535"
    using s i by simp
  then show "unat v \<le> 65535" by linarith
qed

lemma visit_f64_finite: "is_ok (visit_f64 (F64_Finite r)) \<longleftrightarrow> - 1 < r \<and> r < 65536"
proof -
  let ?t = "if r < 0 then - \<lfloor>- r\<rfloor> else \<lfloor>r\<rfloor>"
  let ?c = "max (- (2 ^ 63)) (min (2 ^ 63 - 1) ?t) :: int"
  have "is_ok (visit_f64 (F64_Finite r)) \<longleftrightarrow> 0 \<le> ?c \<and> ?c \<le> 65535"
    using visit_i64_of_int [of ?c] by (simp add: visit_f64_def f64_as_i64_def)
  also have "\<dots> \<longleftrightarrow> 0 \<le> ?t \<and> ?t \<le> 65535" by (auto simp: max_def min_def)
  also have "\<dots> \<longleftrightarrow> - 1 < r \<and> r < 65536"
  proof (cases "r < 0")
    case True
    then have n: "0 \<le> \<lfloor>- r\<rfloor>" by simp
    have "?t = - \<lfloor>- r\<rfloor>" using True by simp
    moreover have "0 \<le> - \<lfloor>- r\<rfloor> \<longleftrightarrow> - 1 < r" by (simp add: floor_le_iff)
    ultimately show ?thesis using n True by linarith
  qed (auto simp: floor_le_iff)
  finally show ?thesis .
qed

section \<open>Origins\<close>

text \<open>The host under which an address is printed.\<close>

definition effective_host :: "addr \<Rightarrow> string" where
  "effective_host a = (case addr_host a of Some h \<Rightarrow> h | None \<Rightarrow> DEFAULT_ADDR_HOST)"

lemma addr_to_string_effective:
  "addr_to_string a =
     (if colon \<in> set (effective_host a) then CHR ''['' # effective_host a @ [CHR '']''] else effective_host a)
     @ colon # show_nat (unat (addr_port a))"
  by (simp add: addr_to_string_def effective_host_def)

lemma bracket_inject:
  assumes "(if colon \<in> set h then CHR ''['' # h @ [CHR '']''] else h) =
           (if colon \<in> set k then CHR ''['' # k @ [CHR '']''] else k)"
  shows "h = k"
  using assms by (auto split: if_splits)

lemma host_port_inject:
  assumes "x @ colon # show_nat m = y @ colon # show_nat n"
  shows "x = y \<and> m = n"
proof -
  have "rsplit_once colon (x @ colon # show_nat m) = Some (x, show_nat m)"
    "rsplit_once colon (y @ colon # show_nat n) = Some (y, show_nat n)"
    by (simp_all add: rsplit_once_append)
  then have "Some (x, show_nat m) = Some (y, show_nat n)"
    unfolding assms by metis
  then show ?thesis by simp
qed

lemma addr_to_string_inject:
  assumes "addr_to_string a = addr_to_string b"
  shows "effective_host a = effective_host b \<and> addr_port a = addr_port b"
proof -
  note host_port_inject [OF assms [unfolded addr_to_string_effective]]
  then show ?thesis
    using bracket_inject [of "effective_host a" "effective_host b"] unsigned_word_eqI by blast
qed

section \<open>Properties\<close>

text \<open>What is read from the text of an address whose host holds no colon.\<close>

lemma addr_text_read:
  assumes "\<And>g. addr_host a = Some g \<Longrightarrow> colon \<notin> set g"
  shows "addr_from_str (addr_to_string a)
    = Ok (case addr_host a of None \<Rightarrow> a | Some g \<Rightarrow> from_host_and_port g (addr_port a))"
proof (cases "addr_host a")
  case None
  then show ?thesis using addr_text_canonical [of a] by (simp add: canonical_addr_def)
next
  case (Some g)
  then have a: "a = \<lparr>addr_host = Some g, addr_port = addr_port a\<rparr>" by simp
  have "colon \<notin> set g" by (rule assms [OF Some])
  then have "addr_from_str (addr_to_string a) = Ok (from_host_and_port g (addr_port a))"
    by (subst a) (simp add: addr_to_string_host addr_from_str_host)
  then show ?thesis using Some by simp
qed

lemma from_host_and_port_same:
  "from_host_and_port g p = \<lparr>addr_host = Some g, addr_port = p\<rparr> \<longleftrightarrow> g \<noteq> [] \<and> g \<noteq> LOCALHOST \<and> \<not> is_loopback g"
  by (simp add: from_host_and_port_def)

text \<open>
  C29. Reading an address back from its own text, where its host (if any) holds no colon, so that it is not an
  IPv6 one. An address without a host is read as itself, one with a host as what \<open>from_host_and_port\<close> makes
  of that host and the port; so it is read as itself exactly when its host is not another name of the loopback interface
  (empty, \<open>localhost\<close>, an address of it), as every address from \<open>from_host_and_port\<close> is; one of \<open>from_address\<close> may lose such a host. And any text of a host and a port,
  IPv4 or not, is read as \<open>from_host_and_port\<close> of the two, although the parser tries the socket address first.
\<close>

theorem addr_text_roundtrip:
  assumes a: "\<And>g. addr_host a = Some g \<Longrightarrow> colon \<notin> set g" and h: "colon \<notin> set h"
  shows "addr_from_str (addr_to_string a)
      = Ok (case addr_host a of None \<Rightarrow> a | Some g \<Rightarrow> from_host_and_port g (addr_port a))
    \<and> (addr_from_str (addr_to_string a) = Ok a
        \<longleftrightarrow> (\<nexists>g. addr_host a = Some g \<and> (g = [] \<or> g = ''localhost'' \<or> is_loopback g)))
    \<and> addr_from_str (addr_to_string (from_host_and_port h p)) = Ok (from_host_and_port h p)
    \<and> addr_from_str (h @ colon # show_nat (unat p)) = Ok (from_host_and_port h p)"
proof -
  have same: "(case addr_host a of None \<Rightarrow> a | Some g \<Rightarrow> from_host_and_port g (addr_port a)) = a
      \<longleftrightarrow> (\<nexists>g. addr_host a = Some g \<and> (g = [] \<or> g = LOCALHOST \<or> is_loopback g))"
  proof (cases "addr_host a")
    case (Some g)
    then have "a = \<lparr>addr_host = Some g, addr_port = addr_port a\<rparr>" by simp
    then show ?thesis using Some from_host_and_port_same [of g "addr_port a"] by auto
  qed simp
  note read = addr_text_read [of a, OF a]
  have "addr_from_str (addr_to_string (from_host_and_port h p)) = Ok (from_host_and_port h p)"
    using addr_text_canonical from_host_and_port_canonical [OF h] by blast
  then show ?thesis
    using read same addr_from_str_host [OF h, of p] unfolding LOCALHOST_def [symmetric] by simp
qed

theorem addr_text_roundtrip_witness:
  "addr_from_str (addr_to_string (from_host_and_port ''example.com'' 4567))
     = Ok (from_host_and_port ''example.com'' 4567)
   \<and> addr_from_str (addr_to_string (from_address (Some \<lparr>address_host = Some ''localhost'', address_port = 80\<rparr>))) = Ok (from_port 80)
   \<and> addr_from_str (LOCALHOST @ colon # show_nat (unat (3000 :: u16))) = Ok (from_port 3000)"
proof -
  let ?local = "from_address (Some \<lparr>address_host = Some ''localhost'', address_port = 80\<rparr>)"
  have e: "colon \<notin> set ''example.com''" and l: "colon \<notin> set LOCALHOST" by (simp_all add: LOCALHOST_def)
  have a: "colon \<notin> set g" if "addr_host ?local = Some g" for g using that by (auto simp: from_address_def)
  show ?thesis
    using addr_text_roundtrip [where a = ?local, OF a e, of 4567] addr_text_roundtrip [where a = ?local, OF a l, of 3000]
    by (simp add: from_host_and_port_def from_port_def from_address_def LOCALHOST_def)
qed

text \<open>The value of a number, and of a float, as a port.\<close>

lemma ucast_sint: "(ucast (w :: i64) :: u16) = word_of_int (sint w)"
  by transfer (simp add: take_bit_signed_take_bit)

lemma of_nat_unat_ucast: "of_nat (unat (v :: u64)) = (ucast v :: u16)"
  by transfer (simp add: take_bit_take_bit)

lemma visit_i64_value:
  "visit_i64 w = (if 0 \<le> sint w \<and> sint w \<le> 65535 then Ok (from_port (word_of_int (sint w))) else Err (PortOutOfRange w))"
  by (simp add: visit_i64_def from_port_def ucast_sint)

lemma visit_f64_value:
  assumes "- 1 < r" "r < 65536"
  shows "visit_f64 (F64_Finite r) = Ok (from_port (word_of_int \<lfloor>max 0 r\<rfloor>))"
proof -
  let ?t = "if r < 0 then - \<lfloor>- r\<rfloor> else \<lfloor>r\<rfloor>"
  have t: "?t = \<lfloor>max 0 r\<rfloor>" "0 \<le> ?t" "?t \<le> 65535"
    using assms by (auto simp: max_def floor_eq_iff floor_le_iff) linarith+
  then have "max (- (2 ^ 63)) (min (2 ^ 63 - 1) ?t) = ?t" by simp
  then have "f64_as_i64 (F64_Finite r) = word_of_int ?t" by (simp add: f64_as_i64_def)
  moreover have "sint (word_of_int ?t :: i64) = ?t" using t(2,3) by (intro sint_word_of_int_64) simp_all
  ultimately show ?thesis using t by (simp add: visit_f64_def visit_i64_value)
qed

text \<open>
  C30. An address written to a configuration and read back. One without a host is written as a bare number,
  and read as itself; one with a host as the text \<open>host:port\<close>, and, where the host holds no colon, read
  as what \<open>from_host_and_port\<close> makes of the two: as itself unless the host is another name of the loopback interface. A
  number, signed or not, is accepted exactly from 0 to 65535, both included, and becomes that port of the local host, without losing
  bits in the casts through \<open>i64\<close>; a float is first truncated towards zero.
\<close>

theorem addr_serde_roundtrip:
  assumes a: "\<And>g. addr_host a = Some g \<Longrightarrow> colon \<notin> set g"
  shows "addr_serialize a = (case addr_host a of None \<Rightarrow> SerU16 (addr_port a)
        | Some g \<Rightarrow> SerStr (g @ colon # show_nat (unat (addr_port a))))
    \<and> addr_deserialize (reread (addr_serialize a))
        = Ok (case addr_host a of None \<Rightarrow> a | Some g \<Rightarrow> from_host_and_port g (addr_port a))
    \<and> (addr_deserialize (reread (addr_serialize a)) = Ok a
        \<longleftrightarrow> (\<nexists>g. addr_host a = Some g \<and> (g = [] \<or> g = ''localhost'' \<or> is_loopback g)))
    \<and> addr_deserialize (DeU64 v) = (if unat v \<le> 65535 then Ok (from_port (of_nat (unat v))) else Err (PortOutOfRange v))
    \<and> addr_deserialize (DeI64 w) =
        (if 0 \<le> sint w \<and> sint w \<le> 65535 then Ok (from_port (word_of_int (sint w))) else Err (PortOutOfRange w))
    \<and> (if - 1 < r \<and> r < 65536 then addr_deserialize (DeF64 (F64_Finite r)) = Ok (from_port (word_of_int \<lfloor>max 0 r\<rfloor>))
       else \<not> is_ok (addr_deserialize (DeF64 (F64_Finite r))))"
proof (intro conjI)
  show ser: "addr_serialize a = (case addr_host a of None \<Rightarrow> SerU16 (addr_port a)
        | Some g \<Rightarrow> SerStr (g @ colon # show_nat (unat (addr_port a))))"
    using a by (auto simp: addr_serialize_def addr_to_string_def split: option.split)
  have read: "addr_deserialize (reread (addr_serialize a)) = (case addr_host a of None \<Rightarrow> Ok a
      | Some g \<Rightarrow> map_err (BadAddress (addr_to_string a)) (addr_from_str (addr_to_string a)))"
  proof (cases "addr_host a")
    case None
    then have "a = \<lparr>addr_host = None, addr_port = addr_port a\<rparr>" by simp
    with None show ?thesis
      using visit_u64_port [of "addr_port a"] by (simp add: addr_serialize_def addr_deserialize_def reread_def)
  qed (simp add: addr_serialize_def addr_deserialize_def reread_def visit_str_def)
  then show reads: "addr_deserialize (reread (addr_serialize a))
        = Ok (case addr_host a of None \<Rightarrow> a | Some g \<Rightarrow> from_host_and_port g (addr_port a))"
    using addr_text_read [of a, OF a] by (simp split: option.splits)
  show "addr_deserialize (reread (addr_serialize a)) = Ok a
        \<longleftrightarrow> (\<nexists>g. addr_host a = Some g \<and> (g = [] \<or> g = ''localhost'' \<or> is_loopback g))"
  proof (cases "addr_host a")
    case (Some g)
    then have "a = \<lparr>addr_host = Some g, addr_port = addr_port a\<rparr>" by simp
    then show ?thesis
      using Some from_host_and_port_same [of g "addr_port a"] unfolding reads LOCALHOST_def [symmetric] by auto
  qed (simp add: reads)
  show "addr_deserialize (DeU64 v) = (if unat v \<le> 65535 then Ok (from_port (of_nat (unat v))) else Err (PortOutOfRange v))"
    unfolding sint_nonneg_unat [symmetric]
    by (simp add: addr_deserialize_def visit_u64_def visit_i64_def from_port_def of_nat_unat_ucast)
  show "addr_deserialize (DeI64 w) =
        (if 0 \<le> sint w \<and> sint w \<le> 65535 then Ok (from_port (word_of_int (sint w))) else Err (PortOutOfRange w))"
    by (simp add: addr_deserialize_def visit_i64_value)
  show "if - 1 < r \<and> r < 65536 then addr_deserialize (DeF64 (F64_Finite r)) = Ok (from_port (word_of_int \<lfloor>max 0 r\<rfloor>))
       else \<not> is_ok (addr_deserialize (DeF64 (F64_Finite r)))"
    using visit_f64_value [of r] visit_f64_finite [of r] by (simp add: addr_deserialize_def)
qed

theorem addr_serde_roundtrip_witness:
  "addr_deserialize (reread (addr_serialize (from_port 9000))) = Ok (from_port 9000)
   \<and> addr_serialize (from_port 9000) = SerU16 9000
   \<and> is_ok (addr_deserialize (DeU64 65535)) \<and> \<not> is_ok (addr_deserialize (DeU64 65536))
   \<and> addr_deserialize (DeF64 (F64_Finite (5 / 2))) = Ok (from_port 2)"
proof -
  have c: "colon \<notin> set g" if "addr_host (from_port 9000) = Some g" for g using that by (simp add: from_port_def)
  have "\<lfloor>max 0 (5 / 2 :: rat)\<rfloor> = 2" by (simp add: floor_eq_iff)
  then show ?thesis
    using addr_serde_roundtrip [where a = "from_port 9000", OF c, where v = 65535 and r = "5 / 2"]
      addr_serde_roundtrip [where a = "from_port 9000", OF c, where v = 65536 and r = 0]
    by (simp add: from_port_def)
qed

end
