(* ===== verification/Server_Client.thy ===== *)
theory Server_Client
  imports Channels Addr
begin

text \<open>
  \<open>nport-server/src/server/client.rs\<close>: the server's object for one connected client, with its
  host names, its pending HTTP and connect requests, its open ports and its port writers.

  The socket to the client is the list of messages written to it and whether it still accepts
  any; an encoded message and the message are not distinguished. A pending request is an entry
  of a table that names a oneshot channel: the table holds the sender, the task that made the
  request the receiver. \<open>decode\<close> is \<open>prost\<close>'s decoder.

  The object is shared (\<open>Arc\<close>): \<open>Registry\<close> keeps the objects in a heap under their identity.
\<close>

datatype server_error =
    Disconnected
  | ClientNotFound
  | UnexpectedMessageType
  | NoRequest
  | PortIDAlreadyRegistered string
  | PortIDNotRegistered string
  | WebSocketError
  | DecodeError

text \<open>\<open>port_server::Port\<close>: the sender that stops the listener, and its port number.\<close>

record port =
  p_closer :: "nat option"
  p_port :: u16

record client =
  c_hostnames :: "string set"
  c_ws_open :: bool
  c_ws_sent :: "server_message list"
  c_http_requests :: "string \<rightharpoonup> nat"
  c_http_channels :: "nat \<Rightarrow> http_response oneshot"
  c_connect_requests :: "string \<rightharpoonup> nat"
  c_connect_channels :: "nat \<Rightarrow> port_connected oneshot"
  c_next_channel :: nat
  c_open_ports :: "port list"
  c_port_writers :: writers
  c_who :: socket_addr

definition client_new :: "socket_addr \<Rightarrow> client" where
  "client_new who = \<lparr>c_hostnames = {}, c_ws_open = True, c_ws_sent = [],
     c_http_requests = Map.empty, c_http_channels = (\<lambda>_. Waiting),
     c_connect_requests = Map.empty, c_connect_channels = (\<lambda>_. Waiting), c_next_channel = 0,
     c_open_ports = [], c_port_writers = Map.empty, c_who = who\<rparr>"

section \<open>Host names\<close>

definition add_http_hostname :: "string \<Rightarrow> client \<Rightarrow> bool \<times> client" where
  "add_http_hostname h c = (h \<notin> c_hostnames c, c\<lparr>c_hostnames := insert h (c_hostnames c)\<rparr>)"

definition remove_http_hostname :: "string \<Rightarrow> client \<Rightarrow> bool \<times> client" where
  "remove_http_hostname h c = (h \<in> c_hostnames c, c\<lparr>c_hostnames := c_hostnames c - {h}\<rparr>)"

definition has_http_hostname :: "string \<Rightarrow> client \<Rightarrow> bool" where
  "has_http_hostname h c \<longleftrightarrow> h \<in> c_hostnames c"

section \<open>Pending requests\<close>

text \<open>
  Registering under an identifier that is in use drops the sender that was there.
\<close>

definition register_http_request :: "string \<Rightarrow> client \<Rightarrow> nat \<times> client" where
  "register_http_request uuid c =
     (let n = c_next_channel c;
          chans = (c_http_channels c)(n := Waiting);
          chans = (case c_http_requests c uuid of
                     Some old \<Rightarrow> chans(old := oneshot_drop_sender (chans old)) | None \<Rightarrow> chans)
      in (n, c\<lparr>c_next_channel := n + 1, c_http_channels := chans,
              c_http_requests := (c_http_requests c)(uuid \<mapsto> n)\<rparr>))"

definition send_http_response :: "http_response \<Rightarrow> client \<Rightarrow> (server_error + unit) \<times> client" where
  "send_http_response response c =
     (let c' = c\<lparr>c_http_requests := (c_http_requests c)(hr_uuid response := None)\<rparr>
      in case c_http_requests c (hr_uuid response) of
           Some tx \<Rightarrow> (Ok (), c'\<lparr>c_http_channels := (c_http_channels c)
                          (tx := snd (oneshot_send response (c_http_channels c tx)))\<rparr>)
         | None \<Rightarrow> (Err NoRequest, c'))"

definition register_connect_request :: "string \<Rightarrow> client \<Rightarrow> nat \<times> client" where
  "register_connect_request uuid c =
     (let n = c_next_channel c;
          chans = (c_connect_channels c)(n := Waiting);
          chans = (case c_connect_requests c uuid of
                     Some old \<Rightarrow> chans(old := oneshot_drop_sender (chans old)) | None \<Rightarrow> chans)
      in (n, c\<lparr>c_next_channel := n + 1, c_connect_channels := chans,
              c_connect_requests := (c_connect_requests c)(uuid \<mapsto> n)\<rparr>))"

definition send_connected_response :: "port_connected \<Rightarrow> client \<Rightarrow> (server_error + unit) \<times> client" where
  "send_connected_response msg c =
     (let c' = c\<lparr>c_connect_requests := (c_connect_requests c)(pc_uuid msg := None)\<rparr>
      in case c_connect_requests c (pc_uuid msg) of
           Some tx \<Rightarrow> (Ok (), c'\<lparr>c_connect_channels := (c_connect_channels c)
                          (tx := snd (oneshot_send msg (c_connect_channels c tx)))\<rparr>)
         | None \<Rightarrow> (Err NoRequest, c'))"

definition register_port :: "port \<Rightarrow> client \<Rightarrow> client" where
  "register_port p c = c\<lparr>c_open_ports := c_open_ports c @ [p]\<rparr>"

section \<open>Port writers\<close>

definition port_writer_register ::
  "string \<Rightarrow> port_message mpsc \<Rightarrow> client \<Rightarrow> (server_error + unit) \<times> client" where
  "port_writer_register uuid sender c =
     (if c_port_writers c uuid = None
      then (Ok (), c\<lparr>c_port_writers := (c_port_writers c)(uuid \<mapsto> sender)\<rparr>)
      else (Err (PortIDAlreadyRegistered uuid), c))"

definition port_writer_remove :: "string \<Rightarrow> client \<Rightarrow> (server_error + unit) \<times> client" where
  "port_writer_remove uuid c = (Ok (), c\<lparr>c_port_writers := (c_port_writers c)(uuid := None)\<rparr>)"

definition port_message :: "string \<Rightarrow> port_message \<Rightarrow> client \<Rightarrow> (server_error + unit) poll \<times> client" where
  "port_message uuid msg c =
     (case c_port_writers c uuid of
        None \<Rightarrow> (Ready (Err (PortIDNotRegistered uuid)), c)
      | Some writer \<Rightarrow>
          (case mpsc_send msg writer of
             Pending \<Rightarrow> (Pending, c)
           | Ready (Inl _) \<Rightarrow> (Ready (Err (PortIDNotRegistered uuid)), c)
           | Ready (Inr writer') \<Rightarrow>
               (Ready (Ok ()), c\<lparr>c_port_writers := (c_port_writers c)(uuid \<mapsto> writer')\<rparr>)))"

definition client_port_receive :: "port_receive \<Rightarrow> client \<Rightarrow> (server_error + unit) poll \<times> client" where
  "client_port_receive msg c = port_message (pr_uuid msg) (PM_Data (pr_data msg)) c"

definition client_port_close :: "port_close \<Rightarrow> client \<Rightarrow> (server_error + unit) poll \<times> client" where
  "client_port_close msg c = port_message (pcl_uuid msg) PM_Close c"

section \<open>The socket\<close>

datatype ws_frame = WsBinary bytes | WsOther | WsError

text \<open>\<open>None\<close> is the end of the stream.\<close>

definition recv_data :: "ws_frame option \<Rightarrow> server_error + bytes" where
  "recv_data received =
     (case received of
        Some (WsBinary data) \<Rightarrow> Ok data
      | Some WsOther \<Rightarrow> Err UnexpectedMessageType
      | Some WsError \<Rightarrow> Err WebSocketError
      | None \<Rightarrow> Err Disconnected)"

definition client_recv ::
  "(bytes \<Rightarrow> client_payload option) \<Rightarrow> ws_frame option \<Rightarrow> server_error + client_payload" where
  "client_recv decode received =
     (case recv_data received of
        Inl e \<Rightarrow> Err e
      | Inr data \<Rightarrow> (case decode data of None \<Rightarrow> Err DecodeError | Some p \<Rightarrow> Ok p))"

definition client_send :: "server_message \<Rightarrow> client \<Rightarrow> (server_error + unit) \<times> client" where
  "client_send msg c =
     (if c_ws_open c then (Ok (), c\<lparr>c_ws_sent := c_ws_sent c @ [msg]\<rparr>) else (Err WebSocketError, c))"

section \<open>The table of port writers\<close>

interpretation server_ports: port_table c_port_writers port_writer_register port_writer_remove
  port_message PortIDAlreadyRegistered PortIDNotRegistered
  by unfold_locales
    (auto simp: port_writer_register_def port_writer_remove_def port_message_def split: sum.splits)

section \<open>Well-formed clients\<close>

text \<open>
  Every pending request names a channel that was allocated, no two of them the same one, and
  that is still waiting or whose receiver is gone.
\<close>

definition table_ok :: "nat \<Rightarrow> (string \<rightharpoonup> nat) \<Rightarrow> (nat \<Rightarrow> 'a oneshot) \<Rightarrow> bool" where
  "table_ok n t ch \<longleftrightarrow>
     (\<forall>u k. t u = Some k \<longrightarrow> k < n \<and> (ch k = Waiting \<or> ch k = ReceiverDropped))
     \<and> (\<forall>u v k. t u = Some k \<and> t v = Some k \<longrightarrow> u = v)"

definition client_ok :: "client \<Rightarrow> bool" where
  "client_ok c \<longleftrightarrow>
     finite (c_hostnames c)
     \<and> table_ok (c_next_channel c) (c_http_requests c) (c_http_channels c)
     \<and> table_ok (c_next_channel c) (c_connect_requests c) (c_connect_channels c)"

lemma client_new_ok: "client_ok (client_new who)"
  by (simp add: client_ok_def client_new_def table_ok_def)

lemma table_ok_insert:
  assumes "table_ok n t ch"
  shows "table_ok (n + 1) (t(u \<mapsto> n))
     (case t u of Some k \<Rightarrow> (ch(n := Waiting))(k := oneshot_drop_sender ((ch(n := Waiting)) k))
                | None \<Rightarrow> ch(n := Waiting))"
  using assms by (auto simp: table_ok_def less_Suc_eq split: option.splits; metis less_irrefl)

lemma table_ok_remove:
  assumes "table_ok n t ch" "t u = Some k"
  shows "table_ok n (t(u := None)) (ch(k := x))"
  using assms by (fastforce simp: table_ok_def)

lemma table_ok_mono: "\<lbrakk>table_ok n t ch; n \<le> m\<rbrakk> \<Longrightarrow> table_ok m t ch"
  by (fastforce simp: table_ok_def)

lemma register_http_request_ok:
  "\<lbrakk>client_ok c; register_http_request u c = (n, c')\<rbrakk> \<Longrightarrow> client_ok c'"
  using table_ok_insert [of "c_next_channel c" "c_http_requests c" "c_http_channels c" u]
    table_ok_mono [of "c_next_channel c" "c_connect_requests c" "c_connect_channels c" "c_next_channel c + 1"]
  by (auto simp: register_http_request_def client_ok_def Let_def split: option.splits)

lemma register_connect_request_ok:
  "\<lbrakk>client_ok c; register_connect_request u c = (n, c')\<rbrakk> \<Longrightarrow> client_ok c'"
  using table_ok_insert [of "c_next_channel c" "c_connect_requests c" "c_connect_channels c" u]
    table_ok_mono [of "c_next_channel c" "c_http_requests c" "c_http_channels c" "c_next_channel c + 1"]
  by (auto simp: register_connect_request_def client_ok_def Let_def split: option.splits)

lemma send_http_response_ok: "client_ok c \<Longrightarrow> client_ok (snd (send_http_response r c))"
  using table_ok_remove [of "c_next_channel c" "c_http_requests c" "c_http_channels c" "hr_uuid r"]
  by (auto simp: send_http_response_def client_ok_def Let_def fun_upd_idem split: option.splits)

lemma send_connected_response_ok: "client_ok c \<Longrightarrow> client_ok (snd (send_connected_response r c))"
  using table_ok_remove [of "c_next_channel c" "c_connect_requests c" "c_connect_channels c" "pc_uuid r"]
  by (auto simp: send_connected_response_def client_ok_def Let_def fun_upd_idem split: option.splits)

lemma client_frame_ok:
  "client_ok c \<Longrightarrow> client_ok (snd (add_http_hostname h c))"
  "client_ok c \<Longrightarrow> client_ok (snd (remove_http_hostname h c))"
  "client_ok c \<Longrightarrow> client_ok (register_port p c)"
  "client_ok c \<Longrightarrow> client_ok (snd (port_writer_register u ch c))"
  "client_ok c \<Longrightarrow> client_ok (snd (port_writer_remove u c))"
  "client_ok c \<Longrightarrow> client_ok (snd (port_message u m c))"
  "client_ok c \<Longrightarrow> client_ok (snd (client_send msg c))"
  by (auto simp: client_ok_def add_http_hostname_def remove_http_hostname_def register_port_def
      port_writer_register_def port_writer_remove_def port_message_def client_send_def
      split: option.splits poll.splits sum.splits)

lemma response_delivered:
  assumes "register_http_request u c = (n, c1)" "hr_uuid r = u" "client_ok c"
  shows "fst (send_http_response r c1) = Ok ()"
    "c_http_channels (snd (send_http_response r c1)) n = Delivered r"
    "c_http_requests (snd (send_http_response r c1)) u = None"
proof -
  have "c_http_requests c u \<noteq> Some (c_next_channel c)"
    using assms(3) by (auto simp: client_ok_def table_ok_def)
  then show "fst (send_http_response r c1) = Ok ()"
    "c_http_channels (snd (send_http_response r c1)) n = Delivered r"
    "c_http_requests (snd (send_http_response r c1)) u = None"
    using assms
    by (auto simp: register_http_request_def send_http_response_def Let_def split: option.splits)
qed

lemma response_unknown:
  "c_http_requests c (hr_uuid r) = None \<Longrightarrow> fst (send_http_response r c) = Err NoRequest"
  by (simp add: send_http_response_def)

end
