(* ===== verification/Registry.thy ===== *)
theory Registry
  imports Server_Client "HOL-Library.Multiset"
begin

text \<open>
  \<open>nport-server/src/server/registry.rs\<close>: the clients that are connected and the HTTP host
  names they have claimed.

  A client object (\<open>Arc<Client>\<close>) is a number into the heap \<open>rg_heap\<close>; \<open>Arc::ptr_eq\<close> is
  equality of numbers. Each operation takes one lock at a time, so it is written as the sequence
  of its critical sections (\<open>claim_insert\<close>, \<open>claim_add\<close>, ...): the operations compose
  them, and the step relation \<open>registry_step\<close> interleaves those of different clients. The
  locale \<open>name_directory\<close> is the contract the rest of the server relies on.
\<close>

record registry =
  rg_claimed :: "string set"
  rg_clients :: "nat list"
  rg_heap :: "nat \<Rightarrow> client"
  rg_next :: nat

definition registry_default :: registry where
  "registry_default = \<lparr>rg_claimed = {}, rg_clients = [],
     rg_heap = (\<lambda>_. client_new \<lparr>sa_ip = V4 0 0 0 0, sa_port = 0\<rparr>), rg_next = 0\<rparr>"

definition names_of :: "registry \<Rightarrow> nat \<Rightarrow> string set" where
  "names_of r k = c_hostnames (rg_heap r k)"

definition update_client :: "nat \<Rightarrow> (client \<Rightarrow> 'a \<times> client) \<Rightarrow> registry \<Rightarrow> 'a \<times> registry" where
  "update_client k f r =
     (let (x, c) = f (rg_heap r k) in (x, r\<lparr>rg_heap := (rg_heap r)(k := c)\<rparr>))"

definition register :: "socket_addr \<Rightarrow> registry \<Rightarrow> nat \<times> registry" where
  "register who r =
     (rg_next r, r\<lparr>rg_heap := (rg_heap r)(rg_next r := client_new who),
                   rg_clients := rg_clients r @ [rg_next r], rg_next := rg_next r + 1\<rparr>)"

text \<open>\<open>Vec::swap_remove\<close> and \<open>Iterator::position\<close>.\<close>

definition swap_remove :: "nat \<Rightarrow> 'a list \<Rightarrow> 'a list" where
  "swap_remove i xs = butlast (xs[i := last xs])"

fun position :: "('a \<Rightarrow> bool) \<Rightarrow> 'a list \<Rightarrow> nat option" where
  "position P [] = None"
| "position P (x # xs) = (if P x then Some 0 else map_option Suc (position P xs))"

section \<open>Leaving\<close>

definition deregister_list :: "nat \<Rightarrow> registry \<Rightarrow> bool \<times> registry" where
  "deregister_list k r =
     (case position (\<lambda>item. item = k) (rg_clients r) of
        Some index \<Rightarrow> (True, r\<lparr>rg_clients := swap_remove index (rg_clients r)\<rparr>)
      | None \<Rightarrow> (False, r))"

definition deregister_names :: "nat \<Rightarrow> registry \<Rightarrow> registry" where
  "deregister_names k r = r\<lparr>rg_claimed := rg_claimed r - names_of r k\<rparr>"

definition deregister :: "nat \<Rightarrow> registry \<Rightarrow> bool \<times> registry" where
  "deregister k r =
     (case deregister_list k r of
        (True, r') \<Rightarrow> (True, deregister_names k r')
      | (False, r') \<Rightarrow> (False, r'))"

section \<open>Claiming and releasing\<close>

definition claim_insert :: "string \<Rightarrow> registry \<Rightarrow> bool \<times> registry" where
  "claim_insert h r = (h \<notin> rg_claimed r, r\<lparr>rg_claimed := insert h (rg_claimed r)\<rparr>)"

definition claim_add :: "nat \<Rightarrow> string \<Rightarrow> registry \<Rightarrow> registry" where
  "claim_add k h r = snd (update_client k (add_http_hostname h) r)"

definition claim_http_hostname :: "nat \<Rightarrow> string \<Rightarrow> registry \<Rightarrow> bool \<times> registry" where
  "claim_http_hostname k h r =
     (case claim_insert h r of
        (False, r') \<Rightarrow> (False, r')
      | (True, r') \<Rightarrow> (True, claim_add k h r'))"

definition release_remove :: "nat \<Rightarrow> string \<Rightarrow> registry \<Rightarrow> bool \<times> registry" where
  "release_remove k h r = update_client k (remove_http_hostname h) r"

definition release_free :: "string \<Rightarrow> registry \<Rightarrow> registry" where
  "release_free h r = r\<lparr>rg_claimed := rg_claimed r - {h}\<rparr>"

definition release_http_hostname :: "nat \<Rightarrow> string \<Rightarrow> registry \<Rightarrow> bool \<times> registry" where
  "release_http_hostname k h r =
     (case release_remove k h r of
        (False, r') \<Rightarrow> (False, r')
      | (True, r') \<Rightarrow> (True, release_free h r'))"

definition get_by_http_hostname :: "string \<Rightarrow> registry \<Rightarrow> nat option" where
  "get_by_http_hostname h r = find (\<lambda>k. has_http_hostname h (rg_heap r k)) (rg_clients r)"

section \<open>Lemmas on the list operations\<close>

lemma position_Some: "position P xs = Some i \<Longrightarrow> i < length xs \<and> P (xs ! i)"
  by (induction xs arbitrary: i) (auto split: if_splits)

lemma position_None: "position P xs = None \<longleftrightarrow> (\<forall>x \<in> set xs. \<not> P x)"
  by (induction xs) auto

lemma mset_swap_remove:
  assumes "i < length xs"
  shows "mset (swap_remove i xs) = mset xs - {#xs ! i#}"
proof -
  have ne: "xs \<noteq> []" using assms by auto
  have "mset (xs[i := last xs]) = add_mset (last xs) (mset xs - {#xs ! i#})"
    using assms by (simp add: mset_update)
  moreover have "last (xs[i := last xs]) = last xs"
    using ne assms by (cases "i = length xs - 1") (simp_all add: last_conv_nth)
  moreover have "xs[i := last xs] = butlast (xs[i := last xs]) @ [last (xs[i := last xs])]"
    using ne by (simp add: append_butlast_last_id [of "xs[i := last xs]"])
  ultimately show ?thesis
    unfolding swap_remove_def by (metis add_mset_add_single add_mset_remove_trivial mset_append
        mset_single_iff union_iff mset.simps)
qed

lemma swap_remove_distinct:
  assumes "distinct xs" "i < length xs"
  shows "distinct (swap_remove i xs)" "set (swap_remove i xs) = set xs - {xs ! i}"
proof -
  have m: "mset (swap_remove i xs) = mset (remove1 (xs ! i) xs)"
    using assms mset_swap_remove by simp
  then have "set (swap_remove i xs) = set (remove1 (xs ! i) xs)"
    by (rule mset_eq_setD)
  then show "set (swap_remove i xs) = set xs - {xs ! i}"
    using assms by simp
  show "distinct (swap_remove i xs)"
    using m assms by (metis distinct_remove1 mset_eq_imp_distinct_iff)
qed

lemma deregister_list_True:
  assumes "distinct (rg_clients r)" "k \<in> set (rg_clients r)"
  obtains xs where "deregister_list k r = (True, r\<lparr>rg_clients := xs\<rparr>)" "distinct xs"
    "set xs = set (rg_clients r) - {k}"
proof -
  obtain i where i: "position (\<lambda>item. item = k) (rg_clients r) = Some i"
    using assms(2) by (cases "position (\<lambda>item. item = k) (rg_clients r)") (auto simp: position_None)
  then show ?thesis
    using that [of "swap_remove i (rg_clients r)"] position_Some [OF i]
      swap_remove_distinct [OF assms(1), of i] by (auto simp: deregister_list_def)
qed

lemma deregister_list_False: "k \<notin> set (rg_clients r) \<Longrightarrow> deregister_list k r = (False, r)"
  using position_None [of "\<lambda>item. item = k" "rg_clients r"] by (auto simp: deregister_list_def)

lemma deregister_list_True_iff: "fst (deregister_list k r) \<longleftrightarrow> k \<in> set (rg_clients r)"
  using position_None [of "\<lambda>item. item = k" "rg_clients r"]
  by (auto simp: deregister_list_def split: option.splits)

section \<open>The registry invariant\<close>

definition registry_ok :: "registry \<Rightarrow> bool" where
  "registry_ok r \<longleftrightarrow>
     distinct (rg_clients r)
     \<and> (\<forall>k \<in> set (rg_clients r). k < rg_next r)
     \<and> (\<forall>k \<in> set (rg_clients r). \<forall>j \<in> set (rg_clients r). k \<noteq> j \<longrightarrow> names_of r k \<inter> names_of r j = {})
     \<and> rg_claimed r = (\<Union>k \<in> set (rg_clients r). names_of r k)"

lemma registry_okI:
  assumes "distinct (rg_clients r)" "\<And>k. k \<in> set (rg_clients r) \<Longrightarrow> k < rg_next r"
    and "\<And>h k j. \<lbrakk>k \<in> set (rg_clients r); j \<in> set (rg_clients r); h \<in> names_of r k; h \<in> names_of r j\<rbrakk> \<Longrightarrow> k = j"
    and "\<And>h. h \<in> rg_claimed r \<longleftrightarrow> (\<exists>k \<in> set (rg_clients r). h \<in> names_of r k)"
  shows "registry_ok r"
  unfolding registry_ok_def
proof (intro conjI ballI impI)
  show "names_of r k \<inter> names_of r j = {}"
    if "k \<in> set (rg_clients r)" "j \<in> set (rg_clients r)" "k \<noteq> j" for k j
    using that assms(3) by blast
  show "rg_claimed r = (\<Union>k \<in> set (rg_clients r). names_of r k)"
    using assms(4) by (auto simp: set_eq_iff)
qed (simp_all add: assms)

lemma registry_okD:
  assumes "registry_ok r"
  shows "distinct (rg_clients r)" "k \<in> set (rg_clients r) \<Longrightarrow> k < rg_next r"
    and "\<lbrakk>k \<in> set (rg_clients r); j \<in> set (rg_clients r); h \<in> names_of r k; h \<in> names_of r j\<rbrakk> \<Longrightarrow> k = j"
    and "h \<in> rg_claimed r \<longleftrightarrow> (\<exists>k \<in> set (rg_clients r). h \<in> names_of r k)"
  using assms unfolding registry_ok_def by blast+

lemma names_of_simps [simp]:
  "names_of (r\<lparr>rg_claimed := C\<rparr>) = names_of r"
  "names_of (r\<lparr>rg_clients := L\<rparr>) = names_of r"
  "names_of (r\<lparr>rg_next := n\<rparr>) = names_of r"
  "names_of (r\<lparr>rg_heap := (rg_heap r)(k := c)\<rparr>) = (names_of r)(k := c_hostnames c)"
  "names_of (r\<lparr>rg_heap := (rg_heap r)(k := c), rg_clients := L, rg_next := n\<rparr>)
     = (names_of r)(k := c_hostnames c)"
  by (simp_all add: names_of_def fun_eq_iff)

lemma find_Some_iff:
  "(\<And>x y. \<lbrakk>x \<in> set xs; y \<in> set xs; P x; P y\<rbrakk> \<Longrightarrow> x = y)
   \<Longrightarrow> find P xs = Some k \<longleftrightarrow> k \<in> set xs \<and> P k"
  by (induction xs) (auto split: if_splits)

lemma owner_iff:
  assumes "registry_ok r"
  shows "get_by_http_hostname h r = Some k \<longleftrightarrow> k \<in> set (rg_clients r) \<and> h \<in> names_of r k"
  unfolding get_by_http_hostname_def using assms
  by (subst find_Some_iff) (auto simp: registry_ok_def has_http_hostname_def names_of_def)

lemma owner_None:
  assumes "registry_ok r"
  shows "get_by_http_hostname h r = None \<longleftrightarrow> h \<notin> rg_claimed r"
  using assms owner_iff [OF assms, of h]
  by (cases "get_by_http_hostname h r") (auto simp: registry_ok_def)

lemma registry_default_ok: "registry_ok registry_default"
  by (simp add: registry_ok_def registry_default_def)

lemma register_ok:
  assumes "registry_ok r"
  shows "registry_ok (snd (register who r))"
    "get_by_http_hostname h (snd (register who r)) = get_by_http_hostname h r"
    "fst (register who r) \<in> set (rg_clients (snd (register who r)))"
proof -
  have fresh: "rg_next r \<notin> set (rg_clients r)"
    using assms by (auto simp: registry_ok_def)
  show ok: "registry_ok (snd (register who r))"
    using assms fresh by (auto simp: registry_ok_def register_def client_new_def less_Suc_eq)
  have "get_by_http_hostname h (snd (register who r)) = Some k \<longleftrightarrow> get_by_http_hostname h r = Some k" for k
    using fresh unfolding owner_iff [OF ok] owner_iff [OF assms]
    by (auto simp: register_def client_new_def)
  then show "get_by_http_hostname h (snd (register who r)) = get_by_http_hostname h r"
    by (cases "get_by_http_hostname h r"; cases "get_by_http_hostname h (snd (register who r))") auto
  show "fst (register who r) \<in> set (rg_clients (snd (register who r)))"
    by (simp add: register_def)
qed

lemma claim_free:
  assumes "registry_ok r" "k \<in> set (rg_clients r)" "h \<notin> rg_claimed r"
  shows "fst (claim_http_hostname k h r)"
    "registry_ok (snd (claim_http_hostname k h r))"
    "(\<lambda>h'. get_by_http_hostname h' (snd (claim_http_hostname k h r)))
     = (\<lambda>h'. get_by_http_hostname h' r)(h \<mapsto> k)"
    "rg_clients (snd (claim_http_hostname k h r)) = rg_clients r"
proof -
  let ?r = "snd (claim_http_hostname k h r)"
  have r: "?r = r\<lparr>rg_claimed := insert h (rg_claimed r),
     rg_heap := (rg_heap r)(k := (rg_heap r k)\<lparr>c_hostnames := insert h (names_of r k)\<rparr>)\<rparr>"
    and t: "fst (claim_http_hostname k h r)"
    using assms by (simp_all add: claim_http_hostname_def claim_insert_def claim_add_def
        update_client_def add_http_hostname_def names_of_def)
  have names: "names_of ?r = (names_of r)(k := insert h (names_of r k))"
    by (rule ext) (simp add: r names_of_def)
  have free: "\<And>j. j \<in> set (rg_clients r) \<Longrightarrow> h \<notin> names_of r j"
    using assms by (auto simp: registry_ok_def)
  have simple: "rg_clients ?r = rg_clients r" "rg_next ?r = rg_next r"
      "rg_claimed ?r = insert h (rg_claimed r)"
    by (simp_all add: r)
  show ok: "registry_ok ?r"
    using assms(1,2) free unfolding registry_ok_def simple names by auto
  show "fst (claim_http_hostname k h r)" "rg_clients ?r = rg_clients r"
    by (simp_all add: t simple)
  have "get_by_http_hostname h' ?r = Some j \<longleftrightarrow>
        ((\<lambda>h'. get_by_http_hostname h' r)(h \<mapsto> k)) h' = Some j" for h' j
    using free assms(2) unfolding owner_iff [OF ok] fun_upd_apply simple names
    by (auto simp: owner_iff [OF assms(1)])
  then show "(\<lambda>h'. get_by_http_hostname h' ?r) = (\<lambda>h'. get_by_http_hostname h' r)(h \<mapsto> k)"
    by (metis (no_types, lifting) ext option.exhaust)
qed

lemma claim_used:
  assumes "registry_ok r" "h \<in> rg_claimed r"
  shows "claim_http_hostname k h r = (False, r)"
  using assms by (simp add: claim_http_hostname_def claim_insert_def insert_absorb)

lemma release_owned:
  assumes "registry_ok r" "k \<in> set (rg_clients r)" "h \<in> names_of r k"
  shows "fst (release_http_hostname k h r)"
    "registry_ok (snd (release_http_hostname k h r))"
    "(\<lambda>h'. get_by_http_hostname h' (snd (release_http_hostname k h r)))
     = (\<lambda>h'. get_by_http_hostname h' r)(h := None)"
    "rg_clients (snd (release_http_hostname k h r)) = rg_clients r"
proof -
  let ?r = "snd (release_http_hostname k h r)"
  have r: "?r = r\<lparr>rg_claimed := rg_claimed r - {h},
     rg_heap := (rg_heap r)(k := (rg_heap r k)\<lparr>c_hostnames := names_of r k - {h}\<rparr>)\<rparr>"
    and t: "fst (release_http_hostname k h r)"
    using assms by (simp_all add: release_http_hostname_def release_remove_def release_free_def
        update_client_def remove_http_hostname_def names_of_def)
  have names: "names_of ?r = (names_of r)(k := names_of r k - {h})"
    by (rule ext) (simp add: r names_of_def)
  have only: "\<And>j. \<lbrakk>j \<in> set (rg_clients r); h \<in> names_of r j\<rbrakk> \<Longrightarrow> j = k"
    using registry_okD(3) [OF assms(1) _ assms(2) _ assms(3)] by blast
  have simple: "rg_clients ?r = rg_clients r" "rg_next ?r = rg_next r"
      "rg_claimed ?r = rg_claimed r - {h}"
    by (simp_all add: r)
  show ok: "registry_ok ?r"
  proof (rule registry_okI)
    show "distinct (rg_clients ?r)" "\<And>j. j \<in> set (rg_clients ?r) \<Longrightarrow> j < rg_next ?r"
      using registry_okD [OF assms(1)] by (simp_all add: simple)
    show "i = j" if "i \<in> set (rg_clients ?r)" "j \<in> set (rg_clients ?r)"
      "h' \<in> names_of ?r i" "h' \<in> names_of ?r j" for h' i j
      using that registry_okD(3) [OF assms(1), of i j h'] by (auto simp: simple names split: if_splits)
    show "h' \<in> rg_claimed ?r \<longleftrightarrow> (\<exists>j \<in> set (rg_clients ?r). h' \<in> names_of ?r j)" for h'
    proof -
      have n: "h' \<in> names_of ?r j \<longleftrightarrow> h' \<in> names_of r j \<and> (j = k \<longrightarrow> h' \<noteq> h)" for j
        by (simp add: names)
      show ?thesis
        using only registry_okD(4) [OF assms(1), of h'] unfolding simple n by blast
    qed
  qed
  show "fst (release_http_hostname k h r)" "rg_clients ?r = rg_clients r"
    by (simp_all add: t simple)
  have "get_by_http_hostname h' ?r = Some j \<longleftrightarrow>
        ((\<lambda>h'. get_by_http_hostname h' r)(h := None)) h' = Some j" for h' j
    using only assms(2) unfolding owner_iff [OF ok] fun_upd_apply simple names
    by (auto simp: owner_iff [OF assms(1)])
  then show "(\<lambda>h'. get_by_http_hostname h' ?r) = (\<lambda>h'. get_by_http_hostname h' r)(h := None)"
    by (metis (no_types, lifting) ext option.exhaust)
qed

lemma release_unowned:
  assumes "h \<notin> names_of r k"
  shows "release_http_hostname k h r = (False, r)"
  using assms by (simp add: release_http_hostname_def release_remove_def update_client_def
      remove_http_hostname_def names_of_def)

lemma deregister_live:
  assumes "registry_ok r" "k \<in> set (rg_clients r)"
  shows "fst (deregister k r)"
    "registry_ok (snd (deregister k r))"
    "(\<lambda>h. get_by_http_hostname h (snd (deregister k r)))
     = (\<lambda>h. if get_by_http_hostname h r = Some k then None else get_by_http_hostname h r)"
    "set (rg_clients (snd (deregister k r))) = set (rg_clients r) - {k}"
proof -
  let ?r = "snd (deregister k r)"
  obtain xs where xs: "deregister_list k r = (True, r\<lparr>rg_clients := xs\<rparr>)" "distinct xs"
    "set xs = set (rg_clients r) - {k}"
    using assms deregister_list_True [of r k] by (auto simp: registry_ok_def)
  have r: "?r = r\<lparr>rg_clients := xs, rg_claimed := rg_claimed r - names_of r k\<rparr>"
    and t: "fst (deregister k r)"
    by (simp_all add: deregister_def deregister_names_def xs(1))
  have simple: "rg_clients ?r = xs" "rg_next ?r = rg_next r"
      "rg_claimed ?r = rg_claimed r - names_of r k" "names_of ?r = names_of r"
    by (simp_all add: r names_of_def fun_eq_iff)
  have only: "\<And>h j. \<lbrakk>j \<in> set (rg_clients r); h \<in> names_of r j; h \<in> names_of r k\<rbrakk> \<Longrightarrow> j = k"
    using registry_okD(3) [OF assms(1) _ assms(2)] by blast
  show ok: "registry_ok ?r"
  proof (rule registry_okI)
    show "distinct (rg_clients ?r)" "\<And>j. j \<in> set (rg_clients ?r) \<Longrightarrow> j < rg_next ?r"
      using registry_okD(2) [OF assms(1)] by (simp_all add: simple xs(2,3))
    show "i = j" if "i \<in> set (rg_clients ?r)" "j \<in> set (rg_clients ?r)"
      "h \<in> names_of ?r i" "h \<in> names_of ?r j" for h i j
      using that registry_okD(3) [OF assms(1), of i j h] by (auto simp: simple xs(3))
    show "h \<in> rg_claimed ?r \<longleftrightarrow> (\<exists>j \<in> set (rg_clients ?r). h \<in> names_of ?r j)" for h
      using only [of _ h] registry_okD(4) [OF assms(1), of h] assms(2) by (auto simp: simple xs(3))
  qed
  show "fst (deregister k r)" "set (rg_clients ?r) = set (rg_clients r) - {k}"
    using t xs(3) by (simp_all add: simple)
  have "get_by_http_hostname h ?r = Some j \<longleftrightarrow>
        (if get_by_http_hostname h r = Some k then None else get_by_http_hostname h r) = Some j" for h j
    using assms(2) only [of j h] unfolding owner_iff [OF ok] simple xs(3)
    by (cases "h \<in> names_of r k") (auto simp: owner_iff [OF assms(1)])
  then show "(\<lambda>h. get_by_http_hostname h ?r)
     = (\<lambda>h. if get_by_http_hostname h r = Some k then None else get_by_http_hostname h r)"
    by (metis (no_types, lifting) ext option.exhaust)
qed

section \<open>The contract: a partial map from names to owners\<close>

datatype ('k, 'a) directory_op = Join 'a | Claim 'k string | Release 'k string | Leave 'k

fun actor_in :: "'k set \<Rightarrow> ('k, 'a) directory_op \<Rightarrow> bool" where
  "actor_in L (Join a) = True"
| "actor_in L (Claim k h) = (k \<in> L)"
| "actor_in L (Release k h) = (k \<in> L)"
| "actor_in L (Leave k) = (k \<in> L)"

fun directory_spec :: "('k, 'a) directory_op \<Rightarrow> (string \<rightharpoonup> 'k) \<Rightarrow> (string \<rightharpoonup> 'k)" where
  "directory_spec (Join a) m = m"
| "directory_spec (Claim k h) m = (if m h = None then m(h \<mapsto> k) else m)"
| "directory_spec (Release k h) m = (if m h = Some k then m(h := None) else m)"
| "directory_spec (Leave k) m = (\<lambda>h. if m h = Some k then None else m h)"

text \<open>Operations of others, and joining, keep a name with its owner.\<close>

fun gives_up :: "'k \<Rightarrow> string \<Rightarrow> ('k, 'a) directory_op \<Rightarrow> bool" where
  "gives_up k h (Release j g) = (j = k \<and> g = h)"
| "gives_up k h (Leave j) = (j = k)"
| "gives_up k h _ = False"

lemma directory_spec_keeps: "\<lbrakk>m h = Some k; \<not> gives_up k h x\<rbrakk> \<Longrightarrow> directory_spec x m h = Some k"
  by (cases x) auto

lemma directory_spec_fold_keeps:
  "\<lbrakk>m h = Some k; \<forall>x \<in> set xs. \<not> gives_up k h x\<rbrakk> \<Longrightarrow> fold directory_spec xs m h = Some k"
  by (induction xs arbitrary: m) (simp_all add: directory_spec_keeps)

locale name_directory =
  fixes owner :: "'s \<Rightarrow> string \<rightharpoonup> 'k"
    and live :: "'s \<Rightarrow> 'k set"
    and good :: "'s \<Rightarrow> bool"
    and join :: "'a \<Rightarrow> 's \<Rightarrow> 'k \<times> 's"
    and claim :: "'k \<Rightarrow> string \<Rightarrow> 's \<Rightarrow> bool \<times> 's"
    and release :: "'k \<Rightarrow> string \<Rightarrow> 's \<Rightarrow> bool \<times> 's"
    and leave :: "'k \<Rightarrow> 's \<Rightarrow> bool \<times> 's"
  assumes join_law: "good s \<Longrightarrow> good (snd (join a s)) \<and> owner (snd (join a s)) = owner s"
    and claim_law: "\<lbrakk>good s; k \<in> live s\<rbrakk> \<Longrightarrow>
      good (snd (claim k h s)) \<and> (fst (claim k h s) \<longleftrightarrow> owner s h = None)
      \<and> owner (snd (claim k h s)) = directory_spec (Claim k h :: ('k, 'a) directory_op) (owner s)"
    and release_law: "\<lbrakk>good s; k \<in> live s\<rbrakk> \<Longrightarrow>
      good (snd (release k h s)) \<and> (fst (release k h s) \<longleftrightarrow> owner s h = Some k)
      \<and> owner (snd (release k h s)) = directory_spec (Release k h :: ('k, 'a) directory_op) (owner s)"
    and leave_law: "\<lbrakk>good s; k \<in> live s\<rbrakk> \<Longrightarrow>
      good (snd (leave k s)) \<and> fst (leave k s)
      \<and> owner (snd (leave k s)) = directory_spec (Leave k :: ('k, 'a) directory_op) (owner s)"
begin

fun step :: "('k, 'a) directory_op \<Rightarrow> 's \<Rightarrow> 's" where
  "step (Join a) s = snd (join a s)"
| "step (Claim k h) s = snd (claim k h s)"
| "step (Release k h) s = snd (release k h s)"
| "step (Leave k) s = snd (leave k s)"

fun valid :: "('k, 'a) directory_op list \<Rightarrow> 's \<Rightarrow> bool" where
  "valid [] s = True"
| "valid (x # xs) s = (actor_in (live s) x \<and> valid xs (step x s))"

lemma step_refines:
  "\<lbrakk>good s; actor_in (live s) x\<rbrakk> \<Longrightarrow> good (step x s) \<and> owner (step x s) = directory_spec x (owner s)"
  using join_law claim_law release_law leave_law by (cases x) auto

lemma run_refines:
  "\<lbrakk>good s; valid xs s\<rbrakk> \<Longrightarrow> good (fold step xs s) \<and> owner (fold step xs s) = fold directory_spec xs (owner s)"
  by (induction xs arbitrary: s) (simp_all add: step_refines)

lemma owner_kept:
  "\<lbrakk>good s; valid xs s; owner s h = Some k; \<forall>x \<in> set xs. \<not> gives_up k h x\<rbrakk>
   \<Longrightarrow> owner (fold step xs s) h = Some k"
  using run_refines [of s xs] directory_spec_fold_keeps [of "owner s" h k xs] by simp

end

abbreviation owners :: "registry \<Rightarrow> string \<rightharpoonup> nat" where
  "owners r \<equiv> \<lambda>h. get_by_http_hostname h r"

interpretation names: name_directory owners "\<lambda>r. set (rg_clients r)" registry_ok register
  claim_http_hostname release_http_hostname deregister
proof
  fix r :: registry and who k h
  assume ok: "registry_ok r"
  show "registry_ok (snd (register who r)) \<and> owners (snd (register who r)) = owners r"
    using ok by (simp add: register_ok)
  assume k: "k \<in> set (rg_clients r)"
  show "registry_ok (snd (claim_http_hostname k h r))
      \<and> (fst (claim_http_hostname k h r) \<longleftrightarrow> owners r h = None)
      \<and> owners (snd (claim_http_hostname k h r)) = directory_spec (Claim k h :: (nat, socket_addr) directory_op) (owners r)"
    using claim_free [OF ok k] claim_used [OF ok] owner_None [OF ok] ok
    by (cases "h \<in> rg_claimed r") auto
  show "registry_ok (snd (release_http_hostname k h r))
      \<and> (fst (release_http_hostname k h r) \<longleftrightarrow> owners r h = Some k)
      \<and> owners (snd (release_http_hostname k h r)) = directory_spec (Release k h :: (nat, socket_addr) directory_op) (owners r)"
    using release_owned [OF ok k] release_unowned owner_iff [OF ok] ok k
    by (cases "h \<in> names_of r k") auto
  show "registry_ok (snd (deregister k r)) \<and> fst (deregister k r)
      \<and> owners (snd (deregister k r)) = directory_spec (Leave k :: (nat, socket_addr) directory_op) (owners r)"
    using deregister_live [OF ok k] by simp
qed

section \<open>The registry refines the partial map\<close>

text \<open>
  Runs of operations with their answers: of the registry, and of a map from names to owners. A
  live client is one that has registered and not deregistered.
\<close>

fun directory_answer :: "('k, 'a) directory_op \<Rightarrow> (string \<rightharpoonup> 'k) \<Rightarrow> bool" where
  "directory_answer (Join a) m = True"
| "directory_answer (Claim k h) m = (m h = None)"
| "directory_answer (Release k h) m = (m h = Some k)"
| "directory_answer (Leave k) m = True"

fun directory_answers :: "('k, 'a) directory_op list \<Rightarrow> (string \<rightharpoonup> 'k) \<Rightarrow> bool list" where
  "directory_answers [] m = []"
| "directory_answers (x # xs) m = directory_answer x m # directory_answers xs (directory_spec x m)"

fun registry_op :: "(nat, socket_addr) directory_op \<Rightarrow> registry \<Rightarrow> bool \<times> registry" where
  "registry_op (Join who) r = (True, snd (register who r))"
| "registry_op (Claim k h) r = claim_http_hostname k h r"
| "registry_op (Release k h) r = release_http_hostname k h r"
| "registry_op (Leave k) r = deregister k r"

fun registry_ops :: "(nat, socket_addr) directory_op list \<Rightarrow> registry \<Rightarrow> bool list \<times> registry" where
  "registry_ops [] r = ([], r)"
| "registry_ops (x # xs) r =
     (let (b, r1) = registry_op x r; (bs, r2) = registry_ops xs r1 in (b # bs, r2))"

fun live_actors :: "(nat, socket_addr) directory_op list \<Rightarrow> registry \<Rightarrow> bool" where
  "live_actors [] r = True"
| "live_actors (x # xs) r = (actor_in (set (rg_clients r)) x \<and> live_actors xs (snd (registry_op x r)))"

lemma registry_op_step: "snd (registry_op x r) = names.step x r"
  by (cases x) auto

lemma registry_ops_fold: "snd (registry_ops xs r) = fold names.step xs r"
  by (induction xs arbitrary: r) (simp_all add: case_prod_unfold Let_def registry_op_step)

lemma live_actors_valid: "live_actors xs r = names.valid xs r"
  by (induction xs arbitrary: r) (simp_all add: registry_op_step)

lemma registry_op_answer:
  "\<lbrakk>registry_ok r; actor_in (set (rg_clients r)) x\<rbrakk> \<Longrightarrow> fst (registry_op x r) = directory_answer x (owners r)"
  using names.claim_law names.release_law names.leave_law by (cases x) auto

lemma registry_ops_answers:
  "\<lbrakk>registry_ok r; live_actors xs r\<rbrakk> \<Longrightarrow> fst (registry_ops xs r) = directory_answers xs (owners r)"
proof (induction xs arbitrary: r)
  case (Cons x xs)
  then have "registry_ok (snd (registry_op x r)) \<and> owners (snd (registry_op x r)) = directory_spec x (owners r)"
    unfolding registry_op_step by (intro names.step_refines) simp_all
  with Cons show ?case
    by (simp add: case_prod_unfold Let_def registry_op_answer)
qed simp

text \<open>
  C2. The registry, a set of claimed names kept beside the list of clients and the names each
  client holds, refines one partial map from names to owners: after any run of registrations,
  claims, releases and departures by live clients its invariant holds, every answer (a name was
  free, was held, the client was there) is the one the map gives, and the owner that
  \<open>get_by_http_hostname\<close> finds for each name is the map's.
\<close>

theorem registry_refines_directory:
  assumes "registry_ok r" "live_actors xs r"
  shows "fst (registry_ops xs r) = directory_answers xs (owners r)
    \<and> (\<lambda>h. get_by_http_hostname h (snd (registry_ops xs r))) = fold directory_spec xs (owners r)
    \<and> registry_ok (snd (registry_ops xs r))"
  using registry_ops_answers [OF assms] names.run_refines [OF assms(1), of xs] assms(2)
  unfolding registry_ops_fold live_actors_valid by blast

definition sample_run :: "socket_addr \<Rightarrow> (nat, socket_addr) directory_op list" where
  "sample_run a = [Join a, Join a, Claim 0 ''x'', Claim 1 ''x'', Release 1 ''x'', Leave 0, Claim 1 ''x'']"

theorem registry_refines_directory_witness:
  fixes a :: socket_addr
  shows "live_actors (sample_run \<lparr>sa_ip = V4 10 0 0 1, sa_port = 1\<rparr>) registry_default
    \<and> fst (registry_ops (sample_run \<lparr>sa_ip = V4 10 0 0 1, sa_port = 1\<rparr>) registry_default)
      = [True, True, True, False, False, True, True]
    \<and> get_by_http_hostname ''x''
        (snd (registry_ops (sample_run \<lparr>sa_ip = V4 10 0 0 1, sa_port = 1\<rparr>) registry_default)) = Some 1"
proof -
  let ?xs = "sample_run \<lparr>sa_ip = V4 10 0 0 1, sa_port = 1\<rparr>"
  have v: "live_actors ?xs registry_default" by code_simp
  have e: "owners registry_default = Map.empty"
    by (simp add: get_by_http_hostname_def registry_default_def)
  note t = registry_refines_directory [OF registry_default_ok v, unfolded e]
  have "fst (registry_ops ?xs registry_default) = [True, True, True, False, False, True, True]"
    using t by (simp add: sample_run_def)
  moreover have "get_by_http_hostname ''x'' (snd (registry_ops ?xs registry_default)) = Some 1"
    using t [THEN conjunct2, THEN conjunct1, THEN fun_cong, of "''x''"] by (simp add: sample_run_def)
  ultimately show ?thesis using v by blast
qed

end
