(* ===== verification/Registry_Steps.thy ===== *)
theory Registry_Steps
  imports Registry
begin

text \<open>
  The registry under concurrency. Every client has its own task (\<open>handle_socket\<close>), which runs
  one registry operation at a time; the tasks interleave between the critical sections of
  \<open>Registry\<close>. \<open>registry_step\<close> is one critical section of one task; a task in the middle of an
  operation is in the phase that names what is still to be done.

  The invariant \<open>steps_ok\<close> accounts for every claimed name: it is held by exactly one task,
  also between the two halves of a claim, a release or a departure.
\<close>

datatype phase = Idle | Claiming string | Releasing string | Leaving | Gone

type_synonym tasks = "registry \<times> (nat \<Rightarrow> phase)"

definition tasks_init :: tasks where
  "tasks_init = (registry_default, \<lambda>_. Gone)"

inductive registry_step :: "tasks \<Rightarrow> tasks \<Rightarrow> bool" where
  connect: "register who r = (k, r') \<Longrightarrow> registry_step (r, ph) (r', ph(k := Idle))"
| claim_refused: "\<lbrakk>k < rg_next r; ph k = Idle; claim_insert h r = (False, r')\<rbrakk>
    \<Longrightarrow> registry_step (r, ph) (r', ph)"
| claim_first: "\<lbrakk>k < rg_next r; ph k = Idle; claim_insert h r = (True, r')\<rbrakk>
    \<Longrightarrow> registry_step (r, ph) (r', ph(k := Claiming h))"
| claim_second: "\<lbrakk>k < rg_next r; ph k = Claiming h\<rbrakk>
    \<Longrightarrow> registry_step (r, ph) (claim_add k h r, ph(k := Idle))"
| release_refused: "\<lbrakk>k < rg_next r; ph k = Idle; release_remove k h r = (False, r')\<rbrakk>
    \<Longrightarrow> registry_step (r, ph) (r', ph)"
| release_first: "\<lbrakk>k < rg_next r; ph k = Idle; release_remove k h r = (True, r')\<rbrakk>
    \<Longrightarrow> registry_step (r, ph) (r', ph(k := Releasing h))"
| release_second: "\<lbrakk>k < rg_next r; ph k = Releasing h\<rbrakk>
    \<Longrightarrow> registry_step (r, ph) (release_free h r, ph(k := Idle))"
| leave_first: "\<lbrakk>k < rg_next r; ph k = Idle; deregister_list k r = (True, r')\<rbrakk>
    \<Longrightarrow> registry_step (r, ph) (r', ph(k := Leaving))"
| leave_second: "\<lbrakk>k < rg_next r; ph k = Leaving\<rbrakk>
    \<Longrightarrow> registry_step (r, ph) (deregister_names k r, ph(k := Gone))"

code_pred registry_step .

inductive_cases registry_stepE: "registry_step s t"

section \<open>The names a task holds\<close>

fun holds :: "phase \<Rightarrow> string set \<Rightarrow> string set" where
  "holds Idle ns = ns"
| "holds (Claiming h) ns = insert h ns"
| "holds (Releasing h) ns = insert h ns"
| "holds Leaving ns = ns"
| "holds Gone ns = {}"

fun pending :: "phase \<Rightarrow> string \<Rightarrow> bool" where
  "pending (Claiming h) g = (g = h)"
| "pending (Releasing h) g = (g = h)"
| "pending _ g = False"

fun listed :: "phase \<Rightarrow> bool" where
  "listed Leaving = False"
| "listed Gone = False"
| "listed _ = True"

definition held :: "tasks \<Rightarrow> nat \<Rightarrow> string set" where
  "held s k = (if k < rg_next (fst s) then holds (snd s k) (names_of (fst s) k) else {})"

definition steps_ok :: "tasks \<Rightarrow> bool" where
  "steps_ok s \<longleftrightarrow>
     distinct (rg_clients (fst s))
     \<and> (\<forall>k. k \<in> set (rg_clients (fst s)) \<longleftrightarrow> k < rg_next (fst s) \<and> listed (snd s k))
     \<and> (\<forall>h. h \<in> rg_claimed (fst s) \<longleftrightarrow> (\<exists>k. h \<in> held s k))
     \<and> (\<forall>h k j. h \<in> held s k \<longrightarrow> h \<in> held s j \<longrightarrow> k = j)
     \<and> (\<forall>k h. pending (snd s k) h \<longrightarrow> h \<notin> names_of (fst s) k)"

lemma steps_okI:
  assumes "distinct (rg_clients r)"
    and "\<And>k. k \<in> set (rg_clients r) \<longleftrightarrow> k < rg_next r \<and> listed (ph k)"
    and "\<And>h. h \<in> rg_claimed r \<longleftrightarrow> (\<exists>k. h \<in> held (r, ph) k)"
    and "\<And>h k j. \<lbrakk>h \<in> held (r, ph) k; h \<in> held (r, ph) j\<rbrakk> \<Longrightarrow> k = j"
    and "\<And>k h. pending (ph k) h \<Longrightarrow> h \<notin> names_of r k"
  shows "steps_ok (r, ph)"
  unfolding steps_ok_def using assms by simp

lemma steps_okD:
  assumes "steps_ok (r, ph)"
  shows "distinct (rg_clients r)"
    and "k \<in> set (rg_clients r) \<longleftrightarrow> k < rg_next r \<and> listed (ph k)"
    and "h \<in> rg_claimed r \<longleftrightarrow> (\<exists>k. h \<in> held (r, ph) k)"
    and "\<lbrakk>h \<in> held (r, ph) k; h \<in> held (r, ph) j\<rbrakk> \<Longrightarrow> k = j"
    and "pending (ph k) h \<Longrightarrow> h \<notin> names_of r k"
  using assms unfolding steps_ok_def by auto

lemma held_eqI:
  "\<lbrakk>rg_next r' = rg_next r; \<And>k. holds (ph' k) (names_of r' k) = holds (ph k) (names_of r k)\<rbrakk>
   \<Longrightarrow> held (r', ph') = held (r, ph)"
  by (simp add: held_def fun_eq_iff)

text \<open>A step that moves a name between the two halves of an operation holds the same names.\<close>

lemma steps_ok_same:
  assumes "steps_ok (r, ph)" "held (r', ph') = held (r, ph)"
    and "rg_clients r' = rg_clients r" "rg_next r' = rg_next r" "rg_claimed r' = rg_claimed r"
    and "\<And>k. listed (ph' k) = listed (ph k)" "\<And>k h. pending (ph' k) h \<Longrightarrow> h \<notin> names_of r' k"
  shows "steps_ok (r', ph')"
  using assms(1) by (auto simp: steps_ok_def assms(2-))

text \<open>A step that gains or loses names that nobody else holds.\<close>

lemma steps_ok_change:
  assumes ok: "steps_ok (r, ph)"
    and held: "held (r', ph') = (held (r, ph))(k := N)"
    and new: "\<And>j h. \<lbrakk>h \<in> N; h \<in> held (r, ph) j\<rbrakk> \<Longrightarrow> j = k"
    and claimed: "rg_claimed r' = rg_claimed r - held (r, ph) k \<union> N"
    and list: "distinct (rg_clients r')" "\<And>j. j \<in> set (rg_clients r') \<longleftrightarrow> j < rg_next r' \<and> listed (ph' j)"
    and "\<And>k h. pending (ph' k) h \<Longrightarrow> h \<notin> names_of r' k"
  shows "steps_ok (r', ph')"
proof (rule steps_okI)
  show "h \<in> rg_claimed r' \<longleftrightarrow> (\<exists>j. h \<in> held (r', ph') j)" for h
    using steps_okD(3,4) [OF ok] new by (auto simp: claimed held split: if_splits; metis)
  show "i = j" if "h \<in> held (r', ph') i" "h \<in> held (r', ph') j" for h i j
    using that new steps_okD(4) [OF ok] by (auto simp: held split: if_splits)
qed (use assms in auto)

section \<open>Every step preserves the accounting\<close>

lemma steps_init_ok: "steps_ok tasks_init"
  by (simp add: steps_ok_def tasks_init_def registry_default_def held_def)

lemma register_fields:
  "register who r = (k, r') \<Longrightarrow>
     k = rg_next r \<and> rg_next r' = Suc (rg_next r) \<and> rg_clients r' = rg_clients r @ [k]
     \<and> rg_claimed r' = rg_claimed r \<and> names_of r' = (names_of r)(k := {})"
  by (auto simp: register_def client_new_def)

lemma claim_insert_fields:
  "claim_insert h r = (b, r') \<Longrightarrow>
     b = (h \<notin> rg_claimed r) \<and> r' = r\<lparr>rg_claimed := insert h (rg_claimed r)\<rparr>"
  by (auto simp: claim_insert_def)

lemma claim_add_fields:
  "rg_next (claim_add k h r) = rg_next r" "rg_clients (claim_add k h r) = rg_clients r"
  "rg_claimed (claim_add k h r) = rg_claimed r"
  "names_of (claim_add k h r) = (names_of r)(k := insert h (names_of r k))"
  by (auto simp: claim_add_def update_client_def add_http_hostname_def names_of_def fun_eq_iff)

lemma release_remove_fields:
  "release_remove k h r = (b, r') \<Longrightarrow>
     b = (h \<in> names_of r k) \<and> rg_next r' = rg_next r \<and> rg_clients r' = rg_clients r
     \<and> rg_claimed r' = rg_claimed r \<and> names_of r' = (names_of r)(k := names_of r k - {h})"
  by (auto simp: release_remove_def update_client_def remove_http_hostname_def names_of_def fun_eq_iff)

lemma deregister_list_fields:
  assumes "deregister_list k r = (True, r')" "distinct (rg_clients r)"
  shows "rg_next r' = rg_next r \<and> distinct (rg_clients r') \<and> set (rg_clients r') = set (rg_clients r) - {k}
     \<and> rg_claimed r' = rg_claimed r \<and> names_of r' = names_of r"
proof -
  have "k \<in> set (rg_clients r)"
    using assms(1) deregister_list_True_iff [of k r] by simp
  then obtain xs where "deregister_list k r = (True, r\<lparr>rg_clients := xs\<rparr>)" "distinct xs"
      "set xs = set (rg_clients r) - {k}"
    using deregister_list_True [OF assms(2)] by blast
  then show ?thesis
    using assms(1) by auto
qed

lemma claim_insert_refused: "claim_insert h r = (False, r') \<Longrightarrow> r' = r"
  by (auto simp: claim_insert_def insert_absorb)

lemma release_remove_refused:
  "release_remove k h r = (False, r') \<Longrightarrow>
     rg_next r' = rg_next r \<and> rg_clients r' = rg_clients r \<and> rg_claimed r' = rg_claimed r
     \<and> names_of r' = names_of r"
  using release_remove_fields [of k h r False r'] by (simp add: fun_upd_idem)

lemma connect_ok:
  assumes "steps_ok (r, ph)" "register who r = (k, r')"
  shows "steps_ok (r', ph(k := Idle))"
proof (rule steps_ok_change [OF assms(1), where k = k and N = "{}"])
  note f = register_fields [OF assms(2)]
  have empty: "held (r, ph) k = {}"
    using f by (simp add: held_def)
  show "held (r', ph(k := Idle)) = (held (r, ph))(k := {})"
    using f by (auto simp: held_def fun_eq_iff less_Suc_eq)
  show "rg_claimed r' = rg_claimed r - held (r, ph) k \<union> {}"
    using f empty by simp
  show "distinct (rg_clients r')" "j \<in> set (rg_clients r') \<longleftrightarrow> j < rg_next r' \<and> listed ((ph(k := Idle)) j)" for j
    using f steps_okD(1,2) [OF assms(1)] by (auto simp: less_Suc_eq)
  show "pending ((ph(k := Idle)) j) h \<Longrightarrow> h \<notin> names_of r' j" for j h
    using f steps_okD(5) [OF assms(1)] by (auto split: if_splits)
qed simp

lemma claim_first_ok:
  assumes "steps_ok (r, ph)" "k < rg_next r" "ph k = Idle" "claim_insert h r = (True, r')"
  shows "steps_ok (r', ph(k := Claiming h))"
proof (rule steps_ok_change [OF assms(1), where k = k and N = "insert h (names_of r k)"])
  note f = claim_insert_fields [OF assms(4)] and ok = steps_okD [OF assms(1)]
  have free: "h \<notin> held (r, ph) j" for j
    using f ok(3) by auto
  have k: "held (r, ph) k = names_of r k"
    using assms(2,3) by (simp add: held_def)
  show "held (r', ph(k := Claiming h)) = (held (r, ph))(k := insert h (names_of r k))"
    using f assms(2) by (auto simp: held_def fun_eq_iff)
  show "j = k" if "g \<in> insert h (names_of r k)" "g \<in> held (r, ph) j" for j g
    using that free k ok(4) by auto
  have "names_of r k \<subseteq> rg_claimed r"
    using ok(3) k by blast
  then show "rg_claimed r' = rg_claimed r - held (r, ph) k \<union> insert h (names_of r k)"
    using f k by auto
  show "distinct (rg_clients r')" "j \<in> set (rg_clients r') \<longleftrightarrow> j < rg_next r' \<and> listed ((ph(k := Claiming h)) j)" for j
    using f ok(1,2) assms(2,3) by auto
  show "pending ((ph(k := Claiming h)) j) g \<Longrightarrow> g \<notin> names_of r' j" for j g
    using f ok(5) free [of k] k by (auto split: if_splits)
qed

lemma claim_second_ok:
  assumes "steps_ok (r, ph)" "k < rg_next r" "ph k = Claiming h"
  shows "steps_ok (claim_add k h r, ph(k := Idle))"
proof (rule steps_ok_same [OF assms(1)])
  show "held (claim_add k h r, ph(k := Idle)) = held (r, ph)"
    using assms(3) by (intro held_eqI) (auto simp: claim_add_fields)
  show "pending ((ph(k := Idle)) j) g \<Longrightarrow> g \<notin> names_of (claim_add k h r) j" for j g
    using steps_okD(5) [OF assms(1)] by (auto simp: claim_add_fields split: if_splits)
qed (use assms(3) in \<open>auto simp: claim_add_fields\<close>)

lemma release_first_ok:
  assumes "steps_ok (r, ph)" "k < rg_next r" "ph k = Idle" "release_remove k h r = (True, r')"
  shows "steps_ok (r', ph(k := Releasing h))"
proof (rule steps_ok_same [OF assms(1)])
  note f = release_remove_fields [OF assms(4)]
  show "held (r', ph(k := Releasing h)) = held (r, ph)"
    using f assms(3) by (intro held_eqI) auto
  show "pending ((ph(k := Releasing h)) j) g \<Longrightarrow> g \<notin> names_of r' j" for j g
    using f steps_okD(5) [OF assms(1)] by (auto split: if_splits)
  show "listed ((ph(k := Releasing h)) j) = listed (ph j)" for j
    using assms(3) by simp
qed (use release_remove_fields [OF assms(4)] in auto)

lemma release_second_ok:
  assumes "steps_ok (r, ph)" "k < rg_next r" "ph k = Releasing h"
  shows "steps_ok (release_free h r, ph(k := Idle))"
proof (rule steps_ok_change [OF assms(1), where k = k and N = "names_of r k"])
  note ok = steps_okD [OF assms(1)]
  have names: "names_of (release_free h r) = names_of r"
    by (simp add: release_free_def)
  have k: "held (r, ph) k = insert h (names_of r k)" "h \<notin> names_of r k"
    using assms(2,3) ok(5) [of k h] by (simp_all add: held_def)
  show "held (release_free h r, ph(k := Idle)) = (held (r, ph))(k := names_of r k)"
    using assms(2) by (auto simp: held_def fun_eq_iff names) (simp_all add: release_free_def)
  show "j = k" if "g \<in> names_of r k" "g \<in> held (r, ph) j" for j g
    using that k ok(4) by auto
  have "names_of r k \<subseteq> rg_claimed r"
    using ok(3) k by blast
  then show "rg_claimed (release_free h r) = rg_claimed r - held (r, ph) k \<union> names_of r k"
    using k by (auto simp: release_free_def)
  show "distinct (rg_clients (release_free h r))"
    "j \<in> set (rg_clients (release_free h r)) \<longleftrightarrow> j < rg_next (release_free h r) \<and> listed ((ph(k := Idle)) j)" for j
    using ok(1,2) assms(2,3) by (auto simp: release_free_def)
  show "pending ((ph(k := Idle)) j) g \<Longrightarrow> g \<notin> names_of (release_free h r) j" for j g
    using ok(5) by (auto simp: names split: if_splits)
qed

lemma leave_first_ok:
  assumes "steps_ok (r, ph)" "k < rg_next r" "ph k = Idle" "deregister_list k r = (True, r')"
  shows "steps_ok (r', ph(k := Leaving))"
proof (rule steps_ok_change [OF assms(1), where k = k and N = "held (r, ph) k"])
  note f = deregister_list_fields [OF assms(4) steps_okD(1) [OF assms(1)]] and ok = steps_okD [OF assms(1)]
  show "held (r', ph(k := Leaving)) = (held (r, ph))(k := held (r, ph) k)"
    using f assms(2,3) by (simp add: held_def fun_eq_iff)
  show "j = k" if "g \<in> held (r, ph) k" "g \<in> held (r, ph) j" for j g
    using that ok(4) by blast
  have "held (r, ph) k \<subseteq> rg_claimed r"
    using ok(3) by blast
  then show "rg_claimed r' = rg_claimed r - held (r, ph) k \<union> held (r, ph) k"
    using f by auto
  show "distinct (rg_clients r')" "j \<in> set (rg_clients r') \<longleftrightarrow> j < rg_next r' \<and> listed ((ph(k := Leaving)) j)" for j
    using f ok(2) by auto
  show "pending ((ph(k := Leaving)) j) g \<Longrightarrow> g \<notin> names_of r' j" for j g
    using f ok(5) by (auto split: if_splits)
qed

lemma leave_second_ok:
  assumes "steps_ok (r, ph)" "k < rg_next r" "ph k = Leaving"
  shows "steps_ok (deregister_names k r, ph(k := Gone))"
proof (rule steps_ok_change [OF assms(1), where k = k and N = "{}"])
  note ok = steps_okD [OF assms(1)]
  have names: "names_of (deregister_names k r) = names_of r"
    by (simp add: deregister_names_def)
  have k: "held (r, ph) k = names_of r k"
    using assms(2,3) by (simp add: held_def)
  show "held (deregister_names k r, ph(k := Gone)) = (held (r, ph))(k := {})"
    by (auto simp: held_def fun_eq_iff names) (simp_all add: deregister_names_def)
  show "rg_claimed (deregister_names k r) = rg_claimed r - held (r, ph) k \<union> {}"
    by (simp add: deregister_names_def k)
  show "distinct (rg_clients (deregister_names k r))"
    "j \<in> set (rg_clients (deregister_names k r)) \<longleftrightarrow>
       j < rg_next (deregister_names k r) \<and> listed ((ph(k := Gone)) j)" for j
    using ok(1,2) assms(3) by (auto simp: deregister_names_def)
  show "pending ((ph(k := Gone)) j) g \<Longrightarrow> g \<notin> names_of (deregister_names k r) j" for j g
    using ok(5) by (auto simp: names split: if_splits)
qed simp

lemma refused_ok:
  assumes "steps_ok (r, ph)" "rg_next r' = rg_next r" "rg_clients r' = rg_clients r"
    "rg_claimed r' = rg_claimed r" "names_of r' = names_of r"
  shows "steps_ok (r', ph)"
  using assms(1) by (simp add: steps_ok_def held_def assms(2-))

lemma registry_step_ok: "\<lbrakk>registry_step s t; steps_ok s\<rbrakk> \<Longrightarrow> steps_ok t"
proof (induction rule: registry_step.induct)
  case (claim_refused k r ph h r')
  then show ?case
    using claim_insert_refused [of h r r'] by simp
next
  case (release_refused k r ph h r')
  then show ?case
    using release_remove_refused [of k h r r'] refused_ok [of r ph r'] by simp
qed (blast intro: connect_ok claim_first_ok claim_second_ok release_first_ok release_second_ok
      leave_first_ok leave_second_ok)+

lemma reachable_ok: "registry_step\<^sup>*\<^sup>* tasks_init s \<Longrightarrow> steps_ok s"
  by (induction rule: rtranclp_induct) (use steps_init_ok registry_step_ok in blast)+

lemma held_listed:
  "\<lbrakk>steps_ok (r, ph); k \<in> set (rg_clients r); h \<in> names_of r k\<rbrakk> \<Longrightarrow> h \<in> held (r, ph) k"
  by (cases "ph k") (auto simp: held_def steps_ok_def)

lemma steps_owner:
  assumes "steps_ok (r, ph)"
  shows "get_by_http_hostname h r = Some k \<longleftrightarrow> k \<in> set (rg_clients r) \<and> h \<in> names_of r k"
proof -
  have only: "i = j" if "i \<in> set (rg_clients r)" "j \<in> set (rg_clients r)"
      "h \<in> names_of r i" "h \<in> names_of r j" for i j
    using that held_listed [OF assms] steps_okD(4) [OF assms] by blast
  then show ?thesis
    unfolding get_by_http_hostname_def has_http_hostname_def names_of_def [symmetric]
    by (subst find_Some_iff) auto
qed

lemma quiescent_ok:
  assumes "steps_ok (r, ph)" "\<forall>k < rg_next r. ph k = Idle \<or> ph k = Gone"
  shows "registry_ok r"
proof (rule registry_okI)
  note ok = steps_okD [OF assms(1)]
  have held: "held (r, ph) k = (if k \<in> set (rg_clients r) then names_of r k else {})" for k
    using assms(2) ok(2) [of k] by (auto simp: held_def)
  show "distinct (rg_clients r)" "k \<in> set (rg_clients r) \<Longrightarrow> k < rg_next r" for k
    using ok(1,2) by auto
  show "\<lbrakk>k \<in> set (rg_clients r); j \<in> set (rg_clients r); h \<in> names_of r k; h \<in> names_of r j\<rbrakk> \<Longrightarrow> k = j" for h k j
    using ok(4) [of h k j] by (simp add: held)
  show "h \<in> rg_claimed r \<longleftrightarrow> (\<exists>k \<in> set (rg_clients r). h \<in> names_of r k)" for h
    using ok(3) [of h] by (auto simp: held split: if_splits)
qed

text \<open>
  C1. However the tasks of the connected clients interleave, a host name that a connected client
  holds is routed to that client and to no other, and it stays marked as claimed; and whenever
  no operation is in progress the set of claimed names is exactly the union of the names of the
  connected clients, so that no name is lost to a departed client.
\<close>

theorem concurrent_registry:
  assumes "registry_step\<^sup>*\<^sup>* tasks_init (r, ph)"
  shows "(\<forall>h k. get_by_http_hostname h r = Some k \<longleftrightarrow> k \<in> set (rg_clients r) \<and> h \<in> names_of r k)
    \<and> (\<forall>h k. get_by_http_hostname h r = Some k \<longrightarrow> h \<in> rg_claimed r)
    \<and> ((\<forall>k < rg_next r. ph k = Idle \<or> ph k = Gone)
         \<longrightarrow> rg_claimed r = (\<Union>k \<in> set (rg_clients r). names_of r k))"
proof (intro conjI allI impI)
  have ok: "steps_ok (r, ph)"
    using reachable_ok [OF assms] .
  show o: "get_by_http_hostname h r = Some k \<longleftrightarrow> k \<in> set (rg_clients r) \<and> h \<in> names_of r k" for h k
    by (rule steps_owner [OF ok])
  show "h \<in> rg_claimed r" if "get_by_http_hostname h r = Some k" for h k
    using that held_listed [OF ok] steps_okD(3) [OF ok] by (auto simp: o)
  show "rg_claimed r = (\<Union>k \<in> set (rg_clients r). names_of r k)"
    if "\<forall>k < rg_next r. ph k = Idle \<or> ph k = Gone"
    using quiescent_ok [OF ok that] by (simp add: registry_ok_def)
qed

text \<open>Two clients; the first is half way through a claim that the second one wants too.\<close>

definition sample_peer :: socket_addr where
  "sample_peer = \<lparr>sa_ip = V4 10 0 0 1, sa_port = 4000\<rparr>"

definition sample_registry :: registry where
  "sample_registry =
     snd (claim_insert ''a'' (snd (register sample_peer (snd (register sample_peer registry_default)))))"

definition sample_phases :: "nat \<Rightarrow> phase" where
  "sample_phases = (((\<lambda>_. Gone)(0 := Idle))(1 := Idle))(0 := Claiming ''a'')"

lemma sample_reachable: "registry_step\<^sup>*\<^sup>* tasks_init (sample_registry, sample_phases)"
proof -
  let ?r1 = "snd (register sample_peer registry_default)"
  let ?r2 = "snd (register sample_peer ?r1)"
  have "registry_step tasks_init (?r1, (\<lambda>_. Gone)(0 := Idle))"
    unfolding tasks_init_def
    by (rule connect [of sample_peer]) (simp add: register_def registry_default_def)
  moreover have "registry_step (?r1, (\<lambda>_. Gone)(0 := Idle)) (?r2, ((\<lambda>_. Gone)(0 := Idle))(1 := Idle))"
    by (rule connect [of sample_peer]) (simp add: register_def registry_default_def)
  moreover have "registry_step (?r2, ((\<lambda>_. Gone)(0 := Idle))(1 := Idle)) (sample_registry, sample_phases)"
    unfolding sample_phases_def sample_registry_def
    by (rule claim_first) (simp_all add: register_def registry_default_def claim_insert_def)
  ultimately show ?thesis
    by (meson converse_rtranclp_into_rtranclp rtranclp.rtrancl_refl)
qed

theorem concurrent_registry_witness:
  "rg_clients sample_registry = [0, 1] \<and> ''a'' \<in> rg_claimed sample_registry
   \<and> names_of sample_registry 0 = {} \<and> get_by_http_hostname ''a'' sample_registry \<noteq> Some 0"
proof -
  have r: "rg_clients sample_registry = [0, 1]" "''a'' \<in> rg_claimed sample_registry" "names_of sample_registry 0 = {}"
    by (simp_all add: sample_registry_def register_def registry_default_def claim_insert_def names_of_def client_new_def)
  have "get_by_http_hostname ''a'' sample_registry = Some 0 \<longleftrightarrow>
      0 \<in> set (rg_clients sample_registry) \<and> ''a'' \<in> names_of sample_registry 0"
    using concurrent_registry [OF sample_reachable] by blast
  with r show ?thesis by simp
qed

end
