(* ===== verification/Cert_Store.thy ===== *)
theory Cert_Store
  imports Nport_Prelude
begin

text \<open>
  \<open>nport-server/src/cert/store.rs\<close>: the store of TLS certificates, its files, its renewal and
  the choice of a certificate for a client hello.

  Code outside the repository is gathered in \<open>cert_env\<close>: \<open>ce_from_der\<close> (\<open>x509_parser\<close>:
  the unread bytes and the end of validity, in seconds since 1970), \<open>ce_supported_key\<close>
  (\<open>rustls\<close>), \<open>ce_to_json\<close> and \<open>ce_from_json\<close> (\<open>serde_json\<close>), \<open>ce_lc\<close>
  (\<open>str::to_lowercase\<close>) and \<open>ce_clock n\<close>, what the \<open>n\<close>-th call of
  \<open>OffsetDateTime::now_utc\<close> of an operation returns. The directory is the list of its entries with
  their text (\<open>None\<close>: not readable as text), and is itself \<open>None\<close> where it does not exist.

  Lemmas: reading the expiration ends and is the minimum over the chain; loaded certificates
  are valid for a day; file names do not collide; a renewal leaves fresh certificates for the
  domain and its subdomains, and \<open>resolve\<close> hands them out.
\<close>

section \<open>Expiration of a certificate chain\<close>

definition DATE_MAX_MIDNIGHT :: int where "DATE_MAX_MIDNIGHT = 253402214400"
definition MINIMUM_CERT_LOAD_DURATION :: int where "MINIMUM_CERT_LOAD_DURATION = 86400"
definition MINIMUM_CERT_RENEW_DURATION :: int where "MINIMUM_CERT_RENEW_DURATION = 30 * 86400"

type_synonym der_parser = "bytes \<Rightarrow> (bytes \<times> int) option"

text \<open>The loop ends on an error or when no byte is left; \<open>None\<close> is a loop that never ends.\<close>

partial_function (option) cert_expiration_loop ::
  "der_parser \<Rightarrow> bytes \<Rightarrow> int \<Rightarrow> (unit + int) option" where
  "cert_expiration_loop from_der rem expiration =
     (case from_der rem of
        None \<Rightarrow> Some (Inl ())
      | Some (extra, not_after) \<Rightarrow>
          (if extra = [] then Some (Inr (if not_after < expiration then not_after else expiration))
           else cert_expiration_loop from_der extra
                  (if not_after < expiration then not_after else expiration)))"

definition cert_expiration :: "der_parser \<Rightarrow> bytes \<Rightarrow> (unit + int) outcome" where
  "cert_expiration from_der der =
     (case cert_expiration_loop from_der der DATE_MAX_MIDNIGHT of None \<Rightarrow> Diverge | Some r \<Rightarrow> Return r)"

section \<open>The store\<close>

record stored_cert =
  st_domain :: string
  st_private_key_der :: bytes
  st_certificate_der :: bytes

datatype store_error = EmptyDomain | EmptyPrivateKey | EmptyCertificate
  | IoError | JsonError | X509Error | RequestError

definition stored_cert_validate :: "stored_cert \<Rightarrow> store_error + unit" where
  "stored_cert_validate c =
     (if st_domain c = [] then Err EmptyDomain
      else if st_private_key_der c = [] then Err EmptyPrivateKey
      else if st_certificate_der c = [] then Err EmptyCertificate
      else Ok ())"

record 'k certified_key =
  ck_cert :: "bytes list"
  ck_key :: 'k

type_synonym files = "(string \<times> string option) list"

record 'k store =
  store_certs :: "string \<rightharpoonup> 'k certified_key"
  store_dir :: "files option"
  store_domain :: string

record acme_certificate =
  ac_private_key_der :: bytes
  ac_certificate_der :: bytes

record 'k cert_env =
  ce_from_der :: der_parser
  ce_supported_key :: "bytes \<Rightarrow> 'k option"
  ce_to_json :: "stored_cert \<Rightarrow> string option"
  ce_from_json :: "string \<Rightarrow> stored_cert option"
  ce_lc :: "string \<Rightarrow> string"
  ce_clock :: "nat \<Rightarrow> int"

definition store_new :: "files option \<Rightarrow> string \<Rightarrow> 'k store" where
  "store_new dir domain = \<lparr>store_certs = Map.empty, store_dir = dir, store_domain = domain\<rparr>"

definition root_domain :: "'k store \<Rightarrow> string" where
  "root_domain s = store_domain s"

definition wildcard_domain :: "'k store \<Rightarrow> string" where
  "wildcard_domain s = ''*.'' @ store_domain s"

text \<open>\<open>any_supported_type(..).unwrap()\<close>: a key \<open>rustls\<close> cannot use is a panic.\<close>

definition store_add ::
  "'k cert_env \<Rightarrow> string \<Rightarrow> bytes \<Rightarrow> bytes \<Rightarrow> 'k store \<Rightarrow> 'k store outcome" where
  "store_add env domain private_key_der certificate_der s =
     bind_outcome (unwrap_option (ce_supported_key env private_key_der)) (\<lambda>key.
       Return (s\<lparr>store_certs :=
         (store_certs s)(domain \<mapsto> \<lparr>ck_cert = [certificate_der], ck_key = key\<rparr>)\<rparr>))"

text \<open>\<open>domain.to_lowercase().replace('*', "STAR")\<close>\<close>

definition cert_filename :: "(string \<Rightarrow> string) \<Rightarrow> string \<Rightarrow> string" where
  "cert_filename lc domain = concat (map (\<lambda>c. if c = CHR ''*'' then ''STAR'' else [c]) (lc domain))"

text \<open>\<open>fs::write\<close>: replaces the file of that name, or creates it.\<close>

fun write_file :: "string \<Rightarrow> string \<Rightarrow> files \<Rightarrow> files" where
  "write_file n d [] = [(n, Some d)]"
| "write_file n d ((m, e) # fs) = (if n = m then (n, Some d) # fs else (m, e) # write_file n d fs)"

text \<open>\<open>io_ok\<close>: whether creating the directory and writing the file succeed.\<close>

definition store_cert ::
  "'k cert_env \<Rightarrow> bool \<Rightarrow> string \<Rightarrow> acme_certificate \<Rightarrow> 'k store \<Rightarrow> (store_error + unit) \<times> 'k store" where
  "store_cert env io_ok domain cert s =
     (let stored = \<lparr>st_domain = domain, st_private_key_der = ac_private_key_der cert,
                    st_certificate_der = ac_certificate_der cert\<rparr>
      in case ce_to_json env stored of
           None \<Rightarrow> (Err JsonError, s)
         | Some data \<Rightarrow>
             if \<not> io_ok then (Err IoError, s)
             else (Ok (), s\<lparr>store_dir := Some (write_file (cert_filename (ce_lc env) domain) data
                                              (case store_dir s of Some fs \<Rightarrow> fs | None \<Rightarrow> []))\<rparr>))"

text \<open>A failed write is logged; the certificate stays in memory.\<close>

definition update_cert ::
  "'k cert_env \<Rightarrow> bool \<Rightarrow> string \<Rightarrow> acme_certificate \<Rightarrow> 'k store \<Rightarrow> 'k store outcome" where
  "update_cert env io_ok domain cert s =
     bind_outcome (store_add env domain (ac_private_key_der cert) (ac_certificate_der cert) s)
       (\<lambda>s'. Return (snd (store_cert env io_ok domain cert s')))"

definition should_renew_cert :: "'k cert_env \<Rightarrow> nat \<Rightarrow> 'k store \<Rightarrow> string \<Rightarrow> bool outcome" where
  "should_renew_cert env n s domain =
     (case store_certs s domain of
        None \<Rightarrow> Return True
      | Some cert \<Rightarrow>
          (case ck_cert cert of
             [] \<Rightarrow> Panic
           | der # _ \<Rightarrow>
               bind_outcome (cert_expiration (ce_from_der env) der) (\<lambda>r.
                 case r of
                   Inr expiration \<Rightarrow> Return (expiration < ce_clock env n + MINIMUM_CERT_RENEW_DURATION)
                 | Inl _ \<Rightarrow> Return True)))"

definition should_renew :: "'k cert_env \<Rightarrow> 'k store \<Rightarrow> bool outcome" where
  "should_renew env s =
     bind_outcome (should_renew_cert env 0 s (root_domain s)) (\<lambda>b.
       if b then Return True else should_renew_cert env 1 s (wildcard_domain s))"

text \<open>The body of the loop of \<open>load\<close>, for one directory entry.\<close>

definition load_file ::
  "'k cert_env \<Rightarrow> nat \<Rightarrow> string option \<Rightarrow> 'k store \<Rightarrow> (store_error + 'k store) outcome" where
  "load_file env n entry s =
     (case entry of None \<Rightarrow> Return (Err IoError) | Some data \<Rightarrow>
      (case ce_from_json env data of None \<Rightarrow> Return (Err JsonError) | Some cert \<Rightarrow>
      (case stored_cert_validate cert of Inl e \<Rightarrow> Return (Err e) | Inr _ \<Rightarrow>
        bind_outcome (cert_expiration (ce_from_der env) (st_certificate_der cert)) (\<lambda>r.
          case r of
            Inl _ \<Rightarrow> Return (Err X509Error)
          | Inr expiration \<Rightarrow>
              if expiration < ce_clock env n + MINIMUM_CERT_LOAD_DURATION then Return (Ok s)
              else bind_outcome (store_add env (st_domain cert) (st_private_key_der cert)
                                   (st_certificate_der cert) s) (\<lambda>s'. Return (Ok s'))))))"

fun load_files ::
  "'k cert_env \<Rightarrow> nat \<Rightarrow> files \<Rightarrow> 'k store \<Rightarrow> ((store_error + unit) \<times> 'k store) outcome" where
  "load_files env n [] s = Return (Ok (), s)"
| "load_files env n ((name, entry) # fs) s =
     bind_outcome (load_file env n entry s) (\<lambda>r.
       case r of Inl e \<Rightarrow> Return (Err e, s) | Inr s' \<Rightarrow> load_files env (n + 1) fs s')"

definition store_load :: "'k cert_env \<Rightarrow> 'k store \<Rightarrow> ((store_error + unit) \<times> 'k store) outcome" where
  "store_load env s =
     (case store_dir s of
        None \<Rightarrow> Return (Err IoError, s)
      | Some fs \<Rightarrow> load_files env 0 fs s)"

text \<open>
  \<open>request\<close> is \<open>Generator::request\<close> (\<open>gen_request\<close> of the theory \<open>Acme\<close>): an error of the
  exchange is \<open>Return None\<close>, and it can panic or never come back.
\<close>

type_synonym cert_request = "string \<Rightarrow> acme_certificate option outcome"

definition renew_cert ::
  "'k cert_env \<Rightarrow> cert_request \<Rightarrow> bool \<Rightarrow> string \<Rightarrow> 'k store
     \<Rightarrow> ((store_error + unit) \<times> 'k store) outcome" where
  "renew_cert env request io_ok domain s =
     bind_outcome (request domain) (\<lambda>answer.
       case answer of
         None \<Rightarrow> Return (Err RequestError, s)
       | Some cert \<Rightarrow> bind_outcome (update_cert env io_ok domain cert s) (\<lambda>s'. Return (Ok (), s')))"

fun renew_loop ::
  "'k cert_env \<Rightarrow> cert_request \<Rightarrow> bool \<Rightarrow> nat \<Rightarrow> string list \<Rightarrow> 'k store
     \<Rightarrow> ((store_error + unit) \<times> 'k store) outcome" where
  "renew_loop env request io_ok n [] s = Return (Ok (), s)"
| "renew_loop env request io_ok n (domain # ds) s =
     bind_outcome (should_renew_cert env n s domain) (\<lambda>b.
       if b
       then bind_outcome (renew_cert env request io_ok domain s) (\<lambda>(r, s').
              case r of Inl e \<Rightarrow> Return (Err e, s')
                      | Inr _ \<Rightarrow> renew_loop env request io_ok (n + 1) ds s')
       else renew_loop env request io_ok (n + 1) ds s)"

definition renew ::
  "'k cert_env \<Rightarrow> cert_request \<Rightarrow> bool \<Rightarrow> 'k store
     \<Rightarrow> ((store_error + unit) \<times> 'k store) outcome" where
  "renew env request io_ok s =
     bind_outcome (should_renew env s) (\<lambda>b.
       if b then renew_loop env request io_ok 2 [root_domain s, wildcard_domain s] s
       else Return (Ok (), s))"

text \<open>\<open>update\<close>: an error of \<open>renew\<close> is logged.\<close>

definition store_update ::
  "'k cert_env \<Rightarrow> cert_request \<Rightarrow> bool \<Rightarrow> 'k store \<Rightarrow> 'k store outcome" where
  "store_update env request io_ok s =
     bind_outcome (renew env request io_ok s) (\<lambda>(r, s'). Return s')"

section \<open>The certificate for a client hello\<close>

definition or_else :: "'a option \<Rightarrow> 'a option \<Rightarrow> 'a option" where
  "or_else a b = (case a of Some x \<Rightarrow> Some x | None \<Rightarrow> b)"

definition resolve :: "'k store \<Rightarrow> string option \<Rightarrow> 'k certified_key option" where
  "resolve s sni =
     (let server_name = (case sni of Some name \<Rightarrow> name | None \<Rightarrow> store_domain s);
          top_level = ''*.'' @ join_with dot (drop 1 (split_on dot server_name));
          certs = store_certs s
      in or_else (certs top_level) (or_else (certs server_name) (certs (store_domain s))))"

section \<open>The expiration is read, and is the earliest of the chain\<close>

text \<open>The certificates that follow one another in a file, with their ends of validity.\<close>

inductive der_chain :: "der_parser \<Rightarrow> bytes \<Rightarrow> int list \<Rightarrow> bool" for from_der where
  last_cert: "from_der d = Some ([], t) \<Longrightarrow> der_chain from_der d [t]"
| next_cert: "\<lbrakk>from_der d = Some (e, t); e \<noteq> []; der_chain from_der e ts\<rbrakk> \<Longrightarrow> der_chain from_der d (t # ts)"

text \<open>The files in which some certificate of the chain does not parse.\<close>

inductive der_broken :: "der_parser \<Rightarrow> bytes \<Rightarrow> bool" for from_der where
  bad_cert: "from_der d = None \<Longrightarrow> der_broken from_der d"
| bad_later: "\<lbrakk>from_der d = Some (e, t); e \<noteq> []; der_broken from_der e\<rbrakk> \<Longrightarrow> der_broken from_der d"

lemma der_chain_unbroken: "der_chain from_der d ts \<Longrightarrow> \<not> der_broken from_der d"
  by (induction rule: der_chain.induct) (auto elim: der_broken.cases)

text \<open>A parser hands back less than it was given.\<close>

definition consuming :: "der_parser \<Rightarrow> bool" where
  "consuming from_der \<longleftrightarrow> (\<forall>d e t. from_der d = Some (e, t) \<longrightarrow> length e < length d)"

lemma der_chain_ne: "der_chain from_der d ts \<Longrightarrow> ts \<noteq> []"
  by (induction rule: der_chain.induct) auto

lemma cert_expiration_loop_chain:
  "der_chain from_der d ts \<Longrightarrow>
   cert_expiration_loop from_der d x = Some (Inr (foldl min x ts))"
proof (induction arbitrary: x rule: der_chain.induct)
  case (last_cert d t)
  then show ?case
    by (subst cert_expiration_loop.simps) (simp add: min_def not_less)
next
  case (next_cert d e t ts)
  have "(if t < x then t else x) = min x t"
    by (simp add: min_def)
  then show ?case
    using next_cert by (subst cert_expiration_loop.simps) simp
qed

lemma cert_expiration_loop_broken:
  "der_broken from_der d \<Longrightarrow> cert_expiration_loop from_der d x = Some (Inl ())"
proof (induction arbitrary: x rule: der_broken.induct)
  case (bad_cert d)
  then show ?case by (subst cert_expiration_loop.simps) simp
next
  case (bad_later d e t)
  then show ?case by (subst cert_expiration_loop.simps) simp
qed

lemma der_chain_or_broken:
  assumes "consuming from_der"
  shows "(\<exists>ts. der_chain from_der d ts) \<or> der_broken from_der d"
proof (induction "length d" arbitrary: d rule: less_induct)
  case less
  show ?case
  proof (cases "from_der d")
    case (Some p)
    then obtain e t where p: "from_der d = Some (e, t)" by (cases p) auto
    then have "length e < length d" using assms by (simp add: consuming_def)
    then show ?thesis
      using less [of e] p by (cases "e = []") (auto intro: der_chain.intros der_broken.intros)
  qed (auto intro: der_broken.intros)
qed

lemma foldl_min_Min: "foldl min (x :: int) ts = Min (insert x (set ts))"
proof (induction ts arbitrary: x)
  case (Cons t ts)
  then show ?case
    by (cases "ts = []") (simp_all add: min.assoc insert_commute)
qed simp

lemma cert_expiration_chain:
  "der_chain from_der d ts \<Longrightarrow>
   cert_expiration from_der d = Return (Inr (Min (insert DATE_MAX_MIDNIGHT (set ts))))"
  by (simp add: cert_expiration_def cert_expiration_loop_chain foldl_min_Min)

section \<open>Loading\<close>

lemma store_add_Return:
  "store_add env dn k c s = Return s' \<longleftrightarrow>
     (\<exists>key. ce_supported_key env k = Some key
        \<and> s' = s\<lparr>store_certs := (store_certs s)(dn \<mapsto> \<lparr>ck_cert = [c], ck_key = key\<rparr>)\<rparr>)"
  by (cases "ce_supported_key env k") (auto simp: store_add_def)

text \<open>What \<open>load\<close> lets into the store: a chain still valid for a day at the time of its reading.\<close>

definition fresh_entry :: "'k cert_env \<Rightarrow> int \<Rightarrow> string \<Rightarrow> 'k certified_key \<Rightarrow> bool" where
  "fresh_entry env margin dn c \<longleftrightarrow>
     dn \<noteq> [] \<and> (\<exists>der n e. ck_cert c = [der] \<and> der \<noteq> []
        \<and> cert_expiration (ce_from_der env) der = Return (Inr e) \<and> ce_clock env n + margin \<le> e)"

lemma load_file_Ok:
  assumes "load_file env n entry s = Return (Inr s')"
  shows "s' = s \<or> (\<exists>cert e. stored_cert_validate cert = Ok ()
     \<and> cert_expiration (ce_from_der env) (st_certificate_der cert) = Return (Inr e)
     \<and> ce_clock env n + MINIMUM_CERT_LOAD_DURATION \<le> e
     \<and> store_add env (st_domain cert) (st_private_key_der cert) (st_certificate_der cert) s = Return s')"
proof -
  obtain data cert where c: "entry = Some data" "ce_from_json env data = Some cert"
    "stored_cert_validate cert = Ok ()"
    using assms by (auto simp: load_file_def split: option.splits sum.splits)
  then obtain r where r: "cert_expiration (ce_from_der env) (st_certificate_der cert) = Return r"
    using assms by (cases "cert_expiration (ce_from_der env) (st_certificate_der cert)")
      (auto simp: load_file_def)
  then obtain e where "r = Inr e"
    using assms c by (cases r) (auto simp: load_file_def)
  then show ?thesis
    using assms c r by (auto simp: load_file_def bind_outcome_Return not_less split: if_splits)
qed

lemma load_file_fresh:
  assumes "load_file env n entry s = Return (Inr s')" "store_certs s' d = Some c"
  shows "store_certs s d = Some c \<or> fresh_entry env MINIMUM_CERT_LOAD_DURATION d c"
  using load_file_Ok [OF assms(1)] assms(2)
  by (auto simp: store_add_Return stored_cert_validate_def fresh_entry_def split: if_splits) blast

lemma load_files_fresh:
  "\<lbrakk>load_files env n fs s = Return (r, s'); store_certs s' d = Some c\<rbrakk> \<Longrightarrow>
     store_certs s d = Some c \<or> fresh_entry env MINIMUM_CERT_LOAD_DURATION d c"
proof (induction fs arbitrary: n s)
  case Nil
  then show ?case by simp
next
  case (Cons f fs)
  obtain name entry where f: "f = (name, entry)" by (cases f)
  obtain r1 where r1: "load_file env n entry s = Return r1"
    using Cons.prems(1) f by (auto simp: bind_outcome_Return)
  show ?case
  proof (cases r1)
    case (Inl e)
    then show ?thesis using Cons.prems f r1 by simp
  next
    case (Inr s1)
    then have "load_files env (n + 1) fs s1 = Return (r, s')"
      using Cons.prems(1) f r1 by simp
    from Cons.IH [OF this Cons.prems(2)] show ?thesis
      using load_file_fresh r1 Inr by metis
  qed
qed

section \<open>File names\<close>

lemma cert_filename_decode:
  assumes "CHR ''S'' \<notin> set a" "CHR ''S'' \<notin> set b"
    "concat (map (\<lambda>c. if c = CHR ''*'' then ''STAR'' else [c]) a) =
     concat (map (\<lambda>c. if c = CHR ''*'' then ''STAR'' else [c]) b)"
  shows "a = b"
  using assms
proof (induction a arbitrary: b)
  case Nil
  then show ?case by (cases b) (auto split: if_splits)
next
  case (Cons x a)
  then show ?case by (cases b) (auto split: if_splits)
qed

section \<open>Renewal and resolution\<close>

lemma update_cert_certs:
  assumes "ce_supported_key env (ac_private_key_der cert) = Some k"
  shows "\<exists>s'. update_cert env io_ok dn cert s = Return s'
     \<and> store_certs s' = (store_certs s)(dn \<mapsto> \<lparr>ck_cert = [ac_certificate_der cert], ck_key = k\<rparr>)
     \<and> store_domain s' = store_domain s"
  using assms
  by (auto simp: update_cert_def store_add_def store_cert_def Let_def split: option.splits)

lemma resolve_label:
  assumes "dot \<notin> set label" "store_certs s (wildcard_domain s) = Some c"
  shows "resolve s (Some (label @ dot # store_domain s)) = Some c"
  using assms
  by (simp add: resolve_def split_on_append_sep join_split_on wildcard_domain_def or_else_def)

lemma join_drop_shorter:
  "ls \<noteq> [] \<Longrightarrow> length (join_with c (drop 1 ls)) \<le> length (join_with c ls)"
  by (induction c ls rule: join_with.induct) auto

lemma resolve_apex:
  assumes "store_certs s = [store_domain s \<mapsto> r, wildcard_domain s \<mapsto> w]" "store_domain s \<noteq> []"
  shows "resolve s (Some (store_domain s)) = Some r" "resolve s None = Some r"
proof -
  let ?top = "''*.'' @ join_with dot (drop 1 (split_on dot (store_domain s)))"
  have ne: "store_domain s \<noteq> wildcard_domain s"
  proof
    assume "store_domain s = wildcard_domain s"
    then have "length (store_domain s) = length (wildcard_domain s)" by simp
    then show False by (simp add: wildcard_domain_def)
  qed
  have "?top \<noteq> wildcard_domain s"
  proof
    assume "?top = wildcard_domain s"
    then have e: "join_with dot (drop 1 (split_on dot (store_domain s))) = store_domain s"
      by (simp add: wildcard_domain_def)
    obtain p ps where ps: "split_on dot (store_domain s) = p # ps"
      by (metis list.exhaust split_on_nonempty)
    then have j: "join_with dot (p # ps) = store_domain s" "join_with dot ps = store_domain s"
      using e join_split_on [of dot "store_domain s"] by simp_all
    then have "ps \<noteq> []"
      using assms(2) by auto
    then have "length (join_with dot ps) < length (join_with dot (p # ps))"
      by simp
    with j show False by simp
  qed
  then show "resolve s (Some (store_domain s)) = Some r" "resolve s None = Some r"
    using ne assms by (simp_all add: resolve_def or_else_def Let_def)
qed

lemma should_renew_missing:
  "store_certs s (root_domain s) = None \<Longrightarrow> should_renew env s = Return True"
  by (simp add: should_renew_def should_renew_cert_def)

lemma renew_cert_Ok:
  assumes "request d = Return (Some cert)" "ce_supported_key env (ac_private_key_der cert) = Some k"
  shows "\<exists>s'. renew_cert env request io_ok d s = Return (Ok (), s')
     \<and> store_certs s' = (store_certs s)(d \<mapsto> \<lparr>ck_cert = [ac_certificate_der cert], ck_key = k\<rparr>)
     \<and> store_domain s' = store_domain s"
  using update_cert_certs [OF assms(2), of io_ok d s] assms(1) by (auto simp: renew_cert_def)

lemma domain_ne_wildcard: "store_domain s \<noteq> wildcard_domain s"
proof
  assume "store_domain s = wildcard_domain s"
  then have "length (store_domain s) = length (wildcard_domain s)" by simp
  then show False by (simp add: wildcard_domain_def)
qed

lemma renew_empty:
  assumes "store_certs s = Map.empty"
    and "request (root_domain s) = Return (Some cr)" "ce_supported_key env (ac_private_key_der cr) = Some kr"
    and "request (wildcard_domain s) = Return (Some cw)" "ce_supported_key env (ac_private_key_der cw) = Some kw"
  shows "\<exists>s'. renew env request io_ok s = Return (Ok (), s') \<and> store_domain s' = store_domain s
     \<and> store_certs s' = [root_domain s \<mapsto> \<lparr>ck_cert = [ac_certificate_der cr], ck_key = kr\<rparr>,
                         wildcard_domain s \<mapsto> \<lparr>ck_cert = [ac_certificate_der cw], ck_key = kw\<rparr>]"
proof -
  obtain s1 where s1: "renew_cert env request io_ok (root_domain s) s = Return (Ok (), s1)"
    "store_certs s1 = (store_certs s)(root_domain s \<mapsto> \<lparr>ck_cert = [ac_certificate_der cr], ck_key = kr\<rparr>)"
    "store_domain s1 = store_domain s"
    using renew_cert_Ok [of request "root_domain s" cr env kr io_ok s] assms by blast
  obtain s2 where s2: "renew_cert env request io_ok (wildcard_domain s) s1 = Return (Ok (), s2)"
    "store_certs s2 = (store_certs s1)(wildcard_domain s \<mapsto> \<lparr>ck_cert = [ac_certificate_der cw], ck_key = kw\<rparr>)"
    "store_domain s2 = store_domain s1"
    using renew_cert_Ok [of request "wildcard_domain s" cw env kw io_ok s1] assms by blast
  have "should_renew_cert env 2 s (root_domain s) = Return True"
    "should_renew_cert env 3 s1 (wildcard_domain s) = Return True"
    using assms(1) s1(2) domain_ne_wildcard [of s] by (simp_all add: should_renew_cert_def root_domain_def)
  then have "renew env request io_ok s = Return (Ok (), s2)"
    using assms(1) s1(1) s2(1) by (simp add: renew_def should_renew_missing)
  then show ?thesis
    using assms(1) s1 s2 by simp
qed

lemma write_file_empty [simp]: "write_file n d [] = [(n, Some d)]"
  by simp

section \<open>Properties\<close>

text \<open>
  C32. Reading the expiration of a certificate file always ends, given a parser that consumes
  input. It is an error exactly where some certificate of the chain does not parse, wherever in
  the chain; otherwise the whole chain was read, and the result is the earliest end of validity
  in it, capped at the last date.
\<close>

theorem cert_expiration_reads_chain:
  assumes "consuming from_der"
  shows "(cert_expiration from_der d = Return (Inl ()) \<longleftrightarrow> der_broken from_der d)
    \<and> (\<not> der_broken from_der d \<longleftrightarrow> (\<exists>ts. der_chain from_der d ts))
    \<and> (\<forall>ts. der_chain from_der d ts
         \<longrightarrow> cert_expiration from_der d = Return (Inr (Min (insert DATE_MAX_MIDNIGHT (set ts)))))"
proof -
  have "cert_expiration from_der d = Return (Inl ())" if "der_broken from_der d"
    using cert_expiration_loop_broken [OF that] by (simp add: cert_expiration_def)
  then show ?thesis
    using der_chain_or_broken [OF assms, of d] der_chain_unbroken [of from_der d]
      cert_expiration_chain [of from_der d] by auto
qed

definition byte_der :: der_parser where
  "byte_der d = (case d of [] \<Rightarrow> None | x # xs \<Rightarrow> Some (xs, uint x))"

lemma byte_der_consuming: "consuming byte_der"
  by (auto simp: consuming_def byte_der_def split: list.splits)

definition marked_der :: der_parser where
  "marked_der d = (case d of [] \<Rightarrow> None | x # xs \<Rightarrow> if x = 0 then None else Some (xs, uint x))"

theorem cert_expiration_reads_chain_witness:
  "cert_expiration byte_der [9, 4, 7] = Return (Inr 4) \<and> cert_expiration marked_der [9, 4, 0] = Return (Inl ())"
proof
  have "der_chain byte_der [9, 4, 7] [9, 4, 7]"
    by (intro der_chain.intros) (auto simp: byte_der_def intro!: der_chain.intros)
  then have "cert_expiration byte_der [9, 4, 7] = Return (Inr (Min (insert DATE_MAX_MIDNIGHT (set [9, 4, 7]))))"
    using cert_expiration_reads_chain [OF byte_der_consuming, of "[9, 4, 7]"] by blast
  then show "cert_expiration byte_der [9, 4, 7] = Return (Inr 4)" by (simp add: DATE_MAX_MIDNIGHT_def)
next
  have "consuming marked_der" by (auto simp: consuming_def marked_der_def split: list.splits if_splits)
  moreover have "der_broken marked_der [9, 4, 0]"
    by (rule bad_later [of _ _ "[4, 0]" 9], simp add: marked_der_def, simp,
        rule bad_later [of _ _ "[0]" 4], simp add: marked_der_def, simp, rule bad_cert) (simp add: marked_der_def)
  ultimately show "cert_expiration marked_der [9, 4, 0] = Return (Inl ())"
    using cert_expiration_reads_chain [of marked_der "[9, 4, 0]"] by blast
qed

text \<open>
  Every certificate that loading the directory puts into an empty store belongs to a named
  domain and stays valid for at least a day after its file was read, whatever the files hold
  and even where loading stops at a broken one.
\<close>

theorem store_load_fresh:
  assumes "store_load env (store_new dir domain) = Return (r, s')"
    and "store_certs s' d = Some c"
  shows "fresh_entry env MINIMUM_CERT_LOAD_DURATION d c"
proof (cases dir)
  case None
  then show ?thesis
    using assms by (auto simp: store_load_def store_new_def)
next
  case (Some fs)
  then have "load_files env 0 fs (store_new dir domain) = Return (r, s')"
    using assms(1) by (simp add: store_load_def store_new_def)
  from load_files_fresh [OF this assms(2)] show ?thesis
    by (simp add: store_new_def)
qed

text \<open>
  The file names of two domains are equal only where the lower-cased domains are: a
  wildcard certificate never overwrites the certificate of another domain.
\<close>

theorem cert_filename_inject:
  assumes "\<And>s. CHR ''S'' \<notin> set (lc s)"
  shows "cert_filename lc a = cert_filename lc b \<longleftrightarrow> lc a = lc b"
  using assms cert_filename_decode [of "lc a" "lc b"] by (auto simp: cert_filename_def)

lemma ascii_lower_no_S: "CHR ''S'' \<notin> set (map ascii_lower s)"
proof
  assume "CHR ''S'' \<in> set (map ascii_lower s)"
  then obtain c where c: "ascii_lower c = CHR ''S''" by auto
  have "ascii_lower (ascii_lower c) = ascii_lower c" by simp
  then have "ascii_lower (CHR ''S'') = CHR ''S''"
    unfolding c .
  moreover have "ascii_lower (CHR ''S'') \<noteq> CHR ''S''" by code_simp
  ultimately show False by contradiction
qed

theorem cert_filename_inject_witness:
  "(\<forall>s. CHR ''S'' \<notin> set (map ascii_lower s))
   \<and> cert_filename (map ascii_lower) ''*.a'' \<noteq> cert_filename (map ascii_lower) ''STAR.a''"
proof -
  have "map ascii_lower ''*.a'' \<noteq> map ascii_lower ''STAR.a''" by simp
  then show ?thesis
    using cert_filename_inject [of "map ascii_lower", OF ascii_lower_no_S] ascii_lower_no_S by blast
qed

text \<open>
  C33. A renewal that starts with no certificate and obtains both leaves a store that answers a
  client hello for any direct subdomain with the wildcard certificate, and a hello for the
  domain itself, or without a name, with the root certificate.
\<close>

theorem renew_then_resolve:
  assumes "store_certs s = Map.empty" "store_domain s \<noteq> []"
    and "request (root_domain s) = Return (Some cr)" "ce_supported_key env (ac_private_key_der cr) = Some kr"
    and "request (wildcard_domain s) = Return (Some cw)" "ce_supported_key env (ac_private_key_der cw) = Some kw"
  shows "\<exists>s'. renew env request io_ok s = Return (Ok (), s')
     \<and> (\<forall>label. dot \<notin> set label \<longrightarrow>
          resolve s' (Some (label @ dot # store_domain s)) =
            Some \<lparr>ck_cert = [ac_certificate_der cw], ck_key = kw\<rparr>)
     \<and> resolve s' (Some (store_domain s)) = Some \<lparr>ck_cert = [ac_certificate_der cr], ck_key = kr\<rparr>
     \<and> resolve s' None = Some \<lparr>ck_cert = [ac_certificate_der cr], ck_key = kr\<rparr>"
proof -
  obtain s' where s': "renew env request io_ok s = Return (Ok (), s')" "store_domain s' = store_domain s"
    "store_certs s' = [root_domain s \<mapsto> \<lparr>ck_cert = [ac_certificate_der cr], ck_key = kr\<rparr>,
                       wildcard_domain s \<mapsto> \<lparr>ck_cert = [ac_certificate_der cw], ck_key = kw\<rparr>]"
    using renew_empty [OF assms(1) assms(3-6), of io_ok] by blast
  have w: "wildcard_domain s' = wildcard_domain s" "root_domain s = store_domain s'"
    using s'(2) by (simp_all add: wildcard_domain_def root_domain_def)
  have l: "resolve s' (Some (label @ dot # store_domain s)) =
       Some \<lparr>ck_cert = [ac_certificate_der cw], ck_key = kw\<rparr>" if "dot \<notin> set label" for label
    using resolve_label [OF that, of s'] s' w by simp
  have c: "store_certs s' = [store_domain s' \<mapsto> \<lparr>ck_cert = [ac_certificate_der cr], ck_key = kr\<rparr>,
                       wildcard_domain s' \<mapsto> \<lparr>ck_cert = [ac_certificate_der cw], ck_key = kw\<rparr>]"
    using s'(3) w by simp
  show ?thesis
    using s'(1,2) l resolve_apex [OF c] assms(2) by auto
qed

definition sample_env :: "unit cert_env" where
  "sample_env = \<lparr>ce_from_der = byte_der, ce_supported_key = (\<lambda>_. Some ()),
     ce_to_json = (\<lambda>c. if c = \<lparr>st_domain = ''a'', st_private_key_der = [1], st_certificate_der = [9]\<rparr>
                       then Some ''x'' else None),
     ce_from_json = (\<lambda>_. Some \<lparr>st_domain = ''a'', st_private_key_der = [1], st_certificate_der = [9]\<rparr>),
     ce_lc = map ascii_lower, ce_clock = (\<lambda>_. - 86400)\<rparr>"

definition sample_cert :: acme_certificate where
  "sample_cert = \<lparr>ac_private_key_der = [1], ac_certificate_der = [9]\<rparr>"

theorem renew_then_resolve_witness:
  "\<exists>s'. renew sample_env (\<lambda>_. Return (Some sample_cert)) True (store_new None ''a'') = Return (Ok (), s')
     \<and> resolve s' (Some ''b.a'') = Some \<lparr>ck_cert = [[9]], ck_key = ()\<rparr>"
proof -
  let ?s = "store_new None ''a'' :: unit store"
  have h: "store_certs ?s = Map.empty" "store_domain ?s = ''a''" "store_domain ?s \<noteq> []"
    "ce_supported_key sample_env (ac_private_key_der sample_cert) = Some ()"
    "ac_certificate_der sample_cert = [9]"
    by (simp_all add: store_new_def sample_env_def sample_cert_def)
  obtain s' where s': "renew sample_env (\<lambda>_. Return (Some sample_cert)) True ?s = Return (Ok (), s')"
    and l: "\<forall>label. dot \<notin> set label \<longrightarrow>
      resolve s' (Some (label @ dot # store_domain ?s)) = Some \<lparr>ck_cert = [[9]], ck_key = ()\<rparr>"
    using renew_then_resolve [OF h(1) h(3) _ h(4) _ h(4), of "\<lambda>_. Return (Some sample_cert)" True] h(5) by auto
  have "resolve s' (Some ''b.a'') = Some \<lparr>ck_cert = [[9]], ck_key = ()\<rparr>"
    using l [rule_format, of "''b''"] h(2) by simp
  with s' show ?thesis by blast
qed

text \<open>
  A certificate that was stored is found again after a restart: loading the directory that
  \<open>update_cert\<close> wrote rebuilds exactly the store, where the certificate still has a day to go.
\<close>

theorem update_then_load:
  assumes json: "\<And>c d. ce_to_json env c = Some d \<Longrightarrow> ce_from_json env d = Some c"
    and "ce_to_json env \<lparr>st_domain = dn, st_private_key_der = ac_private_key_der cert,
                         st_certificate_der = ac_certificate_der cert\<rparr> \<noteq> None"
    and "dn \<noteq> []" "ac_private_key_der cert \<noteq> []" "ac_certificate_der cert \<noteq> []"
    and "cert_expiration (ce_from_der env) (ac_certificate_der cert) = Return (Inr e)"
    and "ce_clock env 0 + MINIMUM_CERT_LOAD_DURATION \<le> e"
    and up: "update_cert env True dn cert (store_new None domain) = Return s'"
  shows "store_load env (store_new (store_dir s') domain) = Return (Ok (), s')"
proof -
  let ?c = "\<lparr>st_domain = dn, st_private_key_der = ac_private_key_der cert,
             st_certificate_der = ac_certificate_der cert\<rparr>"
  obtain d where d: "ce_to_json env ?c = Some d" "ce_from_json env d = Some ?c"
    using assms(2) json by blast
  have "\<not> e < ce_clock env 0 + MINIMUM_CERT_LOAD_DURATION"
    using assms(7) by simp
  then show ?thesis
    using up d assms(3-6)
    by (auto simp: update_cert_def bind_outcome_Return store_add_Return store_cert_def store_new_def
        store_load_def load_file_def stored_cert_validate_def)
qed

theorem update_then_load_witness:
  "\<exists>s'. update_cert sample_env True ''a'' sample_cert (store_new None ''a'') = Return s'
     \<and> store_load sample_env (store_new (store_dir s') ''a'') = Return (Ok (), s')
     \<and> store_certs s' ''a'' \<noteq> None"
proof -
  let ?r = "update_cert sample_env True ''a'' sample_cert (store_new None ''a'')"
  have e: "cert_expiration byte_der [9] = Return (Inr (9 :: int))"
    by (simp add: cert_expiration_def byte_der_def cert_expiration_loop.simps DATE_MAX_MIDNIGHT_def)
  obtain s' where s': "?r = Return s'" "store_certs s' ''a'' \<noteq> None"
    using update_cert_certs [of sample_env sample_cert "()" True "''a''" "store_new None ''a''"]
    by (auto simp: sample_env_def)
  have "store_load sample_env (store_new (store_dir s') ''a'') = Return (Ok (), s')"
  proof (rule update_then_load [where env = sample_env and e = 9, OF _ _ _ _ _ _ _ s'(1)])
    show "ce_from_json sample_env d = Some c" if "ce_to_json sample_env c = Some d" for c d
      using that by (simp add: sample_env_def split: if_splits)
  qed (use e in \<open>simp_all add: sample_env_def sample_cert_def MINIMUM_CERT_LOAD_DURATION_def\<close>)
  with s' show ?thesis by blast
qed

theorem store_load_fresh_witness:
  "\<exists>s'. store_load sample_env (store_new (Some [(''x'', Some ''x'')]) ''a'') = Return (Ok (), s')
     \<and> store_certs s' ''a'' = Some \<lparr>ck_cert = [[9]], ck_key = ()\<rparr>
     \<and> fresh_entry sample_env MINIMUM_CERT_LOAD_DURATION ''a'' \<lparr>ck_cert = [[9]], ck_key = ()\<rparr>"
proof -
  let ?s = "store_new (Some [(''x'', Some ''x'')]) ''a'' :: unit store"
  let ?s' = "?s\<lparr>store_certs := [''a'' \<mapsto> \<lparr>ck_cert = [[9]], ck_key = ()\<rparr>]\<rparr>"
  have "cert_expiration byte_der [9] = Return (Inr (9 :: int))"
    by (simp add: cert_expiration_def byte_der_def cert_expiration_loop.simps DATE_MAX_MIDNIGHT_def)
  then have l: "store_load sample_env ?s = Return (Ok (), ?s')"
    by (simp add: store_load_def store_new_def load_file_def sample_env_def stored_cert_validate_def
        MINIMUM_CERT_LOAD_DURATION_def store_add_def bind_outcome_Return)
  have "store_certs ?s' ''a'' = Some \<lparr>ck_cert = [[9]], ck_key = ()\<rparr>" by simp
  with l store_load_fresh [OF l this] show ?thesis by blast
qed

end
