(* ===== verification/Hostname.thy ===== *)
theory Hostname
  imports Nport_Prelude
begin

text \<open>
  \<open>nport-server/src/server/hostname.rs\<close>: the validity check of host names, and the equivalence
  with the usual grammar of host names (labels of letters, digits and inner hyphens).
\<close>

section \<open>The check\<close>

definition is_ascii_alphanumeric :: "char \<Rightarrow> bool" where
  "is_ascii_alphanumeric c =
     (let n = (of_char c :: nat)
      in 48 \<le> n \<and> n \<le> 57 \<or> 65 \<le> n \<and> n \<le> 90 \<or> 97 \<le> n \<and> n \<le> 122)"

definition is_valid_char :: "char \<Rightarrow> bool" where
  "is_valid_char c \<longleftrightarrow> is_ascii_alphanumeric c \<or> c = CHR ''-'' \<or> c = CHR ''.''"

definition hostname_is_valid :: "string \<Rightarrow> bool" where
  "hostname_is_valid hostname \<longleftrightarrow>
     \<not> (list_ex (\<lambda>c. \<not> is_valid_char c) hostname
        \<or> list_ex (\<lambda>label. label = [] \<or> 63 < length label \<or> starts_with ''-'' label \<or> ends_with ''-'' label)
            (split_on dot hostname)
        \<or> hostname = [] \<or> 253 < length hostname)"

section \<open>The grammar\<close>

definition valid_label :: "string \<Rightarrow> bool" where
  "valid_label l \<longleftrightarrow>
     1 \<le> length l \<and> length l \<le> 63 \<and> (\<forall>c \<in> set l. is_ascii_alphanumeric c \<or> c = CHR ''-'')
     \<and> hd l \<noteq> CHR ''-'' \<and> last l \<noteq> CHR ''-''"

lemma starts_with_char: "starts_with [c] s \<longleftrightarrow> s \<noteq> [] \<and> hd s = c"
  by (cases s) (auto simp: starts_with_iff)

lemma ends_with_char: "ends_with [c] s \<longleftrightarrow> s \<noteq> [] \<and> last s = c"
  by (metis append_butlast_last_id ends_with_iff last_snoc snoc_eq_iff_butlast)

lemma join_with_set: "c \<in> set (join_with s ls) \<Longrightarrow> c = s \<or> (\<exists>l \<in> set ls. c \<in> set l)"
  by (induction s ls rule: join_with.induct) auto

lemma dot_not_alnum [simp]: "\<not> is_ascii_alphanumeric dot"
  by (simp add: is_ascii_alphanumeric_def)

lemma colon_not_alnum [simp]: "\<not> is_ascii_alphanumeric colon"
  by (simp add: is_ascii_alphanumeric_def)

lemma hostname_is_valid_labels:
  "hostname_is_valid h \<longleftrightarrow> length h \<le> 253 \<and> (\<forall>l \<in> set (split_on dot h). valid_label l)"
proof
  assume v: "hostname_is_valid h"
  have "valid_label l" if l: "l \<in> set (split_on dot h)" for l
  proof -
    have "set l \<subseteq> set h" "dot \<notin> set l"
      using l split_on_set split_on_parts_no_sep by blast+
    then have "\<forall>c \<in> set l. is_ascii_alphanumeric c \<or> c = CHR ''-''"
      using v by (auto simp: hostname_is_valid_def list_ex_iff is_valid_char_def)
    then show ?thesis
      using v l by (auto simp: hostname_is_valid_def list_ex_iff valid_label_def starts_with_char
          ends_with_char Suc_le_eq)
  qed
  then show "length h \<le> 253 \<and> (\<forall>l \<in> set (split_on dot h). valid_label l)"
    using v by (simp add: hostname_is_valid_def)
next
  assume v: "length h \<le> 253 \<and> (\<forall>l \<in> set (split_on dot h). valid_label l)"
  have "is_valid_char c" if "c \<in> set h" for c
  proof -
    have "c \<in> set (join_with dot (split_on dot h))"
      using that by (simp add: join_split_on)
    then show ?thesis
      using v join_with_set [of c dot "split_on dot h"] by (auto simp: valid_label_def is_valid_char_def)
  qed
  moreover have "h \<noteq> []"
    using v by (auto simp: valid_label_def)
  ultimately show "hostname_is_valid h"
    using v by (auto simp: hostname_is_valid_def list_ex_iff valid_label_def starts_with_char ends_with_char)
qed

lemma hostname_is_valid_no_colon: "hostname_is_valid h \<Longrightarrow> colon \<notin> set h"
  by (auto simp: hostname_is_valid_def list_ex_iff is_valid_char_def)

lemma hostname_is_valid_ne: "hostname_is_valid h \<Longrightarrow> h \<noteq> []"
  by (simp add: hostname_is_valid_def)

section \<open>Properties\<close>

text \<open>
  C31. The byte scan of \<open>is_valid\<close> decides the grammar of host names: one or more labels joined by
  dots, each of 1 to 63 letters, digits and inner hyphens, at most 253 characters in all. No
  name in it has a colon, an underscore, a space, or an empty label at either end.
\<close>

theorem hostname_grammar:
  "hostname_is_valid h =
     (length h \<le> 253 \<and> (\<exists>ls. ls \<noteq> [] \<and> h = join_with dot ls \<and> list_all valid_label ls))"
proof
  assume v: "hostname_is_valid h"
  then have "h = join_with dot (split_on dot h)" "list_all valid_label (split_on dot h)"
    "split_on dot h \<noteq> []"
    by (simp_all add: join_split_on list_all_iff hostname_is_valid_labels)
  with v show "length h \<le> 253 \<and> (\<exists>ls. ls \<noteq> [] \<and> h = join_with dot ls \<and> list_all valid_label ls)"
    using hostname_is_valid_labels by blast
next
  assume "length h \<le> 253 \<and> (\<exists>ls. ls \<noteq> [] \<and> h = join_with dot ls \<and> list_all valid_label ls)"
  then obtain ls where ls: "length h \<le> 253" "ls \<noteq> []" "h = join_with dot ls" "list_all valid_label ls"
    by blast
  have "dot \<notin> set l" if "valid_label l" for l
    using that dot_not_alnum by (fastforce simp: valid_label_def)
  then have "\<forall>l \<in> set ls. dot \<notin> set l"
    using ls(4) by (auto simp: list_all_iff)
  with ls show "hostname_is_valid h"
    by (simp add: hostname_is_valid_labels split_on_join list_all_iff)
qed

end
