(* ===== verification/Stats.thy ===== *)
theory Stats
  imports Nport_Prelude
begin

text \<open>
  \<open>nport-server/src/server/stats.rs\<close>: counters of the server. An OpenTelemetry instrument is
  the list of the measurements reported to it, \<open>None\<close> where the server runs without
  telemetry; the count that the statistics page reads is a wrapping 64-bit atomic.

  Lemmas: the three readings of a counter agree with the numbers of increments and decrements.
\<close>

record counted_metric =
  cm_total :: "u64 list option"
  cm_current :: "i64 list option"
  cm_count :: i64

definition counted_metric_default :: counted_metric where
  "counted_metric_default = \<lparr>cm_total = None, cm_current = None, cm_count = 0\<rparr>"

definition counted_metric_new :: counted_metric where
  "counted_metric_new = \<lparr>cm_total = Some [], cm_current = Some [], cm_count = 0\<rparr>"

definition metric_add :: "i64 \<Rightarrow> counted_metric \<Rightarrow> counted_metric" where
  "metric_add value m =
     m\<lparr>cm_total := (if 0 < sint value then map_option (\<lambda>l. l @ [value]) (cm_total m) else cm_total m),
       cm_current := map_option (\<lambda>l. l @ [value]) (cm_current m),
       cm_count := cm_count m + value\<rparr>"

definition metric_inc :: "counted_metric \<Rightarrow> counted_metric" where
  "metric_inc = metric_add 1"

definition metric_dec :: "counted_metric \<Rightarrow> counted_metric" where
  "metric_dec = metric_add (- 1)"

definition metric_get :: "counted_metric \<Rightarrow> i64" where
  "metric_get m = cm_count m"

record stats =
  st_http_requests_total :: "u64 list option"
  st_client_connections :: counted_metric
  st_http_hostnames :: counted_metric
  st_tcp_ports :: counted_metric

definition stats_default :: stats where
  "stats_default = \<lparr>st_http_requests_total = None, st_client_connections = counted_metric_default,
     st_http_hostnames = counted_metric_default, st_tcp_ports = counted_metric_default\<rparr>"

definition stats_new :: stats where
  "stats_new = \<lparr>st_http_requests_total = Some [], st_client_connections = counted_metric_new,
     st_http_hostnames = counted_metric_new, st_tcp_ports = counted_metric_new\<rparr>"

definition stats_http_request :: "stats \<Rightarrow> stats" where
  "stats_http_request s =
     s\<lparr>st_http_requests_total := map_option (\<lambda>l. l @ [1]) (st_http_requests_total s)\<rparr>"

datatype metric_op = MInc | MDec

fun apply_metric_op :: "metric_op \<Rightarrow> counted_metric \<Rightarrow> counted_metric" where
  "apply_metric_op MInc m = metric_inc m"
| "apply_metric_op MDec m = metric_dec m"

definition net_count :: "metric_op list \<Rightarrow> int" where
  "net_count ops = int (count_list ops MInc) - int (count_list ops MDec)"

lemma cm_count_fold: "cm_count (fold apply_metric_op ops m) = cm_count m + of_int (net_count ops)"
proof (induction ops arbitrary: m)
  case (Cons x ops)
  then show ?case
    by (cases x) (simp_all add: net_count_def metric_inc_def metric_dec_def metric_add_def)
qed (simp add: net_count_def)

lemma cm_total_fold:
  "cm_total m = Some l \<Longrightarrow>
   cm_total (fold apply_metric_op ops m) = Some (l @ replicate (count_list ops MInc) 1)"
proof (induction ops arbitrary: m l)
  case (Cons x ops)
  show ?case
  proof (cases x)
    case MInc
    then show ?thesis
      using Cons.IH [of "metric_inc m" "l @ [1]"] Cons.prems
      by (simp add: metric_inc_def metric_add_def)
  next
    case MDec
    then show ?thesis
      using Cons.IH [of "metric_dec m" l] Cons.prems
      by (simp add: metric_dec_def metric_add_def)
  qed
qed simp

lemma cm_current_fold:
  "cm_current m = Some l \<Longrightarrow>
   cm_current (fold apply_metric_op ops m) = Some (l @ map (\<lambda>x. case x of MInc \<Rightarrow> 1 | MDec \<Rightarrow> - 1) ops)"
proof (induction ops arbitrary: m l)
  case (Cons x ops)
  then show ?case
    by (cases x) (simp_all add: metric_inc_def metric_dec_def metric_add_def)
qed simp

lemma net_count_bound: "\<bar>net_count ops\<bar> \<le> int (length ops)"
proof (induction ops)
  case (Cons x ops)
  then show ?case by (cases x) (auto simp: net_count_def)
qed (simp add: net_count_def)

lemma sint_of_int_small: "\<bar>i\<bar> < 2 ^ 63 \<Longrightarrow> sint (of_int i :: i64) = i"
  by (auto simp: signed_of_int signed_take_bit_int_eq_self_iff)

text \<open>
  After any sequence of fewer than 2^63 increments and decrements, a counter that starts at
  zero shows their difference on the statistics page, has reported one total measurement of one
  per increment, and one measurement per operation to the up-down counter.
\<close>

theorem counted_metric_agrees:
  assumes "length ops < 2 ^ 63"
  shows "sint (metric_get (fold apply_metric_op ops counted_metric_new)) = net_count ops
     \<and> cm_total (fold apply_metric_op ops counted_metric_new) = Some (replicate (count_list ops MInc) 1)
     \<and> cm_current (fold apply_metric_op ops counted_metric_new) =
         Some (map (\<lambda>x. case x of MInc \<Rightarrow> 1 | MDec \<Rightarrow> - 1) ops)"
proof -
  have "int (length ops) < 2 ^ 63"
    using assms by (metis of_nat_less_iff of_nat_numeral of_nat_power)
  then have "\<bar>net_count ops\<bar> < 2 ^ 63"
    using net_count_bound [of ops] by linarith
  then show ?thesis
    using cm_total_fold [of counted_metric_new "[]" ops] cm_current_fold [of counted_metric_new "[]" ops]
    by (simp add: metric_get_def cm_count_fold sint_of_int_small counted_metric_new_def)
qed

theorem counted_metric_agrees_witness:
  "length [MInc, MInc, MDec] < 2 ^ 63
   \<and> sint (metric_get (fold apply_metric_op [MInc, MInc, MDec] counted_metric_new)) = 1"
proof -
  have "length [MInc, MInc, MDec] < 2 ^ 63" by simp
  from counted_metric_agrees [OF this] show ?thesis by (simp add: net_count_def)
qed

end
