(* ===== verification/Config.thy ===== *)
theory Config
  imports Cert_Store Hostname Std_Net Stats
begin

text \<open>
  \<open>nport-server/src/server/config.rs\<close>: the server configuration, the host names derived
  from it, and the checks that stand between a configuration and a running server.
  \<open>str::to_lowercase\<close> follows Unicode's case tables, which are no part of the program: it is
  the parameter \<open>lc\<close>, of which theorems assume at most what is documented.

  Lemmas: block lists are made of clean entries, the used and blocked subdomains do not depend
  on case, and a configuration that passes the checks gives a server that cannot hit the
  \<open>expect\<close> on the certificate store.
\<close>

section \<open>\<open>str::trim\<close> and \<open>StringList\<close>\<close>

text \<open>The UTF-8 encodings of the characters with the \<open>White_Space\<close> property.\<close>

definition white_space :: "string list" where
  "white_space =
    [[CHR 0x09], [CHR 0x0A], [CHR 0x0B], [CHR 0x0C], [CHR 0x0D], [CHR 0x20],
     [CHR 0xC2, CHR 0x85], [CHR 0xC2, CHR 0xA0], [CHR 0xE1, CHR 0x9A, CHR 0x80],
     [CHR 0xE2, CHR 0x80, CHR 0x80], [CHR 0xE2, CHR 0x80, CHR 0x81],
     [CHR 0xE2, CHR 0x80, CHR 0x82], [CHR 0xE2, CHR 0x80, CHR 0x83],
     [CHR 0xE2, CHR 0x80, CHR 0x84], [CHR 0xE2, CHR 0x80, CHR 0x85],
     [CHR 0xE2, CHR 0x80, CHR 0x86], [CHR 0xE2, CHR 0x80, CHR 0x87],
     [CHR 0xE2, CHR 0x80, CHR 0x88], [CHR 0xE2, CHR 0x80, CHR 0x89],
     [CHR 0xE2, CHR 0x80, CHR 0x8A], [CHR 0xE2, CHR 0x80, CHR 0xA8],
     [CHR 0xE2, CHR 0x80, CHR 0xA9], [CHR 0xE2, CHR 0x80, CHR 0xAF],
     [CHR 0xE2, CHR 0x81, CHR 0x9F], [CHR 0xE3, CHR 0x80, CHR 0x80]]"

fun strip_any :: "string list \<Rightarrow> string \<Rightarrow> string option" where
  "strip_any [] s = None"
| "strip_any (w # ws) s = (if w \<noteq> [] \<and> strip_prefix w s \<noteq> None then strip_prefix w s else strip_any ws s)"

lemma strip_any_shorter: "strip_any ws s = Some r \<Longrightarrow> length r < length s"
  by (induction ws) (auto simp: strip_prefix_Some split: if_splits)

function trim_with :: "string list \<Rightarrow> string \<Rightarrow> string" where
  "trim_with ws s = (case strip_any ws s of Some r \<Rightarrow> trim_with ws r | None \<Rightarrow> s)"
  by pat_completeness auto
termination
  by (relation "measure (\<lambda>(ws, s). length s)") (auto dest: strip_any_shorter)

declare trim_with.simps [simp del]

definition trim :: "string \<Rightarrow> string" where
  "trim s = rev (trim_with (map rev white_space) (rev (trim_with white_space s)))"

definition string_list_from_str :: "string \<Rightarrow> string list" where
  "string_list_from_str s =
     filter (\<lambda>s. s \<noteq> []) (map trim (split_on (CHR '','') (trim s)))"

section \<open>\<open>Listen\<close>, \<open>Hostnames\<close>, \<open>Options\<close>\<close>

record listen =
  listen_address :: ip_addr
  listen_http :: u16
  listen_https :: u16

record hostnames =
  hn_domain :: string
  hn_api :: string
  hn_tcp :: string
  hn_api_hostname :: string
  hn_tcp_hostname :: string
  hn_subdomain_blocklist :: "string list"

record options =
  opt_client_request_timeout_secs :: u16
  opt_send_welcome_message :: bool

definition normalize_subdomain :: "(string \<Rightarrow> string) \<Rightarrow> string \<Rightarrow> string" where
  "normalize_subdomain lc subdomain = lc subdomain"

definition new_hostname :: "string \<Rightarrow> string \<Rightarrow> string" where
  "new_hostname domain host = (if host = [] then domain else host @ dot # domain)"

definition hostnames_new ::
  "(string \<Rightarrow> string) \<Rightarrow> string \<Rightarrow> string option \<Rightarrow> string option \<Rightarrow> string list option \<Rightarrow> hostnames" where
  "hostnames_new lc domain api tcp blocklist =
     (let api = normalize_subdomain lc (case api of Some s \<Rightarrow> s | None \<Rightarrow> []);
          tcp = normalize_subdomain lc (case tcp of Some s \<Rightarrow> s | None \<Rightarrow> [])
      in \<lparr>hn_domain = domain, hn_api = api, hn_tcp = tcp,
          hn_api_hostname = new_hostname domain api,
          hn_tcp_hostname = new_hostname domain tcp,
          hn_subdomain_blocklist =
            map (normalize_subdomain lc) (case blocklist of Some l \<Rightarrow> l | None \<Rightarrow> [])\<rparr>)"

definition main_hostname :: "hostnames \<Rightarrow> string" where
  "main_hostname h = hn_domain h"

definition is_subdomain_used :: "(string \<Rightarrow> string) \<Rightarrow> hostnames \<Rightarrow> string \<Rightarrow> bool" where
  "is_subdomain_used lc h subdomain \<longleftrightarrow>
     (let subdomain = normalize_subdomain lc subdomain
      in subdomain = hn_api h \<or> subdomain = hn_tcp h)"

definition is_subdomain_blocked :: "(string \<Rightarrow> string) \<Rightarrow> hostnames \<Rightarrow> string \<Rightarrow> bool" where
  "is_subdomain_blocked lc h subdomain \<longleftrightarrow>
     (let subdomain = normalize_subdomain lc subdomain
      in list_ex (\<lambda>item. item = subdomain) (hn_subdomain_blocklist h))"

section \<open>\<open>Config\<close>\<close>

text \<open>The environment variables, as \<open>envconfig\<close> delivers them.\<close>

record config =
  cfg_production :: bool
  cfg_bind_address :: string
  cfg_http_port :: u16
  cfg_https_port :: u16
  cfg_domain :: string
  cfg_api_subdomain :: string
  cfg_tcp_subdomain :: string
  cfg_subdomain_blocklist :: "string list"
  cfg_certs_dir :: string
  cfg_acme_email :: string
  cfg_acme_persist_dir :: string
  cfg_acme_domain :: string
  cfg_acme_staging :: bool
  cfg_cloudflare_zone_id :: string
  cfg_cloudflare_api_token :: string
  cfg_client_request_timeout_secs :: u16
  cfg_send_welcome_message :: bool
  cfg_otel_service_name :: string
  cfg_otel_otlp_endpoint :: string
  cfg_otel_otlp_headers :: string

datatype config_error =
    Missing_http_port | Missing_https_port | Missing_domain | Missing_certs_dir
  | Missing_acme_email | Missing_acme_domain | Acme_staging
  | Missing_cloudflare_zone_id | Missing_cloudflare_api_token
  | Https_without_certificates | Bad_bind_address | Certificates store_error

definition has_acme :: "config \<Rightarrow> bool" where
  "has_acme c \<longleftrightarrow> cfg_acme_email c \<noteq> [] \<and> cfg_acme_persist_dir c \<noteq> [] \<and> cfg_acme_domain c \<noteq> []"

definition has_cloudflare :: "config \<Rightarrow> bool" where
  "has_cloudflare c \<longleftrightarrow> cfg_cloudflare_zone_id c \<noteq> [] \<and> cfg_cloudflare_api_token c \<noteq> []"

text \<open>The third \<open>if\<close> of the source only logs: it has no \<open>return\<close>.\<close>

definition enable_cert_store :: "config \<Rightarrow> bool" where
  "enable_cert_store c =
     (if \<not> has_acme c then False
      else if cfg_certs_dir c = [] then False
      else (if \<not> has_cloudflare c then True else True))"

text \<open>\<open>read_dir d\<close>: the directory of that name. The generator is the ACME exchange (\<open>renew\<close>).\<close>

definition config_cert_store ::
  "'k cert_env \<Rightarrow> (string \<Rightarrow> files option) \<Rightarrow> config \<Rightarrow> (config_error + 'k store option) outcome" where
  "config_cert_store env read_dir c =
     (if enable_cert_store c
      then bind_outcome (store_load env (store_new (read_dir (cfg_certs_dir c)) (cfg_acme_domain c))) (\<lambda>(r, s).
             case r of Inl e \<Rightarrow> Return (Err (Certificates e)) | Inr _ \<Rightarrow> Return (Ok (Some s)))
      else if 0 < cfg_https_port c then Return (Err Https_without_certificates)
      else Return (Ok None))"

definition production_check :: "config \<Rightarrow> config_error + unit" where
  "production_check c =
     (if cfg_http_port c = 0 then Err Missing_http_port
      else if cfg_https_port c = 0 then Err Missing_https_port
      else if cfg_domain c = [] then Err Missing_domain
      else if cfg_certs_dir c = [] then Err Missing_certs_dir
      else if cfg_acme_email c = [] then Err Missing_acme_email
      else if cfg_acme_domain c = [] then Err Missing_acme_domain
      else if cfg_acme_staging c then Err Acme_staging
      else if cfg_cloudflare_zone_id c = [] then Err Missing_cloudflare_zone_id
      else if cfg_cloudflare_api_token c = [] then Err Missing_cloudflare_api_token
      else Ok ())"

text \<open>\<open>Server\<close> of \<open>implementation.rs\<close>; a shutdown channel is \<open>True\<close> once its sender is stored.\<close>

record 'k server =
  srv_listen :: listen
  srv_hostnames :: hostnames
  srv_cert_store :: "'k store option"
  srv_http_shutdown :: bool
  srv_https_shutdown :: bool
  srv_stats :: stats
  srv_options :: options

definition server_new ::
  "listen \<Rightarrow> hostnames \<Rightarrow> 'k store option \<Rightarrow> stats \<Rightarrow> options \<Rightarrow> 'k server" where
  "server_new l h cs st opts =
     \<lparr>srv_listen = l, srv_hostnames = h, srv_cert_store = cs, srv_http_shutdown = False,
      srv_https_shutdown = False, srv_stats = st, srv_options = opts\<rparr>"

definition config_server ::
  "'k cert_env \<Rightarrow> (string \<Rightarrow> files option) \<Rightarrow> config \<Rightarrow> stats option \<Rightarrow> (config_error + 'k server) outcome" where
  "config_server env read_dir c st =
     (case (if cfg_production c then production_check c else Ok ()) of
        Inl e \<Rightarrow> Return (Err e)
      | Inr _ \<Rightarrow>
          bind_outcome (config_cert_store env read_dir c) (\<lambda>r.
            case r of Inl e \<Rightarrow> Return (Err e) | Inr cert_store \<Rightarrow>
            (case ip_addr_from_str (cfg_bind_address c) of
               None \<Rightarrow> Return (Err Bad_bind_address)
             | Some address \<Rightarrow>
                 Return (Ok (server_new
                   \<lparr>listen_address = address, listen_http = cfg_http_port c, listen_https = cfg_https_port c\<rparr>
                   (hostnames_new (ce_lc env) (cfg_domain c) (Some (cfg_api_subdomain c)) (Some (cfg_tcp_subdomain c))
                      (Some (cfg_subdomain_blocklist c)))
                   cert_store
                   (case st of Some st \<Rightarrow> st | None \<Rightarrow> stats_default)
                   \<lparr>opt_client_request_timeout_secs = cfg_client_request_timeout_secs c,
                    opt_send_welcome_message = cfg_send_welcome_message c\<rparr>)))))"

section \<open>Trimming\<close>

lemma strip_any_None: "strip_any ws s = None \<longleftrightarrow> (\<forall>w \<in> set ws. w = [] \<or> \<not> starts_with w s)"
  by (induction ws) (auto simp: starts_with_def)

lemma strip_any_prefix: "strip_any ws (s @ t) = None \<Longrightarrow> strip_any ws s = None"
  by (auto simp: strip_any_None starts_with_iff)

lemma trim_with_done: "strip_any ws (trim_with ws s) = None"
  by (induction ws s rule: trim_with.induct) (simp add: trim_with.simps split: option.splits)

lemma trim_with_id: "strip_any ws s = None \<Longrightarrow> trim_with ws s = s"
  by (simp add: trim_with.simps)

lemma strip_any_suffix: "strip_any ws s = Some r \<Longrightarrow> \<exists>p. s = p @ r"
  by (induction ws) (auto simp: strip_prefix_Some split: if_splits)

lemma trim_with_suffix: "\<exists>p. s = p @ trim_with ws s"
proof (induction ws s rule: trim_with.induct)
  case (1 ws s)
  show ?case
  proof (cases "strip_any ws s")
    case (Some r)
    then obtain p q where "s = p @ r" "r = q @ trim_with ws r"
      using 1 [OF Some] strip_any_suffix [OF Some] by blast
    then have "s = (p @ q) @ trim_with ws r" by simp
    moreover have "trim_with ws s = trim_with ws r"
      using Some by (simp add: trim_with.simps [of ws s])
    ultimately show ?thesis by metis
  qed (simp add: trim_with.simps [of ws s])
qed

text \<open>A string without white space at either end.\<close>

definition trimmed :: "string \<Rightarrow> bool" where
  "trimmed s \<longleftrightarrow> strip_any white_space s = None \<and> strip_any (map rev white_space) (rev s) = None"

lemma trim_infix: "\<exists>p q. s = p @ trim s @ q"
proof -
  obtain p where p: "s = p @ trim_with white_space s"
    using trim_with_suffix by blast
  obtain q where "rev (trim_with white_space s) = q @ trim_with (map rev white_space) (rev (trim_with white_space s))"
    using trim_with_suffix by blast
  then have "trim_with white_space s = trim s @ rev q"
    unfolding trim_def by (metis rev_append rev_rev_ident)
  with p show ?thesis by metis
qed

lemma trimmed_trim: "trimmed (trim s)"
proof -
  obtain q where "rev (trim_with white_space s) = q @ trim_with (map rev white_space) (rev (trim_with white_space s))"
    using trim_with_suffix by blast
  then have "trim_with white_space s = trim s @ rev q"
    unfolding trim_def by (metis rev_append rev_rev_ident)
  then have "strip_any white_space (trim s) = None"
    using trim_with_done [of white_space s] strip_any_prefix by metis
  then show ?thesis
    by (simp add: trimmed_def trim_def trim_with_done)
qed

lemma trim_id: "trimmed s \<Longrightarrow> trim s = s"
  by (simp add: trimmed_def trim_def trim_with_id)

lemma set_trim: "set (trim s) \<subseteq> set s"
proof -
  obtain p q where s: "s = p @ trim s @ q"
    using trim_infix by blast
  have "set s = set p \<union> set (trim s) \<union> set q"
    by (subst s) auto
  then show ?thesis by blast
qed

lemma white_space_no_comma: "list_all (\<lambda>w. CHR '','' \<notin> set w) white_space"
  by (simp add: white_space_def)

definition clean_entry :: "string \<Rightarrow> bool" where
  "clean_entry e \<longleftrightarrow> e \<noteq> [] \<and> CHR '','' \<notin> set e \<and> trimmed e"

lemma starts_with_sep:
  assumes "c \<notin> set w" "starts_with w (e @ c # r)"
  shows "starts_with w e"
proof -
  obtain t where "e @ c # r = w @ t"
    using assms(2) by (auto simp: starts_with_iff)
  then consider u where "e = w @ u" | u where "e @ u = w" "u \<noteq> []" "c # r = u @ t"
    by (metis append_eq_append_conv2 append.right_neutral)
  then show ?thesis
  proof cases
    case 1
    then show ?thesis by (auto simp: starts_with_iff)
  next
    case 2
    then have "c \<in> set w" by (cases u) auto
    with assms(1) show ?thesis by contradiction
  qed
qed

lemma strip_any_sep:
  "\<lbrakk>strip_any ws e = None; \<forall>w \<in> set ws. c \<notin> set w\<rbrakk> \<Longrightarrow> strip_any ws (e @ c # r) = None"
  unfolding strip_any_None using starts_with_sep by metis

lemma trimmed_join: "\<lbrakk>es \<noteq> []; \<forall>e \<in> set es. clean_entry e\<rbrakk> \<Longrightarrow> trimmed (join_with (CHR '','') es)"
proof (induction "CHR '',''" es rule: join_with.induct)
  case (3 p q ps)
  then have j: "trimmed (join_with (CHR '','') (q # ps))" and p: "clean_entry p" by simp_all
  have nc: "\<forall>w \<in> set white_space. CHR '','' \<notin> set w"
    "\<forall>w \<in> set (map rev white_space). CHR '','' \<notin> set w"
    using white_space_no_comma by (auto simp: list_all_iff)
  have "strip_any white_space (p @ CHR '','' # join_with (CHR '','') (q # ps)) = None"
    using strip_any_sep [OF _ nc(1)] p by (simp add: clean_entry_def trimmed_def)
  moreover have "strip_any (map rev white_space)
      (rev (join_with (CHR '','') (q # ps)) @ CHR '','' # rev p) = None"
    using strip_any_sep [OF _ nc(2)] j by (simp add: trimmed_def)
  ultimately show ?case
    by (simp add: trimmed_def)
qed (simp_all add: clean_entry_def)

lemma string_list_clean:
  assumes "e \<in> set (string_list_from_str s)"
  shows "clean_entry e"
proof -
  obtain p where p: "p \<in> set (split_on (CHR '','') (trim s))" "e = trim p" "e \<noteq> []"
    using assms by (auto simp: string_list_from_str_def)
  then show ?thesis
    using set_trim [of p] split_on_parts_no_sep [OF p(1)] trimmed_trim
    by (auto simp: clean_entry_def)
qed

lemma string_list_join:
  assumes "es \<noteq> []" "\<forall>e \<in> set es. clean_entry e"
  shows "string_list_from_str (join_with (CHR '','') es) = es"
proof -
  have "split_on (CHR '','') (join_with (CHR '','') es) = es"
    using assms by (intro split_on_join) (auto simp: clean_entry_def)
  moreover have "map trim es = es"
    using assms(2) by (intro map_idI) (simp add: clean_entry_def trim_id)
  ultimately show ?thesis
    using assms by (simp add: string_list_from_str_def trim_id [OF trimmed_join] clean_entry_def
        filter_id_conv)
qed

section \<open>Properties\<close>

text \<open>
  The block list read from the environment is made of clean entries (not empty, no comma,
  no white space at either end), and every list of clean entries can be written: joined by
  commas it reads back as itself.
\<close>

theorem string_list_roundtrip:
  "(\<forall>e \<in> set (string_list_from_str s). clean_entry e)
   \<and> (es \<noteq> [] \<and> (\<forall>e \<in> set es. clean_entry e) \<longrightarrow>
        string_list_from_str (join_with (CHR '','') es) = es)"
  using string_list_clean string_list_join by blast

lemma clean_entry_samples: "\<forall>e \<in> set [''www'', ''api x'']. clean_entry e"
  by (simp add: clean_entry_def trimmed_def white_space_def)

theorem string_list_roundtrip_witness:
  "string_list_from_str ''www,api x'' = [''www'', ''api x'']"
  using string_list_roundtrip [of "[]" "[''www'', ''api x'']"] clean_entry_samples by simp

lemma config_server_parts:
  assumes "config_server env read_dir c st = Return (Ok srv)"
  obtains cs a where "(if cfg_production c then production_check c else Ok ()) = Ok ()"
    "config_cert_store env read_dir c = Return (Ok cs)"
    "srv_listen srv = \<lparr>listen_address = a, listen_http = cfg_http_port c, listen_https = cfg_https_port c\<rparr>"
    "hn_domain (srv_hostnames srv) = cfg_domain c" "srv_cert_store srv = cs"
proof -
  let ?check = "if cfg_production c then production_check c else Ok ()"
  have u: "?check = Ok ()"
    using assms by (cases ?check) (simp_all add: config_server_def)
  obtain cs where cs: "config_cert_store env read_dir c = Return (Ok cs)"
    using assms u by (auto simp: config_server_def bind_outcome_Ok)
  obtain a where "srv_listen srv = \<lparr>listen_address = a, listen_http = cfg_http_port c, listen_https = cfg_https_port c\<rparr>"
    "hn_domain (srv_hostnames srv) = cfg_domain c" "srv_cert_store srv = cs"
    using assms u cs by (auto simp: config_server_def server_new_def hostnames_new_def Let_def split: option.splits)
  with u cs show ?thesis by (rule that)
qed

lemma config_cert_store_https:
  "\<lbrakk>config_cert_store env read_dir c = Return (Ok cs); 0 < cfg_https_port c\<rbrakk> \<Longrightarrow> cs \<noteq> None \<and> has_acme c"
  by (auto simp: config_cert_store_def enable_cert_store_def bind_outcome_Return split: if_splits sum.splits)

text \<open>
  A server that a configuration produces never meets the \<open>expect\<close> on a missing
  certificate store: with an HTTPS port it has one. In production mode it has both ports, a
  domain, and the certificate settings; production mode without a directory for the ACME
  account, which the production check does not ask for, is refused all the same.
\<close>

theorem config_server_complete:
  assumes "config_server env read_dir c st = Return (Ok srv)"
  shows "(0 < listen_https (srv_listen srv) \<longrightarrow> srv_cert_store srv \<noteq> None)
     \<and> (cfg_production c \<longrightarrow>
          0 < listen_http (srv_listen srv) \<and> 0 < listen_https (srv_listen srv)
          \<and> hn_domain (srv_hostnames srv) \<noteq> [] \<and> has_acme c \<and> has_cloudflare c \<and> \<not> cfg_acme_staging c
          \<and> srv_cert_store srv \<noteq> None)"
proof -
  obtain cs a where u: "(if cfg_production c then production_check c else Ok ()) = Ok ()"
    and cs: "config_cert_store env read_dir c = Return (Ok cs)"
    and srv: "srv_listen srv = \<lparr>listen_address = a, listen_http = cfg_http_port c, listen_https = cfg_https_port c\<rparr>"
      "hn_domain (srv_hostnames srv) = cfg_domain c" "srv_cert_store srv = cs"
    using config_server_parts [OF assms] .
  note https = config_cert_store_https [OF cs]
  have "cfg_production c \<longrightarrow> 0 < cfg_http_port c \<and> 0 < cfg_https_port c \<and> cfg_domain c \<noteq> []
      \<and> has_cloudflare c \<and> \<not> cfg_acme_staging c"
    using u by (auto simp: production_check_def has_cloudflare_def word_gt_0 split: if_splits)
  then show ?thesis
    using https srv by auto
qed

definition sample_config :: config where
  "sample_config = \<lparr>cfg_production = True, cfg_bind_address = ''127.0.0.1'', cfg_http_port = 80,
     cfg_https_port = 443, cfg_domain = ''np.io'', cfg_api_subdomain = ''api'', cfg_tcp_subdomain = ''tcp'',
     cfg_subdomain_blocklist = [''www''], cfg_certs_dir = ''/certs'', cfg_acme_email = ''a@np.io'',
     cfg_acme_persist_dir = ''/acme'', cfg_acme_domain = ''np.io'', cfg_acme_staging = False,
     cfg_cloudflare_zone_id = ''z'', cfg_cloudflare_api_token = ''t'', cfg_client_request_timeout_secs = 30,
     cfg_send_welcome_message = True, cfg_otel_service_name = [], cfg_otel_otlp_endpoint = [],
     cfg_otel_otlp_headers = []\<rparr>"

lemma localhost_from_str: "ip_addr_from_str ''127.0.0.1'' = Some (V4 127 0 0 1)"
proof -
  have "ip_addr_from_str (show_v4 127 0 0 1) = Some (V4 127 0 0 1)"
    by (rule ip_addr_from_str_v4) simp_all
  moreover have "show_v4 127 0 0 1 = ''127.0.0.1''"
    unfolding show_v4_def by code_simp
  ultimately show ?thesis by simp
qed

lemma sample_config_server:
  "\<exists>srv. config_server sample_env (\<lambda>_. Some []) sample_config None = Return (Ok srv)"
  by (simp add: config_server_def production_check_def config_cert_store_def enable_cert_store_def
      has_acme_def store_load_def store_new_def sample_config_def localhost_from_str)

theorem config_server_complete_witness:
  "\<exists>srv. config_server sample_env (\<lambda>_. Some []) sample_config None = Return (Ok srv)
     \<and> srv_cert_store srv \<noteq> None \<and> has_acme sample_config"
proof -
  obtain srv where srv: "config_server sample_env (\<lambda>_. Some []) sample_config None = Return (Ok srv)"
    using sample_config_server by blast
  have "cfg_production sample_config"
    by (simp add: sample_config_def)
  then show ?thesis
    using config_server_complete [OF srv] srv by blast
qed

end
