(* ===== verification/Server_State.thy ===== *)
theory Server_State
  imports Registry Config
begin

text \<open>
  \<open>nport-server/src/server/state.rs\<close>: what all request handlers share. \<open>registry\<close> and
  \<open>stats\<close> are behind \<open>Arc\<close>s in the source; the record holds their contents, and
  \<open>with_tls\<close>, which clones the \<open>Arc\<close>s, leaves them as they are. The TCP listeners are tasks
  of the runtime, which the source does not keep anywhere; they are listed here
  (\<open>as_listeners\<close>), in the order in which they were started.

  The record \<open>listener\<close> is the task started by \<open>port_server::server\<close>: between two
  connections it accepts; while it waits for the answer of the client it holds a strong
  reference to the client object (\<open>serve_socket\<close> upgrades its \<open>Weak\<close>).
\<close>

datatype listener_phase = Accepting | Connecting string nat | Stopped

record listener =
  ls_client :: nat
  ls_port :: u16
  ls_remote_addr :: addr
  ls_closer :: "unit oneshot"
  ls_phase :: listener_phase

record app_state =
  as_registry :: registry
  as_listen :: listen
  as_hostnames :: hostnames
  as_via_tls :: bool
  as_options :: options
  as_stats :: stats
  as_listeners :: "listener list"

definition app_state_new :: "listen \<Rightarrow> hostnames \<Rightarrow> stats \<Rightarrow> options \<Rightarrow> app_state" where
  "app_state_new l h st opts =
     \<lparr>as_registry = registry_default, as_listen = l, as_hostnames = h, as_via_tls = False,
      as_options = opts, as_stats = st, as_listeners = []\<rparr>"

definition with_tls :: "app_state \<Rightarrow> app_state" where
  "with_tls s = s\<lparr>as_via_tls := True\<rparr>"

definition https_port :: "app_state \<Rightarrow> u16" where
  "https_port s = listen_https (as_listen s)"

definition has_tls :: "app_state \<Rightarrow> bool" where
  "has_tls s \<longleftrightarrow> 0 < https_port s"

section \<open>Access to the shared parts\<close>

definition on_client :: "nat \<Rightarrow> (client \<Rightarrow> 'a \<times> client) \<Rightarrow> app_state \<Rightarrow> 'a \<times> app_state" where
  "on_client k f s = (let (x, r) = update_client k f (as_registry s) in (x, s\<lparr>as_registry := r\<rparr>))"

definition on_registry :: "(registry \<Rightarrow> 'a \<times> registry) \<Rightarrow> app_state \<Rightarrow> 'a \<times> app_state" where
  "on_registry f s = (let (x, r) = f (as_registry s) in (x, s\<lparr>as_registry := r\<rparr>))"

abbreviation the_client :: "app_state \<Rightarrow> nat \<Rightarrow> client" where
  "the_client s k \<equiv> rg_heap (as_registry s) k"

definition send_to :: "nat \<Rightarrow> server_message \<Rightarrow> app_state \<Rightarrow> (server_error + unit) \<times> app_state" where
  "send_to k msg = on_client k (client_send msg)"

definition hostnames_inc :: "app_state \<Rightarrow> app_state" where
  "hostnames_inc s = s\<lparr>as_stats := (as_stats s)\<lparr>st_http_hostnames := metric_inc (st_http_hostnames (as_stats s))\<rparr>\<rparr>"

definition hostnames_dec :: "app_state \<Rightarrow> app_state" where
  "hostnames_dec s = s\<lparr>as_stats := (as_stats s)\<lparr>st_http_hostnames := metric_dec (st_http_hostnames (as_stats s))\<rparr>\<rparr>"

definition connections_inc :: "app_state \<Rightarrow> app_state" where
  "connections_inc s = s\<lparr>as_stats := (as_stats s)\<lparr>st_client_connections := metric_inc (st_client_connections (as_stats s))\<rparr>\<rparr>"

definition connections_dec :: "app_state \<Rightarrow> app_state" where
  "connections_dec s = s\<lparr>as_stats := (as_stats s)\<lparr>st_client_connections := metric_dec (st_client_connections (as_stats s))\<rparr>\<rparr>"

definition ports_inc :: "app_state \<Rightarrow> app_state" where
  "ports_inc s = s\<lparr>as_stats := (as_stats s)\<lparr>st_tcp_ports := metric_inc (st_tcp_ports (as_stats s))\<rparr>\<rparr>"

definition ports_dec :: "app_state \<Rightarrow> app_state" where
  "ports_dec s = s\<lparr>as_stats := (as_stats s)\<lparr>st_tcp_ports := metric_dec (st_tcp_ports (as_stats s))\<rparr>\<rparr>"

section \<open>Frame lemmas\<close>

lemma on_client_simps [simp]:
  "fst (on_client k f s) = fst (f (the_client s k))"
  "the_client (snd (on_client k f s)) = (rg_heap (as_registry s))(k := snd (f (the_client s k)))"
  "rg_claimed (as_registry (snd (on_client k f s))) = rg_claimed (as_registry s)"
  "rg_clients (as_registry (snd (on_client k f s))) = rg_clients (as_registry s)"
  "rg_next (as_registry (snd (on_client k f s))) = rg_next (as_registry s)"
  "as_hostnames (snd (on_client k f s)) = as_hostnames s"
  "as_options (snd (on_client k f s)) = as_options s"
  "as_listen (snd (on_client k f s)) = as_listen s"
  "as_via_tls (snd (on_client k f s)) = as_via_tls s"
  "as_stats (snd (on_client k f s)) = as_stats s"
  "as_listeners (snd (on_client k f s)) = as_listeners s"
  by (simp_all add: on_client_def update_client_def split: prod.splits)

lemma on_registry_simps [simp]:
  "fst (on_registry f s) = fst (f (as_registry s))"
  "as_registry (snd (on_registry f s)) = snd (f (as_registry s))"
  "as_hostnames (snd (on_registry f s)) = as_hostnames s"
  "as_options (snd (on_registry f s)) = as_options s"
  "as_listen (snd (on_registry f s)) = as_listen s"
  "as_via_tls (snd (on_registry f s)) = as_via_tls s"
  "as_stats (snd (on_registry f s)) = as_stats s"
  "as_listeners (snd (on_registry f s)) = as_listeners s"
  by (simp_all add: on_registry_def split: prod.splits)

lemma metrics_simps [simp]:
  "as_registry (hostnames_inc s) = as_registry s" "as_registry (hostnames_dec s) = as_registry s"
  "as_registry (connections_inc s) = as_registry s" "as_registry (connections_dec s) = as_registry s"
  "as_registry (ports_inc s) = as_registry s" "as_registry (ports_dec s) = as_registry s"
  "as_hostnames (hostnames_inc s) = as_hostnames s" "as_hostnames (hostnames_dec s) = as_hostnames s"
  "as_hostnames (connections_inc s) = as_hostnames s" "as_hostnames (connections_dec s) = as_hostnames s"
  "as_hostnames (ports_inc s) = as_hostnames s" "as_hostnames (ports_dec s) = as_hostnames s"
  "as_listeners (hostnames_inc s) = as_listeners s" "as_listeners (hostnames_dec s) = as_listeners s"
  "as_listeners (connections_inc s) = as_listeners s" "as_listeners (connections_dec s) = as_listeners s"
  "as_listeners (ports_inc s) = as_listeners s" "as_listeners (ports_dec s) = as_listeners s"
  by (simp_all add: hostnames_inc_def hostnames_dec_def connections_inc_def connections_dec_def
      ports_inc_def ports_dec_def)

text \<open>An operation on a client that keeps its host names keeps the registry as it is routed.\<close>

definition keeps_names :: "(client \<Rightarrow> 'a \<times> client) \<Rightarrow> bool" where
  "keeps_names f \<longleftrightarrow> (\<forall>c. c_hostnames (snd (f c)) = c_hostnames c)"

lemma names_of_on_client:
  assumes "keeps_names f"
  shows "names_of (as_registry (snd (on_client k f s))) = names_of (as_registry s)"
  using assms by (simp add: keeps_names_def names_of_def fun_eq_iff)

lemma on_client_registry:
  assumes "keeps_names f"
  shows "registry_ok (as_registry (snd (on_client k f s))) = registry_ok (as_registry s)"
    "owners (as_registry (snd (on_client k f s))) = owners (as_registry s)"
proof -
  note names = names_of_on_client [OF assms, of k s]
  show "registry_ok (as_registry (snd (on_client k f s))) = registry_ok (as_registry s)"
    by (simp add: registry_ok_def names)
  have "has_http_hostname h (the_client (snd (on_client k f s)) j) = has_http_hostname h (the_client s j)" for h j
    using fun_cong [OF names, of j] by (simp only: has_http_hostname_def names_of_def)
  then show "owners (as_registry (snd (on_client k f s))) = owners (as_registry s)"
    by (simp add: get_by_http_hostname_def)
qed

lemma keeps_names_ops [simp, intro]:
  "keeps_names (client_send msg)" "keeps_names (register_http_request u)"
  "keeps_names (send_http_response r)" "keeps_names (register_connect_request u)"
  "keeps_names (send_connected_response cr)" "keeps_names (\<lambda>c. ((), register_port p c))"
  "keeps_names (port_writer_register u ch)" "keeps_names (port_writer_remove u)"
  "keeps_names (port_message u m)" "keeps_names (client_port_receive pr)"
  "keeps_names (client_port_close pc)"
  by (auto simp: keeps_names_def client_send_def register_http_request_def send_http_response_def
      register_connect_request_def send_connected_response_def register_port_def
      port_writer_register_def port_writer_remove_def port_message_def client_port_receive_def
      client_port_close_def Let_def split: option.splits poll.splits sum.splits)

lemma send_to_registry [simp]:
  "registry_ok (as_registry (snd (send_to k msg s))) = registry_ok (as_registry s)"
  "owners (as_registry (snd (send_to k msg s))) = owners (as_registry s)"
  "rg_clients (as_registry (snd (send_to k msg s))) = rg_clients (as_registry s)"
  "rg_claimed (as_registry (snd (send_to k msg s))) = rg_claimed (as_registry s)"
  "as_hostnames (snd (send_to k msg s)) = as_hostnames s"
  "as_stats (snd (send_to k msg s)) = as_stats s"
  "as_listeners (snd (send_to k msg s)) = as_listeners s"
  unfolding send_to_def by (simp_all add: on_client_registry)

lemma send_to_route [simp]:
  "get_by_http_hostname h (as_registry (snd (send_to k msg s))) = get_by_http_hostname h (as_registry s)"
  by (rule fun_cong [OF send_to_registry(2) [of k msg s]])

lemma send_to_sent:
  "c_ws_open (the_client s k) \<Longrightarrow>
     fst (send_to k msg s) = Ok ()
     \<and> c_ws_sent (the_client (snd (send_to k msg s)) k) = c_ws_sent (the_client s k) @ [msg]"
  by (simp add: send_to_def client_send_def)

lemma send_to_closed:
  "\<not> c_ws_open (the_client s k) \<Longrightarrow> send_to k msg s = (Err WebSocketError, s)"
  by (simp add: send_to_def on_client_def update_client_def client_send_def)

end
