(* ===== verification/Byte_Pipe.thy ===== *)
theory Byte_Pipe
  imports Channels
begin

text \<open>
  The task that copies bytes between a TCP connection and the message socket, as both sides run
  it (\<open>serve_socket\<close> of the server, \<open>client_port\<close> of \<open>np\<close>): a \<open>select!\<close> loop over the
  channel of messages for the port and the socket. The two loops differ in how they treat
  errors; the locale \<open>byte_pump\<close> states what they share, and what follows from it for the
  system made of the channel and the loop: bytes are neither lost nor reordered nor invented.
\<close>

section \<open>Events of the loop\<close>

text \<open>
  One turn: what the channel delivered, what the socket delivered, or nothing for the whole
  time step. A read fills at most the buffer of 512 bytes; an empty one is the end of the stream.
\<close>

datatype read_result = ReadOk bytes | ReadError

datatype pump_event = FromChannel "port_message option" | FromSocket read_result | Elapsed

text \<open>The bytes of the messages of a port, up to the first request to close.\<close>

fun data_of :: "port_message list \<Rightarrow> bytes" where
  "data_of [] = []"
| "data_of (PM_Data bs # ms) = bs @ data_of ms"
| "data_of (PM_Close # ms) = []"

fun no_close :: "port_message list \<Rightarrow> bool" where
  "no_close [] = True"
| "no_close (PM_Data bs # ms) = no_close ms"
| "no_close (PM_Close # ms) = False"

lemma data_of_append: "data_of (ms @ ns) = (if no_close ms then data_of ms @ data_of ns else data_of ms)"
  by (induction ms rule: data_of.induct) auto

lemma data_of_prefix: "\<exists>more. data_of (ms @ ns) = data_of ms @ more"
  by (simp add: data_of_append)

lemma no_close_append: "no_close (ms @ ns) \<longleftrightarrow> no_close ms \<and> no_close ns"
  by (induction ms rule: no_close.induct) auto

section \<open>The system of channel and loop\<close>

text \<open>
  \<open>Push m\<close>: the message task hands \<open>m\<close> to the channel (it waits while the channel is full, so
  then the step is not possible). \<open>Pull\<close>: the loop takes the next message. \<open>Turn\<close>: the loop
  takes another turn. The flags are those of the loop: whether the client object is alive and
  whether a write or a send succeeds. When the loop has ended the receiver is dropped.
\<close>

datatype pipe_event = Push port_message | Pull bool bool | Turn bool bool pump_event

text \<open>The state: the channel, the loop, and the messages the channel has accepted so far.\<close>

fun pipe_step :: "(bool \<Rightarrow> bool \<Rightarrow> pump_event \<Rightarrow> 'p \<Rightarrow> 'p) \<Rightarrow> ('p \<Rightarrow> bool)
    \<Rightarrow> pipe_event \<Rightarrow> port_message mpsc \<times> 'p \<times> port_message list
    \<Rightarrow> (port_message mpsc \<times> 'p \<times> port_message list) option" where
  "pipe_step step running (Push m) (ch, p, log) =
     (case mpsc_send m (ch\<lparr>mp_receiver := running p\<rparr>) of
        Pending \<Rightarrow> None
      | Ready (Inl _) \<Rightarrow> Some (ch, p, log)
      | Ready (Inr ch') \<Rightarrow> Some (ch', p, log @ [m]))"
| "pipe_step step running (Pull alive good) (ch, p, log) =
     (if running p then
        (case mpsc_recv ch of
           None \<Rightarrow> None
         | Some (m, ch') \<Rightarrow> Some (ch', step alive good (FromChannel (Some m)) p, log))
      else None)"
| "pipe_step step running (Turn alive good ev) (ch, p, log) =
     (case ev of
        FromChannel (Some m) \<Rightarrow> None
      | _ \<Rightarrow> if running p then Some (ch, step alive good ev p, log) else None)"

fun pipe_run :: "(bool \<Rightarrow> bool \<Rightarrow> pump_event \<Rightarrow> 'p \<Rightarrow> 'p) \<Rightarrow> ('p \<Rightarrow> bool)
    \<Rightarrow> pipe_event list \<Rightarrow> port_message mpsc \<times> 'p \<times> port_message list
    \<Rightarrow> (port_message mpsc \<times> 'p \<times> port_message list) option" where
  "pipe_run step running [] s = Some s"
| "pipe_run step running (e # es) s = (case pipe_step step running e s of None \<Rightarrow> None | Some s' \<Rightarrow> pipe_run step running es s')"

text \<open>A loop on its own: the bytes it reads from its socket while it runs.\<close>

fun event_bytes :: "pump_event \<Rightarrow> bytes" where
  "event_bytes (FromSocket (ReadOk bs)) = bs"
| "event_bytes (FromSocket ReadError) = []"
| "event_bytes (FromChannel m) = []"
| "event_bytes Elapsed = []"

fun loop_reads :: "(bool \<Rightarrow> bool \<Rightarrow> pump_event \<Rightarrow> 'p \<Rightarrow> 'p) \<Rightarrow> ('p \<Rightarrow> bool)
    \<Rightarrow> (bool \<times> bool \<times> pump_event) list \<Rightarrow> 'p \<Rightarrow> bytes \<times> 'p" where
  "loop_reads step running [] p = ([], p)"
| "loop_reads step running ((alive, good, ev) # es) p =
     (let (bs, p') = loop_reads step running es (step alive good ev p)
      in ((if running p then event_bytes ev else []) @ bs, p'))"

locale byte_pump =
  fixes step :: "bool \<Rightarrow> bool \<Rightarrow> pump_event \<Rightarrow> 'p \<Rightarrow> 'p"
    and running :: "'p \<Rightarrow> bool"
    and written :: "'p \<Rightarrow> bytes"
    and forwarded :: "'p \<Rightarrow> bytes"
  assumes ended: "\<not> running p \<Longrightarrow> step alive good ev p = p"
    and data_good: "running p \<Longrightarrow> running (step alive True (FromChannel (Some (PM_Data bs))) p)
      \<and> written (step alive True (FromChannel (Some (PM_Data bs))) p) = written p @ bs"
    and data_bad: "running p \<Longrightarrow> \<not> running (step alive False (FromChannel (Some (PM_Data bs))) p)
      \<and> written (step alive False (FromChannel (Some (PM_Data bs))) p) = written p"
    and close: "running p \<Longrightarrow> \<not> running (step alive good (FromChannel (Some PM_Close)) p)
      \<and> written (step alive good (FromChannel (Some PM_Close)) p) = written p"
    and no_message: "step alive good (FromChannel None) p = p"
    and channel_forwards: "forwarded (step alive good (FromChannel m) p) = forwarded p"
    and socket_writes: "written (step alive good (FromSocket r) p) = written p"
    and elapsed_same: "written (step alive good Elapsed p) = written p \<and> forwarded (step alive good Elapsed p) = forwarded p"
    and socket_data: "\<lbrakk>running p; bs \<noteq> []\<rbrakk> \<Longrightarrow>
      running (step True True (FromSocket (ReadOk bs)) p)
      \<and> forwarded (step True True (FromSocket (ReadOk bs)) p) = forwarded p @ bs"
    and socket_reads: "running p \<Longrightarrow>
      forwarded (step alive good (FromSocket (ReadOk bs)) p) = forwarded p @ bs
      \<or> \<not> running (step alive good (FromSocket (ReadOk bs)) p)
        \<and> forwarded (step alive good (FromSocket (ReadOk bs)) p) = forwarded p"
    and socket_fails: "forwarded (step alive good (FromSocket ReadError) p) = forwarded p"
    and socket_end: "running p \<Longrightarrow> \<not> running (step True good (FromSocket (ReadOk [])) p)
      \<and> forwarded (step True good (FromSocket (ReadOk [])) p) = forwarded p"
begin

text \<open>
  While the loop runs, what it has written and what is queued make up what was accepted; when
  it has ended, what it has written is a prefix of it.
\<close>

definition pipe_ok :: "bytes \<Rightarrow> port_message mpsc \<times> 'p \<times> port_message list \<Rightarrow> bool" where
  "pipe_ok w s = (case s of (ch, p, log) \<Rightarrow>
     if running p
     then \<exists>done. log = done @ mp_queue ch \<and> no_close done \<and> written p = w @ data_of done
     else \<exists>rest. w @ data_of log = written p @ rest)"

lemma pipe_push_ok:
  assumes "pipe_ok w (ch, p, log)" "pipe_step step running (Push m) (ch, p, log) = Some s"
  shows "pipe_ok w s"
proof (cases "running p")
  case True
  then have "s = (ch\<lparr>mp_receiver := True, mp_queue := mp_queue ch @ [m]\<rparr>, p, log @ [m])"
    using assms(2) by (auto simp: mpsc_send_def split: if_splits)
  then show ?thesis
    using assms(1) True by (auto simp: pipe_ok_def)
next
  case False
  then have "s = (ch, p, log)"
    using assms(2) by (simp add: mpsc_send_def)
  then show ?thesis using assms(1) by simp
qed

lemma pipe_pull_ok:
  assumes ok: "pipe_ok w (ch, p, log)" and st: "pipe_step step running (Pull alive good) (ch, p, log) = Some s"
  shows "pipe_ok w s"
proof -
  have run: "running p"
    using st by (simp split: if_splits)
  then obtain m ms where q: "mp_queue ch = m # ms"
    and s: "s = (ch\<lparr>mp_queue := ms\<rparr>, step alive good (FromChannel (Some m)) p, log)"
    using st by (auto simp: mpsc_recv_def split: list.splits)
  obtain ds where ds: "log = ds @ m # ms" "no_close ds" "written p = w @ data_of ds"
    using ok run q by (auto simp: pipe_ok_def)
  show ?thesis
  proof (cases m)
    case (PM_Data bs)
    have "log = (ds @ [m]) @ ms" "no_close (ds @ [m])" "w @ data_of (ds @ [m]) = written p @ bs"
      using ds PM_Data by (simp_all add: no_close_append data_of_append)
    moreover have "\<exists>rest. w @ data_of log = written p @ rest"
      using ds by (simp add: data_of_append)
    ultimately show ?thesis
      using data_good [OF run, of alive bs] data_bad [OF run, of alive bs] PM_Data
      unfolding s pipe_ok_def by (cases good) (auto intro!: exI [of _ "ds @ [m]"])
  next
    case PM_Close
    have "w @ data_of log = written p"
      using ds PM_Close by (simp add: data_of_append)
    then show ?thesis
      using close [OF run, of alive good] PM_Close unfolding s pipe_ok_def by simp
  qed
qed

lemma pipe_turn_ok:
  assumes ok: "pipe_ok w (ch, p, log)" and st: "pipe_step step running (Turn alive good ev) (ch, p, log) = Some s"
  shows "pipe_ok w s"
proof -
  have run: "running p" and s: "s = (ch, step alive good ev p, log)" and ev: "\<And>m. ev \<noteq> FromChannel (Some m)"
    using st by (auto split: pump_event.splits option.splits if_splits)
  have "written (step alive good ev p) = written p"
    using ev no_message [of alive good p] socket_writes elapsed_same
    by (cases ev) (metis not_Some_eq | blast)+
  then show ?thesis
    using ok run unfolding s pipe_ok_def by (auto simp: data_of_append)
qed

lemma pipe_step_ok: "\<lbrakk>pipe_step step running e s = Some s'; pipe_ok w s\<rbrakk> \<Longrightarrow> pipe_ok w s'"
  by (cases s; cases e) (metis pipe_push_ok pipe_pull_ok pipe_turn_ok)+

lemma pipe_run_ok: "\<lbrakk>pipe_run step running es s = Some s'; pipe_ok w s\<rbrakk> \<Longrightarrow> pipe_ok w s'"
  by (induction es arbitrary: s) (auto split: option.splits dest: pipe_step_ok)

text \<open>From a fresh channel and loop.\<close>

lemma pipe_bytes:
  assumes "pipe_run step running es (mpsc_channel n, p, []) = Some (ch, p', log)" "running p"
  shows "\<exists>rest. written p @ data_of log = written p' @ rest
     \<and> (running p' \<longrightarrow> rest = data_of (mp_queue ch))"
proof -
  have "pipe_ok (written p) (mpsc_channel n, p, [])"
    using assms(2) by (simp add: pipe_ok_def mpsc_channel_def)
  then have "pipe_ok (written p) (ch, p', log)"
    using pipe_run_ok [OF assms(1)] by blast
  then show ?thesis
    by (auto simp: pipe_ok_def data_of_append split: if_splits)
qed

text \<open>What is forwarded is what was read, but for a last read at which the loop ended.\<close>

lemma step_reads:
  "\<exists>rest. forwarded p @ (if running p then event_bytes ev else []) = forwarded (step alive good ev p) @ rest
     \<and> (running (step alive good ev p) \<longrightarrow> rest = [])"
proof (cases "running p")
  case True
  show ?thesis
  proof (cases ev rule: event_bytes.cases)
    case (1 bs)
    then show ?thesis using True socket_reads [OF True, of alive good bs] by auto
  qed (use True channel_forwards elapsed_same socket_fails in auto)
next
  case False
  then show ?thesis using ended [OF False] by simp
qed

lemma running_before: "running (step alive good ev p) \<Longrightarrow> running p"
  using ended by force

lemma loop_reads_ended: "\<not> running p \<Longrightarrow> loop_reads step running es p = ([], p)"
  by (induction es) (auto simp: ended)

lemma loop_reads_prefix:
  "loop_reads step running es p = (bs, p') \<Longrightarrow>
     \<exists>rest. forwarded p @ bs = forwarded p' @ rest \<and> (running p' \<longrightarrow> rest = [])"
proof (induction es arbitrary: p bs)
  case (Cons e es)
  obtain alive good ev where e: "e = (alive, good, ev)" by (cases e)
  let ?q = "step alive good ev p"
  obtain cs where cs: "loop_reads step running es ?q = (cs, p')"
    and bs: "bs = (if running p then event_bytes ev else []) @ cs"
    using Cons.prems e by (auto simp: case_prod_unfold Let_def prod_eq_iff)
  obtain r where r: "forwarded p @ (if running p then event_bytes ev else []) = forwarded ?q @ r"
    "running ?q \<longrightarrow> r = []"
    using step_reads by blast
  show ?case
  proof (cases "running ?q")
    case True
    then have "forwarded p @ bs = forwarded ?q @ cs" using r by (simp add: bs)
    then show ?thesis using Cons.IH [OF cs] by metis
  next
    case False
    then have "cs = []" "p' = ?q" using cs loop_reads_ended [OF False] by auto
    then show ?thesis using r False bs by auto
  qed
qed simp

text \<open>The bytes read from the socket are forwarded in the order in which they were read.\<close>

lemma reads_forwarded:
  "\<lbrakk>running p; \<forall>bs \<in> set rs. bs \<noteq> []\<rbrakk> \<Longrightarrow>
     running (fold (\<lambda>bs. step True True (FromSocket (ReadOk bs))) rs p)
     \<and> forwarded (fold (\<lambda>bs. step True True (FromSocket (ReadOk bs))) rs p) = forwarded p @ concat rs"
  by (induction rs arbitrary: p) (simp_all add: socket_data)

text \<open>
  When all senders are gone the channel is ready with nothing in every turn; as long as the
  socket has nothing to read, no turn ends the loop.
\<close>

lemma closed_channel_spins: "((\<lambda>p. step alive good (FromChannel None) p) ^^ n) p = p"
  by (induction n) (simp_all add: no_message)

end

end
