(* ===== verification/Port_Server.thy ===== *)
theory Port_Server
  imports Server_State Byte_Pipe
begin

text \<open>
  \<open>nport-server/src/server/port_server.rs\<close>: the TCP listener of a forwarded port, the
  negotiation of a connection with the client, and the task that copies bytes between the
  connection and the client.

  \<open>bind\<close> stands for \<open>TcpListener::bind\<close> followed by \<open>local_addr\<close>: the port it got for an
  address, or nothing. \<open>serve_socket\<close> waits for the client in the middle, so it is written as
  its two halves, \<open>serve_socket_connect\<close> and \<open>serve_socket_answer\<close>. The accept loop is
  \<open>listener_step\<close>, one turn of its \<open>select!\<close>; \<open>None\<close> is a turn that cannot be taken.
\<close>

section \<open>Life of a client object\<close>

text \<open>
  \<open>Weak::upgrade\<close> succeeds while someone holds the object: the registry, or a listener in the
  middle of \<open>serve_socket\<close>.
\<close>

fun is_connecting :: "listener_phase \<Rightarrow> bool" where
  "is_connecting (Connecting u rx) = True"
| "is_connecting Accepting = False"
| "is_connecting Stopped = False"

definition client_alive :: "nat \<Rightarrow> app_state \<Rightarrow> bool" where
  "client_alive k s \<longleftrightarrow>
     k \<in> set (rg_clients (as_registry s))
     \<or> list_ex (\<lambda>l. ls_client l = k \<and> is_connecting (ls_phase l)) (as_listeners s)"

text \<open>\<open>Drop for Port\<close>: tells the listener to stop.\<close>

definition port_drop :: "port \<Rightarrow> listener list \<Rightarrow> listener list" where
  "port_drop p ls =
     (case p_closer p of
        Some n \<Rightarrow> (if n < length ls
                  then ls[n := (ls ! n)\<lparr>ls_closer := snd (oneshot_send () (ls_closer (ls ! n)))\<rparr>] else ls)
      | None \<Rightarrow> ls)"

text \<open>
  Dropping a client drops its socket, the senders in its tables, its writers and its ports. The
  sender of a channel that still waits is in a table, so all of those are dropped.
\<close>

definition client_drop :: "client \<Rightarrow> client" where
  "client_drop c = c\<lparr>c_ws_open := False,
     c_http_channels := oneshot_drop_sender \<circ> c_http_channels c, c_http_requests := Map.empty,
     c_connect_channels := oneshot_drop_sender \<circ> c_connect_channels c,
     c_connect_requests := Map.empty, c_open_ports := [], c_port_writers := Map.empty\<rparr>"

definition release_client :: "nat \<Rightarrow> app_state \<Rightarrow> app_state option" where
  "release_client k s =
     (if client_alive k s then None
      else Some ((snd (on_client k (\<lambda>c. ((), client_drop c)) s))
             \<lparr>as_listeners := fold port_drop (c_open_ports (the_client s k)) (as_listeners s)\<rparr>))"

section \<open>Opening a port\<close>

definition port_server ::
  "(string \<Rightarrow> u16 option) \<Rightarrow> nat \<Rightarrow> string \<Rightarrow> addr \<Rightarrow> app_state \<Rightarrow> port option \<times> app_state" where
  "port_server bind k hostname a s =
     (case bind (''0.0.0.0:'' @ show_nat (unat (addr_port a))) of
        None \<Rightarrow> (None, s)
      | Some p \<Rightarrow>
          (Some \<lparr>p_closer = Some (length (as_listeners s)), p_port = p\<rparr>,
           (ports_inc s)\<lparr>as_listeners := as_listeners s @
              [\<lparr>ls_client = k, ls_port = p, ls_remote_addr = from_host_and_port hostname p,
                ls_closer = Waiting, ls_phase = Accepting\<rparr>]\<rparr>))"

section \<open>Accepting a connection\<close>

definition set_phase :: "nat \<Rightarrow> listener_phase \<Rightarrow> app_state \<Rightarrow> app_state" where
  "set_phase n ph s = s\<lparr>as_listeners := (as_listeners s)[n := (as_listeners s ! n)\<lparr>ls_phase := ph\<rparr>]\<rparr>"

text \<open>
  \<open>Uuid::new_v4\<close> is the argument \<open>uuid\<close>. A failed send leaves \<open>serve_socket\<close>, which drops
  the receiver, and ends the accept loop.
\<close>

definition serve_socket_connect :: "nat \<Rightarrow> string \<Rightarrow> socket_addr \<Rightarrow> app_state \<Rightarrow> app_state" where
  "serve_socket_connect n uuid from_addr s =
     (let l = as_listeners s ! n; k = ls_client l
      in if client_alive k s then
           (let (rx, s1) = on_client k (register_connect_request uuid) s;
                connect = \<lparr>pct_uuid = uuid, pct_protocol = port_protocol_code Tcp,
                   pct_remote_address = Some (to_address (ls_remote_addr l)),
                   pct_from_address = Some (to_address (from_socket_addr from_addr))\<rparr>;
                (sent, s2) = send_to k (S_PortConnect connect) s1
            in case sent of
                 Inl _ \<Rightarrow> set_phase n Stopped (snd (on_client k (\<lambda>c. ((), c\<lparr>c_connect_channels :=
                            (c_connect_channels c)(rx := oneshot_drop_receiver (c_connect_channels c rx))\<rparr>)) s2))
               | Inr _ \<Rightarrow> set_phase n (Connecting uuid rx) s2)
         else set_phase n Stopped s)"

text \<open>The answer, and whether a task to copy bytes was started.\<close>

definition serve_socket_answer :: "nat \<Rightarrow> app_state \<Rightarrow> (bool \<times> app_state) option" where
  "serve_socket_answer n s =
     (let l = as_listeners s ! n; k = ls_client l
      in case ls_phase l of
           Connecting uuid rx \<Rightarrow>
             (case oneshot_recv (c_connect_channels (the_client s k) rx) of
                Pending \<Rightarrow> None
              | Ready (Inl _) \<Rightarrow> Some (False, set_phase n Accepting s)
              | Ready (Inr response) \<Rightarrow>
                  (if pc_error response \<noteq> None then Some (False, set_phase n Accepting s)
                   else (case on_client k (port_writer_register uuid (mpsc_channel 4)) s of
                           (Inl _, s') \<Rightarrow> Some (False, set_phase n Accepting s')
                         | (Inr _, s') \<Rightarrow> Some (True, set_phase n Accepting s'))))
         | _ \<Rightarrow> None)"

datatype listener_event = Accepted string socket_addr | AcceptError | Answered | CloserFired

definition listener_step :: "listener_event \<Rightarrow> nat \<Rightarrow> app_state \<Rightarrow> app_state option" where
  "listener_step ev n s =
     (if length (as_listeners s) \<le> n then None
      else (case (ev, ls_phase (as_listeners s ! n)) of
         (Accepted uuid from_addr, Accepting) \<Rightarrow> Some (serve_socket_connect n uuid from_addr s)
       | (AcceptError, Accepting) \<Rightarrow> Some s
       | (CloserFired, Accepting) \<Rightarrow>
           (case oneshot_recv (ls_closer (as_listeners s ! n)) of
              Ready _ \<Rightarrow> Some (set_phase n Stopped (ports_dec s))
            | Pending \<Rightarrow> None)
       | (Answered, Connecting u rx) \<Rightarrow> map_option snd (serve_socket_answer n s)
       | _ \<Rightarrow> None))"

section \<open>Copying bytes\<close>

record pump =
  pm_uuid :: string
  pm_written :: bytes
  pm_sent :: "server_message list"
  pm_running :: bool

definition pump_new :: "string \<Rightarrow> pump" where
  "pump_new uuid = \<lparr>pm_uuid = uuid, pm_written = [], pm_sent = [], pm_running = True\<rparr>"

definition pump_break :: "pump \<Rightarrow> pump" where
  "pump_break p = p\<lparr>pm_running := False\<rparr>"

text \<open>
  \<open>alive\<close>: whether \<open>client.upgrade()\<close> succeeds; \<open>write_ok\<close>: whether \<open>write_all\<close> does.
  \<open>pm_sent\<close> collects the messages handed to \<open>Client::send\<close>, whose failure is only logged. A
  \<open>write_all\<close> that fails counts as writing nothing; it may have written a part of its data.
\<close>

definition pump_step :: "bool \<Rightarrow> bool \<Rightarrow> pump_event \<Rightarrow> pump \<Rightarrow> pump" where
  "pump_step alive write_ok ev p =
     (if \<not> pm_running p then p
      else (case ev of
         FromChannel (Some (PM_Data bs)) \<Rightarrow>
           (if write_ok then p\<lparr>pm_written := pm_written p @ bs\<rparr> else pump_break p)
       | FromChannel (Some PM_Close) \<Rightarrow> pump_break p
       | FromChannel None \<Rightarrow> p
       | FromSocket (ReadOk bs) \<Rightarrow>
           (if alive then
              (if bs = []
               then pump_break (p\<lparr>pm_sent := pm_sent p @ [S_PortClose \<lparr>pcl_uuid = pm_uuid p\<rparr>]\<rparr>)
               else p\<lparr>pm_sent := pm_sent p @ [S_PortReceive \<lparr>pr_uuid = pm_uuid p, pr_data = bs\<rparr>]\<rparr>)
            else pump_break p)
       | FromSocket ReadError \<Rightarrow> pump_break p
       | Elapsed \<Rightarrow> (if alive then p else pump_break p)))"

text \<open>What the task does when its loop has ended.\<close>

definition pump_end :: "pump \<Rightarrow> nat \<Rightarrow> app_state \<Rightarrow> app_state" where
  "pump_end p k s =
     (if client_alive k s then snd (on_client k (port_writer_remove (pm_uuid p)) s) else s)"

section \<open>The task as a byte pump\<close>

fun sent_bytes :: "server_message list \<Rightarrow> bytes" where
  "sent_bytes [] = []"
| "sent_bytes (S_PortReceive m # ms) = pr_data m @ sent_bytes ms"
| "sent_bytes (_ # ms) = sent_bytes ms"

lemma sent_bytes_append [simp]: "sent_bytes (ms @ ns) = sent_bytes ms @ sent_bytes ns"
  by (induction ms rule: sent_bytes.induct) simp_all

interpretation server_pump: byte_pump pump_step pm_running pm_written "sent_bytes \<circ> pm_sent"
  by unfold_locales
    (auto simp: pump_step_def pump_break_def split: option.splits port_message.splits read_result.splits)

end
