(* ===== verification/Msghandlers.thy ===== *)
theory Msghandlers
  imports Port_Server Registry_Steps
begin

text \<open>
  \<open>nport-server/src/server/msghandlers/\<close>: what the server does with each message of a client.

  Parameters: \<open>lc\<close> is \<open>str::to_lowercase\<close>, \<open>name\<close> the next name of the \<open>names\<close> generator,
  \<open>bind\<close> the operating system's \<open>TcpListener::bind\<close>. A handler returns its result and the new
  state; \<open>Pending\<close> is a handler that has to wait (a port's channel is full).
\<close>

section \<open>\<open>common.rs\<close>\<close>

datatype validation_error = Invalid | Disallowed

definition normalized_client_subdomain :: "(string \<Rightarrow> string) \<Rightarrow> hostnames \<Rightarrow> string \<Rightarrow> string" where
  "normalized_client_subdomain lc h subdomain =
     (let subdomain = lc subdomain; suffix = dot # hn_domain h
      in case strip_suffix suffix subdomain of Some s \<Rightarrow> s | None \<Rightarrow> subdomain)"

definition subdomain_for_forwarding ::
  "(string \<Rightarrow> string) \<Rightarrow> hostnames \<Rightarrow> string option \<Rightarrow> validation_error + string option" where
  "subdomain_for_forwarding lc h requested_hostname =
     (let requested_hostname = (case requested_hostname of Some s \<Rightarrow> s | None \<Rightarrow> [])
      in if requested_hostname = [] then Ok None
         else
           (let requested_hostname = normalized_client_subdomain lc h requested_hostname
            in if \<not> hostname_is_valid requested_hostname \<or> dot \<in> set requested_hostname then Err Invalid
               else if is_subdomain_used lc h requested_hostname then Err Disallowed
               else if is_subdomain_blocked lc h requested_hostname then Err Disallowed
               else Ok (Some requested_hostname)))"

section \<open>\<open>http.rs\<close>\<close>

fun validation_http_error :: "validation_error \<Rightarrow> http_open_error" where
  "validation_http_error Invalid = HttpOpenError_Invalid"
| "validation_http_error Disallowed = HttpOpenError_Disallowed"

definition http_open_handler ::
  "(string \<Rightarrow> string) \<Rightarrow> string \<Rightarrow> nat \<Rightarrow> http_open \<Rightarrow> app_state \<Rightarrow> (server_error + unit) \<times> app_state" where
  "http_open_handler lc name k req s =
     (case subdomain_for_forwarding lc (as_hostnames s) (ho_hostname req) of
        Inl e \<Rightarrow>
          send_to k (S_HttpOpened
            \<lparr>hod_hostname = (case ho_hostname req of Some h \<Rightarrow> h | None \<Rightarrow> []),
             hod_local_address = ho_local_address req,
             hod_error = Some (http_open_error_code (validation_http_error e))\<rparr>) s
      | Inr requested \<Rightarrow>
          (let subdomain = (case requested of Some h \<Rightarrow> h | None \<Rightarrow> name);
               domain = hn_domain (as_hostnames s);
               hostname = (if domain = [] then subdomain else subdomain @ dot # domain);
               (claimed, s1) = on_registry (claim_http_hostname k hostname) s
           in if \<not> claimed then
                send_to k (S_HttpOpened
                  \<lparr>hod_hostname = hostname, hod_local_address = ho_local_address req,
                   hod_error = Some (http_open_error_code HttpOpenError_InUse)\<rparr>) s1
              else
                send_to k (S_HttpOpened
                  \<lparr>hod_hostname = hostname, hod_local_address = ho_local_address req,
                   hod_error = None\<rparr>) (hostnames_inc s1)))"

definition http_close_handler ::
  "nat \<Rightarrow> http_close \<Rightarrow> app_state \<Rightarrow> (server_error + unit) \<times> app_state" where
  "http_close_handler k close s =
     (let hostname = hc_hostname close;
          (released, s1) = on_registry (release_http_hostname k hostname) s;
          (error, s2) = (if released then (None, hostnames_dec s1)
                         else (Some (http_close_error_code HttpCloseError_NotRegistered), s1))
      in send_to k (S_HttpClosed \<lparr>hcd_hostname = hostname, hcd_error = error\<rparr>) s2)"

definition http_response_handler ::
  "nat \<Rightarrow> http_response \<Rightarrow> app_state \<Rightarrow> (server_error + unit) \<times> app_state" where
  "http_response_handler k response s = on_client k (send_http_response response) s"

section \<open>\<open>port.rs\<close>\<close>

definition validate_open ::
  "(string \<Rightarrow> string) \<Rightarrow> hostnames \<Rightarrow> port_open \<Rightarrow> port_open_error + unit" where
  "validate_open lc h req =
     (case po_remote_address req of
        None \<Rightarrow> Ok ()
      | Some remote_addr \<Rightarrow>
          (if 0 < address_port remote_addr \<and> address_port remote_addr < 1024
           then Err PortOpenError_PortNotAllowed
           else (case address_host remote_addr of
                   None \<Rightarrow> Ok ()
                 | Some hostname \<Rightarrow>
                     (let normalized = normalized_client_subdomain lc h hostname
                      in if normalized \<noteq> hn_tcp_hostname h then Err PortOpenError_HostNotAllowed
                         else Ok ()))))"

definition port_open_handler ::
  "(string \<Rightarrow> string) \<Rightarrow> (string \<Rightarrow> u16 option) \<Rightarrow> nat \<Rightarrow> port_open \<Rightarrow> app_state
   \<Rightarrow> (server_error + unit) \<times> app_state" where
  "port_open_handler lc bind k req s =
     (let hostname = hn_tcp_hostname (as_hostnames s);
          (result, s1) =
            (case validate_open lc (as_hostnames s) req of
               Inl e \<Rightarrow> (Err e, s)
             | Inr _ \<Rightarrow>
                 (case port_server bind k hostname (from_address (po_remote_address req)) s of
                    (Some p, s') \<Rightarrow> (Ok (p_port p), snd (on_client k (\<lambda>c. ((), register_port p c)) s'))
                  | (None, s') \<Rightarrow> (Err PortOpenError_InUse, s')));
          p = (case ok_of result of Some p \<Rightarrow> p | None \<Rightarrow> addr_port (from_address (po_remote_address req)));
          remote_addr = from_host_and_port hostname p
      in send_to k (S_PortOpened
           \<lparr>pod_protocol = po_protocol req, pod_remote_address = Some (to_address remote_addr),
            pod_local_address = po_local_address req,
            pod_error = map_option port_open_error_code (err_of result)\<rparr>) s1)"

definition port_connected_handler ::
  "nat \<Rightarrow> port_connected \<Rightarrow> app_state \<Rightarrow> (server_error + unit) \<times> app_state" where
  "port_connected_handler k msg s = on_client k (send_connected_response msg) s"

definition port_receive_handler ::
  "nat \<Rightarrow> port_receive \<Rightarrow> app_state \<Rightarrow> (server_error + unit) poll \<times> app_state" where
  "port_receive_handler k msg s = on_client k (client_port_receive msg) s"

definition port_close_handler ::
  "nat \<Rightarrow> port_close \<Rightarrow> app_state \<Rightarrow> (server_error + unit) poll \<times> app_state" where
  "port_close_handler k msg s = on_client k (client_port_close msg) s"

section \<open>\<open>mod.rs\<close>\<close>

abbreviation ready :: "'r \<times> 's \<Rightarrow> 'r poll \<times> 's" where
  "ready x \<equiv> (Ready (fst x), snd x)"

text \<open>Every handler that succeeds continues (\<open>ControlFlow::Continue\<close>).\<close>

definition msg ::
  "(string \<Rightarrow> string) \<Rightarrow> string \<Rightarrow> (string \<Rightarrow> u16 option) \<Rightarrow> nat \<Rightarrow> client_payload \<Rightarrow> app_state
   \<Rightarrow> (server_error + unit) poll \<times> app_state" where
  "msg lc name bind k payload s =
     (case payload of
        None \<Rightarrow> (Ready (Ok ()), s)
      | Some (C_HttpOpen req) \<Rightarrow> ready (http_open_handler lc name k req s)
      | Some (C_HttpClose close) \<Rightarrow> ready (http_close_handler k close s)
      | Some (C_HttpResponse response) \<Rightarrow> ready (http_response_handler k response s)
      | Some (C_PortOpen req) \<Rightarrow> ready (port_open_handler lc bind k req s)
      | Some (C_PortConnected answer) \<Rightarrow> ready (port_connected_handler k answer s)
      | Some (C_PortReceive received) \<Rightarrow> port_receive_handler k received s
      | Some (C_PortClose close) \<Rightarrow> port_close_handler k close s)"

section \<open>A message only touches its sender\<close>

text \<open>
  \<open>local_to k s s'\<close>: going from \<open>s\<close> to \<open>s'\<close> keeps the registry well formed, the set of clients, the
  objects of all clients but \<open>k\<close> and every host name that is owned by someone else.
\<close>

definition local_to :: "nat \<Rightarrow> app_state \<Rightarrow> app_state \<Rightarrow> bool" where
  "local_to k s s' \<longleftrightarrow>
     (registry_ok (as_registry s) \<longrightarrow> registry_ok (as_registry s'))
     \<and> rg_clients (as_registry s') = rg_clients (as_registry s)
     \<and> as_hostnames s' = as_hostnames s
     \<and> (\<forall>j. j \<noteq> k \<longrightarrow> the_client s' j = the_client s j)"

lemma local_refl [simp]: "local_to k s s"
  by (simp add: local_to_def)

lemma local_trans: "\<lbrakk>local_to k s s'; local_to k s' s''\<rbrakk> \<Longrightarrow> local_to k s s''"
  by (simp add: local_to_def)

lemma local_on_client: "keeps_names f \<Longrightarrow> local_to k s (snd (on_client k f s))"
  by (simp add: local_to_def on_client_registry)

lemma local_send [simp]: "local_to k s (snd (send_to k m s))"
  unfolding send_to_def by (rule local_on_client) simp

lemma local_send_after: "local_to k s s' \<Longrightarrow> local_to k s (snd (send_to k m s'))"
  using local_trans local_send by blast

lemma local_metrics [simp]:
  "local_to k s (hostnames_inc s)" "local_to k s (hostnames_dec s)" "local_to k s (ports_inc s)"
  "local_to k s (hostnames_inc s') = local_to k s s'" "local_to k s (hostnames_dec s') = local_to k s s'"
  by (simp_all add: local_to_def)

lemma claim_other:
  "j \<noteq> k \<Longrightarrow> rg_heap (snd (claim_http_hostname k h r)) j = rg_heap r j"
  by (auto simp: claim_http_hostname_def claim_insert_def claim_add_def update_client_def
      split: bool.splits prod.splits)

lemma release_other:
  "j \<noteq> k \<Longrightarrow> rg_heap (snd (release_http_hostname k h r)) j = rg_heap r j"
  by (auto simp: release_http_hostname_def release_remove_def release_free_def update_client_def
      split: bool.splits prod.splits)

lemma local_claim:
  assumes "k \<in> set (rg_clients (as_registry s))"
  shows "local_to k s (snd (on_registry (claim_http_hostname k h) s))"
proof -
  have "registry_ok (snd (claim_http_hostname k h r))" if "registry_ok r" "k \<in> set (rg_clients r)" for r
    using claim_free(2) [OF that] claim_used [OF that(1)] that(1) by (cases "h \<in> rg_claimed r") auto
  moreover have "rg_clients (snd (claim_http_hostname k h r)) = rg_clients r" for r
    by (auto simp: claim_http_hostname_def claim_insert_def claim_add_fields split: bool.splits)
  ultimately show ?thesis
    using assms by (simp add: local_to_def claim_other)
qed

lemma local_release:
  assumes "k \<in> set (rg_clients (as_registry s))"
  shows "local_to k s (snd (on_registry (release_http_hostname k h) s))"
proof -
  have "registry_ok (snd (release_http_hostname k h r))" if "registry_ok r" "k \<in> set (rg_clients r)" for r
    using release_owned(2) [OF that] release_unowned that(1) by (cases "h \<in> names_of r k") auto
  moreover have "rg_clients (snd (release_http_hostname k h r)) = rg_clients r" for r
    by (auto simp: release_http_hostname_def release_remove_def release_free_def update_client_def
        split: bool.splits prod.splits)
  ultimately show ?thesis
    using assms by (simp add: local_to_def release_other)
qed

lemma local_http_open:
  assumes "k \<in> set (rg_clients (as_registry s))"
  shows "local_to k s (snd (http_open_handler lc name k req s))"
  using local_claim [OF assms]
  by (auto simp: http_open_handler_def Let_def intro!: local_send_after split: sum.splits prod.splits)
    (metis snd_conv)+

lemma local_http_close:
  assumes "k \<in> set (rg_clients (as_registry s))"
  shows "local_to k s (snd (http_close_handler k req s))"
proof -
  have "local_to k s (snd (on_registry (release_http_hostname k (hc_hostname req)) s))"
    by (rule local_release [OF assms])
  then show ?thesis
    by (auto simp: http_close_handler_def Let_def intro!: local_send_after split: prod.splits if_splits)
qed

lemma local_port_server: "local_to k s (snd (port_server bind k hostname a s))"
  by (auto simp: port_server_def local_to_def split: option.splits)

lemma local_port_open: "local_to k s (snd (port_open_handler lc bind k req s))"
proof -
  have "local_to k s (snd (on_client k (\<lambda>c. ((), register_port p c))
      (snd (port_server bind k hostname a s))))" for p hostname a
    by (rule local_trans [OF local_port_server]) (rule local_on_client, simp)
  then show ?thesis
    using local_port_server
    by (auto simp: port_open_handler_def Let_def intro!: local_send_after split: sum.splits prod.splits option.splits)
      (metis snd_conv)+
qed

lemma local_msg:
  assumes "k \<in> set (rg_clients (as_registry s))"
  shows "local_to k s (snd (msg lc name bind k payload s))"
  using local_http_open [OF assms] local_http_close [OF assms] local_port_open
  by (auto simp: local_on_client msg_def http_response_handler_def port_connected_handler_def
      port_receive_handler_def port_close_handler_def split: option.splits client_message.splits)

text \<open>
  C13. A message of one client leaves the objects of all other clients as they are, and with them
  the host names, pending requests and port writers: nobody can take over or give up a host name
  of somebody else. A handler that errs has no other effect on others either.
\<close>

theorem msg_isolation:
  assumes "registry_ok (as_registry s)" "k \<in> set (rg_clients (as_registry s))" "j \<noteq> k"
  shows "the_client (snd (msg lc name bind k payload s)) j = the_client s j
    \<and> (\<forall>h. get_by_http_hostname h (as_registry s) = Some j \<longrightarrow>
           get_by_http_hostname h (as_registry (snd (msg lc name bind k payload s))) = Some j)
    \<and> registry_ok (as_registry (snd (msg lc name bind k payload s)))"
proof -
  let ?s = "snd (msg lc name bind k payload s)"
  have l: "local_to k s ?s"
    by (rule local_msg [OF assms(2)])
  then have ok: "registry_ok (as_registry ?s)" and same: "the_client ?s j = the_client s j"
    and cl: "rg_clients (as_registry ?s) = rg_clients (as_registry s)"
    using assms(1,3) by (auto simp: local_to_def)
  have "get_by_http_hostname h (as_registry ?s) = Some j"
    if "get_by_http_hostname h (as_registry s) = Some j" for h
    using that same unfolding owner_iff [OF ok] owner_iff [OF assms(1)] cl by (simp add: names_of_def)
  with ok same show ?thesis by blast
qed

end
