(* ===== verification/Forwarding_Rules.thy ===== *)
theory Forwarding_Rules
  imports Msghandlers
begin

text \<open>
  What the handlers for opening and closing forwardings do to the ownership of host names and to
  the ports of the server: the functional behaviour of \<open>http::open\<close> and \<open>http::close\<close>, the
  names that can never be claimed, and exactly which port requests are let through.
\<close>

section \<open>Lower case\<close>

text \<open>What the code relies on of \<open>str::to_lowercase\<close>.\<close>

definition lowercases :: "(string \<Rightarrow> string) \<Rightarrow> bool" where
  "lowercases lc \<longleftrightarrow>
     (\<forall>s. list_all is_ascii s \<longrightarrow> lc s = map ascii_lower s) \<and> (\<forall>s. \<forall>c \<in> set (lc s). ascii_lower c = c)"

lemma lowercases_ascii: "lowercases (map ascii_lower)"
  by (simp add: lowercases_def)

lemma valid_char_ascii: "is_valid_char c \<Longrightarrow> is_ascii c"
  by (auto simp: is_valid_char_def is_ascii_alphanumeric_def is_ascii_def Let_def)

lemma valid_hostname_ascii: "hostname_is_valid h \<Longrightarrow> list_all is_ascii h"
  by (simp add: hostname_is_valid_def list_all_iff list_ex_iff valid_char_ascii)

lemma map_id_on: "\<forall>c \<in> set s. f c = c \<Longrightarrow> map f s = s"
  by (simp add: map_idI)

section \<open>The name that is asked for\<close>

lemma normalized_lower:
  assumes "lowercases lc" "c \<in> set (normalized_client_subdomain lc h x)"
  shows "ascii_lower c = c"
proof -
  have "\<exists>t. lc x = normalized_client_subdomain lc h x @ t"
    by (auto simp: normalized_client_subdomain_def Let_def strip_suffix_Some split: option.splits)
  then have "c \<in> set (lc x)"
    using assms(2) by (metis UnI1 set_append)
  then show ?thesis
    using assms(1) by (auto simp: lowercases_def)
qed

lemma subdomain_for_forwarding_Some:
  assumes "lowercases lc" "subdomain_for_forwarding lc h req = Ok (Some l)"
  shows "valid_label l \<and> dot \<notin> set l \<and> l \<noteq> hn_api h \<and> l \<noteq> hn_tcp h \<and> l \<notin> set (hn_subdomain_blocklist h)"
proof -
  obtain x where l: "l = normalized_client_subdomain lc h x" and v: "hostname_is_valid l" "dot \<notin> set l"
    and u: "\<not> is_subdomain_used lc h l" "\<not> is_subdomain_blocked lc h l"
    using assms(2) by (auto simp: subdomain_for_forwarding_def Let_def split: if_splits option.splits)
  have "lc l = map ascii_lower l"
    using assms(1) valid_hostname_ascii [OF v(1)] by (simp add: lowercases_def)
  also have "map ascii_lower l = l"
    using normalized_lower [OF assms(1)] l by (intro map_id_on) blast
  finally have "lc l = l" .
  moreover have "valid_label l"
    using v hostname_is_valid_labels [of l] by (simp add: split_on_no_sep)
  ultimately show ?thesis
    using u v(2) by (auto simp: is_subdomain_used_def is_subdomain_blocked_def normalize_subdomain_def
        list_ex_iff Let_def)
qed

text \<open>The full host name of a subdomain.\<close>

definition full_hostname :: "hostnames \<Rightarrow> string \<Rightarrow> string" where
  "full_hostname h sub = (if hn_domain h = [] then sub else sub @ dot # hn_domain h)"

section \<open>\<open>http::open\<close>\<close>

lemma claim_socket [simp]:
  "c_ws_open (rg_heap (snd (claim_http_hostname k h r)) j) = c_ws_open (rg_heap r j)"
  "c_ws_sent (rg_heap (snd (claim_http_hostname k h r)) j) = c_ws_sent (rg_heap r j)"
  by (auto simp: claim_http_hostname_def claim_insert_def claim_add_def update_client_def
      add_http_hostname_def split: bool.splits)

lemma release_socket [simp]:
  "c_ws_open (rg_heap (snd (release_http_hostname k h r)) j) = c_ws_open (rg_heap r j)"
  "c_ws_sent (rg_heap (snd (release_http_hostname k h r)) j) = c_ws_sent (rg_heap r j)"
  by (auto simp: release_http_hostname_def release_remove_def release_free_def update_client_def
      remove_http_hostname_def split: prod.splits bool.splits)

lemma metrics_stats [simp]:
  "as_stats (hostnames_inc s) = (as_stats s)\<lparr>st_http_hostnames := metric_inc (st_http_hostnames (as_stats s))\<rparr>"
  "as_stats (hostnames_dec s) = (as_stats s)\<lparr>st_http_hostnames := metric_dec (st_http_hostnames (as_stats s))\<rparr>"
  by (simp_all add: hostnames_inc_def hostnames_dec_def)

text \<open>What a state shows to the outside: who owns which name, the gauge, what was sent to a client.\<close>

abbreviation route :: "app_state \<Rightarrow> string \<Rightarrow> nat option" where
  "route s h \<equiv> get_by_http_hostname h (as_registry s)"

abbreviation sent_to :: "app_state \<Rightarrow> nat \<Rightarrow> server_message list" where
  "sent_to s k \<equiv> c_ws_sent (the_client s k)"

abbreviation http_gauge :: "app_state \<Rightarrow> i64" where
  "http_gauge s \<equiv> metric_get (st_http_hostnames (as_stats s))"

lemma metric_get_simps [simp]:
  "metric_get (metric_inc m) = metric_get m + 1" "metric_get (metric_dec m) = metric_get m - 1"
  by (simp_all add: metric_get_def metric_inc_def metric_dec_def metric_add_def)

lemma http_open_accepted:
  assumes "subdomain_for_forwarding lc (as_hostnames s) (ho_hostname req) = Inr sub"
    and "H = full_hostname (as_hostnames s) (case sub of Some l \<Rightarrow> l | None \<Rightarrow> name)"
  shows "http_open_handler lc name k req s =
      (let c = on_registry (claim_http_hostname k H) s
       in if \<not> fst c then
         send_to k (S_HttpOpened \<lparr>hod_hostname = H, hod_local_address = ho_local_address req,
           hod_error = Some (http_open_error_code HttpOpenError_InUse)\<rparr>) (snd c)
       else send_to k (S_HttpOpened \<lparr>hod_hostname = H, hod_local_address = ho_local_address req,
           hod_error = None\<rparr>) (hostnames_inc (snd c)))"
  using assms by (simp add: http_open_handler_def Let_def full_hostname_def case_prod_unfold)

lemma http_open_free:
  assumes "registry_ok (as_registry s)" "k \<in> set (rg_clients (as_registry s))"
    and "subdomain_for_forwarding lc (as_hostnames s) (ho_hostname req) = Inr sub"
    and "route s (full_hostname (as_hostnames s) (case sub of Some l \<Rightarrow> l | None \<Rightarrow> name)) = None"
  shows "route (snd (http_open_handler lc name k req s))
    = (route s)(full_hostname (as_hostnames s) (case sub of Some l \<Rightarrow> l | None \<Rightarrow> name) \<mapsto> k)"
  using claim_free [OF assms(1,2)] assms(4) owner_None [OF assms(1)]
  by (simp add: http_open_accepted [OF assms(3) refl] Let_def)

text \<open>
  C14. Opening an HTTP forwarding, every branch. A name that fails validation is answered with the
  reason and changes nothing. A name that is free becomes the client's and counts in the gauge;
  a name that is taken stays with its owner and the answer says so. The answer goes to the
  client that asked and names the host name.
\<close>

theorem http_open_correct:
  assumes ok: "registry_ok (as_registry s)" and k: "k \<in> set (rg_clients (as_registry s))"
    and ws: "c_ws_open (the_client s k)"
  shows "case subdomain_for_forwarding lc (as_hostnames s) (ho_hostname req) of
      Inl e \<Rightarrow>
        (\<forall>x. route (snd (http_open_handler lc name k req s)) x = route s x)
        \<and> http_gauge (snd (http_open_handler lc name k req s)) = http_gauge s
        \<and> sent_to (snd (http_open_handler lc name k req s)) k = sent_to s k @
            [S_HttpOpened \<lparr>hod_hostname = (case ho_hostname req of Some h \<Rightarrow> h | None \<Rightarrow> []),
              hod_local_address = ho_local_address req,
              hod_error = Some (case e of Invalid \<Rightarrow> 1 | Disallowed \<Rightarrow> 2)\<rparr>]
    | Inr sub \<Rightarrow>
        (let H = full_hostname (as_hostnames s) (case sub of Some l \<Rightarrow> l | None \<Rightarrow> name)
         in (\<forall>x. route (snd (http_open_handler lc name k req s)) x =
               (if x = H \<and> route s H = None then Some k else route s x))
            \<and> http_gauge (snd (http_open_handler lc name k req s)) =
              http_gauge s + (if route s H = None then 1 else 0)
            \<and> sent_to (snd (http_open_handler lc name k req s)) k = sent_to s k @
              [S_HttpOpened \<lparr>hod_hostname = H, hod_local_address = ho_local_address req,
                hod_error = (if route s H = None then None else Some 0)\<rparr>])"
proof (cases "subdomain_for_forwarding lc (as_hostnames s) (ho_hostname req)")
  case (Inl e)
  then show ?thesis
    using ws by (cases e) (simp_all add: http_open_handler_def send_to_sent)
next
  case (Inr sub)
  define H where "H = full_hostname (as_hostnames s) (case sub of Some l \<Rightarrow> l | None \<Rightarrow> name)"
  note handler = http_open_accepted [OF Inr H_def, of k]
  show ?thesis
  proof (cases "route s H")
    case None
    then have "H \<notin> rg_claimed (as_registry s)"
      using owner_None [OF ok] by blast
    then show ?thesis
      using claim_free [OF ok k] ws None Inr
      by (simp add: handler H_def [symmetric] Let_def send_to_sent fun_eq_iff)
  next
    case (Some j)
    then have "H \<in> rg_claimed (as_registry s)"
      using owner_None [OF ok, of H] by auto
    then show ?thesis
      using claim_used [OF ok] ws Some Inr
      by (simp add: handler H_def [symmetric] Let_def send_to_sent)
  qed
qed

text \<open>
  C15. A host name that comes to be owned through an open request is a label below the domain: it
  is none of the server's own host names and its label is not in the block list, in whatever
  case and form the client wrote it. This is stated for a generated name under the assumption
  that the generated name would itself be admitted.
\<close>

theorem http_names_reserved:
  assumes lc: "lowercases lc" and ok: "registry_ok (as_registry s)" and k: "k \<in> set (rg_clients (as_registry s))"
    and hn: "as_hostnames s = hostnames_new lc domain (Some api) (Some tcp) (Some blocked)" "domain \<noteq> []"
    and name: "subdomain_for_forwarding lc (as_hostnames s) (Some name) = Ok (Some name)"
    and new: "route (snd (http_open_handler lc name k req s)) H \<noteq> route s H"
  shows "\<exists>l. H = l @ dot # domain \<and> valid_label l \<and> l \<notin> set (map lc blocked)
      \<and> H \<noteq> main_hostname (as_hostnames s) \<and> H \<noteq> hn_api_hostname (as_hostnames s)
      \<and> H \<noteq> hn_tcp_hostname (as_hostnames s)"
proof -
  obtain sub where sub: "subdomain_for_forwarding lc (as_hostnames s) (ho_hostname req) = Inr sub"
    using new by (cases "subdomain_for_forwarding lc (as_hostnames s) (ho_hostname req)")
      (simp_all add: http_open_handler_def)
  define l where "l = (case sub of Some l \<Rightarrow> l | None \<Rightarrow> name)"
  have "\<exists>req. subdomain_for_forwarding lc (as_hostnames s) req = Ok (Some l)"
    using sub name by (cases sub) (auto simp: l_def)
  then obtain r where "subdomain_for_forwarding lc (as_hostnames s) r = Ok (Some l)" by blast
  note l = subdomain_for_forwarding_Some [OF lc this]
  have dom: "hn_domain (as_hostnames s) = domain" "hn_api (as_hostnames s) = lc api"
    "hn_tcp (as_hostnames s) = lc tcp" "hn_subdomain_blocklist (as_hostnames s) = map lc blocked"
    "hn_api_hostname (as_hostnames s) = new_hostname domain (lc api)"
    "hn_tcp_hostname (as_hostnames s) = new_hostname domain (lc tcp)"
    using hn by (simp_all add: hostnames_new_def normalize_subdomain_def [abs_def] Let_def)
  have "H = full_hostname (as_hostnames s) l"
  proof (rule ccontr)
    assume ne: "H \<noteq> full_hostname (as_hostnames s) l"
    let ?c = "snd (on_registry (claim_http_hostname k (full_hostname (as_hostnames s) l)) s)"
    have "route ?c H = route s H"
      using ne claim_free(3) [OF ok k, of "full_hostname (as_hostnames s) l"]
        claim_used [OF ok, of "full_hostname (as_hostnames s) l"]
      by (cases "full_hostname (as_hostnames s) l \<in> rg_claimed (as_registry s)")
        (auto dest: fun_cong [where x = H])
    moreover have "route (snd (http_open_handler lc name k req s)) H = route ?c H"
      using sub by (simp add: http_open_handler_def Let_def l_def full_hostname_def case_prod_unfold)
    ultimately show False
      using new by simp
  qed
  then have "H = l @ dot # domain"
    using dom hn(2) by (simp add: full_hostname_def)
  moreover have "l \<noteq> []"
    using l by (auto simp: valid_label_def)
  ultimately show ?thesis
    using l by (auto simp: dom new_hostname_def main_hostname_def)
qed

text \<open>A server with two clients, of which the first owns a name.\<close>

definition sample_hostnames :: hostnames where
  "sample_hostnames = hostnames_new (map ascii_lower) ''np.io'' (Some ''api'') (Some ''tcp'') (Some [''www''])"

definition sample_listen :: listen where
  "sample_listen = \<lparr>listen_address = V4 127 0 0 1, listen_http = 80, listen_https = 0\<rparr>"

definition sample_state :: app_state where
  "sample_state = snd (on_registry (claim_http_hostname 0 ''one.np.io'')
     (snd (on_registry (register sample_peer) (snd (on_registry (register sample_peer)
       (app_state_new sample_listen sample_hostnames stats_default
          \<lparr>opt_client_request_timeout_secs = 30, opt_send_welcome_message = False\<rparr>))))))"

lemma sample_state_ok:
  "registry_ok (as_registry sample_state)" "rg_clients (as_registry sample_state) = [0, 1]"
  "as_hostnames sample_state = sample_hostnames"
  "c_ws_open (the_client sample_state 0)" "c_ws_open (the_client sample_state 1)"
  "route sample_state ''one.np.io'' = Some 0" "route sample_state ''two.np.io'' = None"
proof -
  let ?r1 = "snd (register sample_peer registry_default)"
  let ?r2 = "snd (register sample_peer ?r1)"
  have r: "as_registry sample_state = snd (claim_http_hostname 0 ''one.np.io'' ?r2)"
    by (simp add: sample_state_def app_state_new_def)
  have ok: "registry_ok ?r2"
    by (intro register_ok registry_default_ok)
  have cl: "rg_clients ?r2 = [0, 1]" "''one.np.io'' \<notin> rg_claimed ?r2"
    by (simp_all add: register_def registry_default_def)
  note c = claim_free [OF ok _ cl(2), of 0]
  show "registry_ok (as_registry sample_state)" "rg_clients (as_registry sample_state) = [0, 1]"
    using c cl by (simp_all add: r)
  show "as_hostnames sample_state = sample_hostnames"
    by (simp add: sample_state_def app_state_new_def)
  show "c_ws_open (the_client sample_state 0)" "c_ws_open (the_client sample_state 1)"
    by (simp_all add: r register_def client_new_def registry_default_def)
  have free: "get_by_http_hostname h ?r2 = None" for h
    by (simp add: get_by_http_hostname_def register_def registry_default_def client_new_def has_http_hostname_def)
  show "route sample_state ''one.np.io'' = Some 0" "route sample_state ''two.np.io'' = None"
    using c(3) cl free [of "''two.np.io''"] unfolding r by (simp_all add: fun_eq_iff)
qed

lemma sample_requests:
  "subdomain_for_forwarding (map ascii_lower) sample_hostnames (Some ''Two.np.io'') = Ok (Some ''two'')"
  "subdomain_for_forwarding (map ascii_lower) sample_hostnames (Some ''one'') = Ok (Some ''one'')"
  "subdomain_for_forwarding (map ascii_lower) sample_hostnames (Some ''API'') = Err Disallowed"
  "subdomain_for_forwarding (map ascii_lower) sample_hostnames (Some ''g-1'') = Ok (Some ''g-1'')"
  by code_simp+

lemma sample_domain: "hn_domain sample_hostnames = ''np.io''"
  by (simp add: sample_hostnames_def hostnames_new_def Let_def)

definition ask :: "string \<Rightarrow> http_open" where
  "ask h = \<lparr>ho_hostname = Some h, ho_local_address = None\<rparr>"

theorem http_open_correct_witness:
  "route (snd (http_open_handler (map ascii_lower) ''g-1'' 1 (ask ''Two.np.io'') sample_state)) ''two.np.io'' = Some 1
   \<and> route (snd (http_open_handler (map ascii_lower) ''g-1'' 1 (ask ''one'') sample_state)) ''one.np.io'' = Some 0"
proof -
  have k: "1 \<in> set (rg_clients (as_registry sample_state))"
    by (simp add: sample_state_ok)
  note o = http_open_correct [OF sample_state_ok(1) k sample_state_ok(5), where lc = "map ascii_lower" and name = "''g-1''"]
  show ?thesis
    using o [where req = "ask ''Two.np.io''"] o [where req = "ask ''one''"]
    by (simp add: sample_state_ok sample_requests ask_def full_hostname_def sample_domain Let_def)
qed

theorem http_names_reserved_witness:
  "\<exists>l. ''two.np.io'' = l @ dot # ''np.io'' \<and> valid_label l \<and> l \<noteq> ''www''"
proof -
  have k: "1 \<in> set (rg_clients (as_registry sample_state))"
    by (simp add: sample_state_ok)
  have "route (snd (http_open_handler (map ascii_lower) ''g-1'' 1 (ask ''Two.np.io'') sample_state)) ''two.np.io''
      \<noteq> route sample_state ''two.np.io''"
    using http_open_free [OF sample_state_ok(1) k, of "map ascii_lower" "ask ''Two.np.io''" "Some ''two''" "''g-1''", THEN fun_cong, of "''two.np.io''"]
    by (simp add: sample_state_ok sample_requests ask_def full_hostname_def sample_domain)
  from http_names_reserved [OF lowercases_ascii sample_state_ok(1) k _ _ _ this,
      where domain = "''np.io''" and api = "''api''" and tcp = "''tcp''" and blocked = "[''www'']"]
  have "\<exists>l. ''two.np.io'' = l @ dot # ''np.io'' \<and> valid_label l \<and> l \<notin> set (map (map ascii_lower) [''www''])"
    using sample_requests(4) by (auto simp: sample_state_ok(3) sample_hostnames_def)
  then show ?thesis
    by (auto simp: ascii_lower_def)
qed

section \<open>\<open>http::close\<close>\<close>

text \<open>
  C16. Closing an HTTP forwarding succeeds exactly for the owner of the name: the name becomes
  free, the gauge goes down and the answer has no error. For anybody else nothing changes but
  the answer, \<open>NotRegistered\<close>.
\<close>

theorem http_close_correct:
  assumes ok: "registry_ok (as_registry s)" and k: "k \<in> set (rg_clients (as_registry s))"
    and ws: "c_ws_open (the_client s k)"
  shows "(\<forall>x. route (snd (http_close_handler k req s)) x =
        (if x = hc_hostname req \<and> route s x = Some k then None else route s x))
    \<and> http_gauge (snd (http_close_handler k req s)) =
        http_gauge s - (if route s (hc_hostname req) = Some k then 1 else 0)
    \<and> sent_to (snd (http_close_handler k req s)) k = sent_to s k @
        [S_HttpClosed \<lparr>hcd_hostname = hc_hostname req,
          hcd_error = (if route s (hc_hostname req) = Some k then None else Some 0)\<rparr>]"
proof -
  let ?c = "on_registry (release_http_hostname k (hc_hostname req)) s"
  have handler: "http_close_handler k req s =
      (if fst ?c then send_to k (S_HttpClosed \<lparr>hcd_hostname = hc_hostname req, hcd_error = None\<rparr>) (hostnames_dec (snd ?c))
       else send_to k (S_HttpClosed \<lparr>hcd_hostname = hc_hostname req, hcd_error = Some 0\<rparr>) (snd ?c))"
    by (simp add: http_close_handler_def Let_def case_prod_unfold)
  show ?thesis
  proof (cases "route s (hc_hostname req) = Some k")
    case True
    then have "hc_hostname req \<in> names_of (as_registry s) k"
      using owner_iff [OF ok] by blast
    then show ?thesis
      using release_owned [OF ok k] ws True by (simp add: handler send_to_sent fun_eq_iff)
  next
    case False
    then have "hc_hostname req \<notin> names_of (as_registry s) k"
      using owner_iff [OF ok] k by blast
    then show ?thesis
      using release_unowned ws False by (auto simp: handler send_to_sent)
  qed
qed

theorem http_close_correct_witness:
  "route (snd (http_close_handler 0 \<lparr>hc_hostname = ''one.np.io''\<rparr> sample_state)) ''one.np.io'' = None
   \<and> route (snd (http_close_handler 1 \<lparr>hc_hostname = ''one.np.io''\<rparr> sample_state)) ''one.np.io'' = Some 0"
  using http_close_correct [OF sample_state_ok(1) _ sample_state_ok(4), of "\<lparr>hc_hostname = ''one.np.io''\<rparr>"]
    http_close_correct [OF sample_state_ok(1) _ sample_state_ok(5), of "\<lparr>hc_hostname = ''one.np.io''\<rparr>"]
  by (simp add: sample_state_ok)

text \<open>The other client of the sample cannot disturb the first one.\<close>

lemma sample_msg: "(0::nat) \<noteq> 1" "1 \<in> set (rg_clients (as_registry sample_state))"
  by (simp_all add: sample_state_ok)

theorem msg_isolation_witness:
  "route (snd (msg (map ascii_lower) ''g-1'' (\<lambda>_. None) 1
     (Some (C_HttpClose \<lparr>hc_hostname = ''one.np.io''\<rparr>)) sample_state)) ''one.np.io'' = Some 0"
  using msg_isolation [OF sample_state_ok(1) sample_msg(2) sample_msg(1), of "map ascii_lower" "''g-1''"
      "\<lambda>_. None" "Some (C_HttpClose \<lparr>hc_hostname = ''one.np.io''\<rparr>)"]
  by (simp add: sample_state_ok)

section \<open>\<open>port::open\<close>\<close>

abbreviation port_gauge :: "app_state \<Rightarrow> i64" where
  "port_gauge s \<equiv> metric_get (st_tcp_ports (as_stats s))"

definition wanted_port :: "port_open \<Rightarrow> u16" where
  "wanted_port req = addr_port (from_address (po_remote_address req))"

definition port_answer :: "hostnames \<Rightarrow> port_open \<Rightarrow> u16 \<Rightarrow> i32 option \<Rightarrow> server_message" where
  "port_answer h req p err = S_PortOpened \<lparr>pod_protocol = po_protocol req,
     pod_remote_address = Some (to_address (from_host_and_port (hn_tcp_hostname h) p)),
     pod_local_address = po_local_address req, pod_error = err\<rparr>"

lemma ports_inc_stats [simp]:
  "as_stats (ports_inc s) = (as_stats s)\<lparr>st_tcp_ports := metric_inc (st_tcp_ports (as_stats s))\<rparr>"
  by (simp add: ports_inc_def)

text \<open>
  C20. Opening a port, every branch. A refused request starts nothing. Otherwise the server binds
  the wanted port on all interfaces; if that fails the client is told that it is in use, and if
  it succeeds there is one more listener, owned by that client, its stopper is kept with the
  client, the gauge goes up, and the client learns the port that was really bound.
\<close>

theorem port_open_correct:
  assumes ws: "c_ws_open (the_client s k)"
  shows "let s' = snd (port_open_handler lc bind k req s); h = as_hostnames s in
    (case validate_open lc h req of
       Inl e \<Rightarrow> as_listeners s' = as_listeners s \<and> port_gauge s' = port_gauge s
         \<and> sent_to s' k = sent_to s k @ [port_answer h req (wanted_port req) (Some (port_open_error_code e))]
     | Inr _ \<Rightarrow>
         (case bind (''0.0.0.0:'' @ show_nat (unat (wanted_port req))) of
            None \<Rightarrow> as_listeners s' = as_listeners s \<and> port_gauge s' = port_gauge s
              \<and> sent_to s' k = sent_to s k @ [port_answer h req (wanted_port req) (Some 0)]
          | Some p \<Rightarrow> as_listeners s' = as_listeners s @
                [\<lparr>ls_client = k, ls_port = p, ls_remote_addr = from_host_and_port (hn_tcp_hostname h) p,
                  ls_closer = Waiting, ls_phase = Accepting\<rparr>]
              \<and> port_gauge s' = port_gauge s + 1
              \<and> c_open_ports (the_client s' k) = c_open_ports (the_client s k) @
                  [\<lparr>p_closer = Some (length (as_listeners s)), p_port = p\<rparr>]
              \<and> sent_to s' k = sent_to s k @ [port_answer h req p None]))"
proof (cases "validate_open lc (as_hostnames s) req")
  case (Inl e)
  then show ?thesis
    using ws by (simp add: port_open_handler_def Let_def port_answer_def wanted_port_def send_to_sent)
next
  case (Inr u)
  then show ?thesis
    using ws by (cases "bind (''0.0.0.0:'' @ show_nat (unat (wanted_port req)))")
      (simp_all add: port_open_handler_def port_server_def Let_def port_answer_def wanted_port_def
        send_to_def client_send_def register_port_def case_prod_unfold)
qed

definition ask_port :: "string option \<Rightarrow> u32 \<Rightarrow> port_open" where
  "ask_port h p = \<lparr>po_protocol = 0, po_remote_address = Some \<lparr>address_host = h, address_port = p\<rparr>,
     po_local_address = None\<rparr>"

theorem port_open_correct_witness:
  "map ls_port (as_listeners (snd (port_open_handler (map ascii_lower) (\<lambda>_. Some 40000) 1 (ask_port None 0) sample_state)))
     = map ls_port (as_listeners sample_state) @ [40000]"
  using port_open_correct [OF sample_state_ok(5), of "map ascii_lower" "\<lambda>_. Some 40000" "ask_port None 0"]
  by (simp add: validate_open_def ask_port_def Let_def)

text \<open>
  The guard for privileged ports looks at the 32-bit number of the request, the port that is
  bound is its low half.
\<close>

lemma privileged_port_bypass:
  "is_ok (validate_open lc h (ask_port None p))
      \<and> 0 < unat (wanted_port (ask_port None p)) \<and> unat (wanted_port (ask_port None p)) < 1024
   \<longleftrightarrow> 65536 \<le> unat p \<and> 0 < unat p mod 65536 \<and> unat p mod 65536 < 1024"
proof -
  have v: "is_ok (validate_open lc h (ask_port None p)) \<longleftrightarrow> unat p = 0 \<or> 1024 \<le> unat p"
    by (auto simp: validate_open_def ask_port_def word_le_nat_alt word_less_nat_alt unat_gt_0)
  have w: "unat (wanted_port (ask_port None p)) = unat p mod 65536"
    by (simp add: wanted_port_def ask_port_def from_address_port)
  show ?thesis unfolding v w by (cases "unat p < 65536") auto
qed

text \<open>
  The host of a port request is compared after the domain has been stripped from it, with a
  host name that still has it: asking for the server's own TCP host name is refused, and what is
  admitted is that name with the domain a second time.
\<close>

theorem tcp_hostname_refused:
  assumes hn: "h = hostnames_new lc domain api (Some tcp) blocked" "domain \<noteq> []" "lc tcp \<noteq> []"
    and lower: "lc (hn_tcp_hostname h) = hn_tcp_hostname h"
      "lc (hn_tcp_hostname h @ dot # domain) = hn_tcp_hostname h @ dot # domain"
    and p: "p = 0 \<or> 1024 \<le> p"
  shows "validate_open lc h (ask_port (Some (hn_tcp_hostname h)) p) = Err PortOpenError_HostNotAllowed
    \<and> validate_open lc h (ask_port (Some (hn_tcp_hostname h @ dot # domain)) p) = Ok ()"
proof -
  have h: "hn_tcp_hostname h = lc tcp @ dot # domain" "hn_domain h = domain"
    using hn by (simp_all add: hostnames_new_def new_hostname_def normalize_subdomain_def Let_def)
  have "normalized_client_subdomain lc h (hn_tcp_hostname h) = lc tcp"
    using lower(1) strip_suffix_append [of "dot # domain" "lc tcp"]
    by (simp add: normalized_client_subdomain_def Let_def h)
  moreover have "normalized_client_subdomain lc h (hn_tcp_hostname h @ dot # domain) = hn_tcp_hostname h"
    using lower(2) strip_suffix_append [of "dot # domain" "lc tcp @ dot # domain"]
    by (simp add: normalized_client_subdomain_def Let_def h)
  moreover have "lc tcp \<noteq> hn_tcp_hostname h"
    by (simp add: h)
  ultimately show ?thesis
    using p by (auto simp: validate_open_def ask_port_def Let_def)
qed

text \<open>
  C26. What the guard on port requests lets through, and what it does not. It looks at the 32-bit number
  of the request, and the port that is bound is its low half: a request that names no host gets past the guard and
  has one of the ports 1 to 1023 bound exactly when it names a number above 65535 with such a low half, each such
  number included; 65616 is one for port 80. And the host of a request is compared after the domain has been
  stripped from it, with a host name that still has it: with a domain and a TCP subdomain configured (and
  lower-casing that leaves that host name as it is), asking for the server's own TCP host name at an admitted number
  is refused, while that name with the domain a second time is admitted.
\<close>

theorem port_guard_gaps:
  assumes hn: "h = hostnames_new lc domain api (Some tcp) blocked" "domain \<noteq> []" "lc tcp \<noteq> []"
    and lower: "lc (hn_tcp_hostname h) = hn_tcp_hostname h"
      "lc (hn_tcp_hostname h @ dot # domain) = hn_tcp_hostname h @ dot # domain"
    and q: "q = 0 \<or> 1024 \<le> q"
  shows "(\<forall>lc h p. is_ok (validate_open lc h (ask_port None p))
        \<and> 0 < unat (wanted_port (ask_port None p)) \<and> unat (wanted_port (ask_port None p)) < 1024
       \<longleftrightarrow> 65536 \<le> unat p \<and> 0 < unat p mod 65536 \<and> unat p mod 65536 < 1024)
    \<and> is_ok (validate_open lc h (ask_port None 65616)) \<and> wanted_port (ask_port None 65616) = 80
    \<and> validate_open lc h (ask_port (Some (hn_tcp_hostname h)) q) = Err PortOpenError_HostNotAllowed
    \<and> validate_open lc h (ask_port (Some (hn_tcp_hostname h @ dot # domain)) q) = Ok ()"
proof -
  have "wanted_port (ask_port None 65616) = 80"
    by (simp add: ask_port_def wanted_port_def from_address_def)
  moreover have "is_ok (validate_open lc h (ask_port None 65616))"
    by (simp add: validate_open_def ask_port_def)
  ultimately show ?thesis using privileged_port_bypass tcp_hostname_refused [OF hn lower q] by blast
qed

theorem port_guard_gaps_witness:
  "validate_open (map ascii_lower) sample_hostnames (ask_port (Some ''tcp.np.io'') 9999) = Err PortOpenError_HostNotAllowed
    \<and> is_ok (validate_open (map ascii_lower) sample_hostnames (ask_port None 65616))"
  using port_guard_gaps [OF sample_hostnames_def, of 9999]
  by (simp add: sample_hostnames_def hostnames_new_def new_hostname_def normalize_subdomain_def Let_def
      ascii_lower_def)

end
