(* ===== verification/Websockets.thy ===== *)
theory Websockets
  imports Forwarding_Rules "HOL-Library.AList"
begin

text \<open>
  \<open>nport-server/src/server/handlers/websockets.rs\<close>: the session of a client on its web socket
  (\<open>handle_socket\<close>) and the forwarding of HTTP requests to clients (\<open>forward\<close>).

  A session is its start, the turns of its loop and its end; \<open>handle_socket\<close> runs them over the
  frames that arrive. Forwarding is \<open>enqueue_request\<close>, the wait for the answer (whose outcome
  is the value \<open>wait\<close>) and the construction of the response. Parameters: \<open>decode\<close> is \<open>prost\<close>'s
  decoder, \<open>header_name\<close> and \<open>header_value\<close> are the checks of the \<open>http\<close> crate; the identifier
  of a request (\<open>Uuid::new_v4\<close>) is an argument. The error page is the data handed to the template.
\<close>

section \<open>Sessions\<close>

record build_info =
  bi_pkg_version :: string
  bi_short_commit_hash :: string
  bi_build_time :: string

definition welcome_message :: "build_info \<Rightarrow> string \<Rightarrow> server_message" where
  "welcome_message b domain = S_Print
     \<lparr>print_message = ''Connected to nport server on '' @ domain @ '' - v'' @ bi_pkg_version b @ '' (''
        @ bi_short_commit_hash b @ '') built on '' @ bi_build_time b,
      print_level = print_level_code Level_Info\<rparr>"

definition send_welcome :: "build_info \<Rightarrow> nat \<Rightarrow> app_state \<Rightarrow> (server_error + unit) \<times> app_state" where
  "send_welcome b k s =
     (if \<not> opt_send_welcome_message (as_options s) then (Ok (), s)
      else send_to k (welcome_message b (hn_domain (as_hostnames s))) s)"

text \<open>\<open>ws_ok\<close>: whether the new socket still accepts messages.\<close>

definition session_start ::
  "build_info \<Rightarrow> socket_addr \<Rightarrow> bool \<Rightarrow> app_state \<Rightarrow> (server_error + nat) \<times> app_state" where
  "session_start b who ws_ok s =
     (let (k, s1) = on_registry (register who) s;
          s2 = snd (on_client k (\<lambda>c. ((), c\<lparr>c_ws_open := ws_ok\<rparr>)) s1)
      in case send_welcome b k s2 of
           (Inl e, s3) \<Rightarrow> (Err e, s3)
         | (Inr _, s3) \<Rightarrow> (Ok k, connections_inc s3))"

text \<open>What reaches the session: a frame, with the name the generator would give and the binder.\<close>

record arrival =
  ar_frame :: "ws_frame option"
  ar_name :: string
  ar_bind :: "string \<Rightarrow> u16 option"

datatype turn = Continue | Break | Wait

definition session_turn ::
  "(string \<Rightarrow> string) \<Rightarrow> (bytes \<Rightarrow> client_payload option) \<Rightarrow> nat \<Rightarrow> arrival \<Rightarrow> app_state \<Rightarrow> turn \<times> app_state" where
  "session_turn lc decode k a s =
     (case client_recv decode (ar_frame a) of
        Inl _ \<Rightarrow> (Break, s)
      | Inr payload \<Rightarrow>
          (case msg lc (ar_name a) (ar_bind a) k payload s of
             (Ready (Inr _), s') \<Rightarrow> (Continue, s')
           | (Ready (Inl _), s') \<Rightarrow> (Break, s')
           | (Pending, s') \<Rightarrow> (Wait, s')))"

definition session_end :: "nat \<Rightarrow> app_state \<Rightarrow> app_state" where
  "session_end k s = connections_dec (snd (on_registry (deregister k) s))"

text \<open>\<open>False\<close>: the session still waits, for a frame or for room in a channel.\<close>

fun session_loop ::
  "(string \<Rightarrow> string) \<Rightarrow> (bytes \<Rightarrow> client_payload option) \<Rightarrow> nat \<Rightarrow> arrival list \<Rightarrow> app_state \<Rightarrow> bool \<times> app_state" where
  "session_loop lc decode k [] s = (False, s)"
| "session_loop lc decode k (a # as) s =
     (case session_turn lc decode k a s of
        (Continue, s') \<Rightarrow> session_loop lc decode k as s'
      | (Break, s') \<Rightarrow> (True, s')
      | (Wait, s') \<Rightarrow> (False, s'))"

definition handle_socket ::
  "(string \<Rightarrow> string) \<Rightarrow> (bytes \<Rightarrow> client_payload option) \<Rightarrow> build_info \<Rightarrow> socket_addr \<Rightarrow> bool \<Rightarrow> arrival list
   \<Rightarrow> app_state \<Rightarrow> bool \<times> app_state" where
  "handle_socket lc decode b who ws_ok as s =
     (case session_start b who ws_ok s of
        (Inl _, s1) \<Rightarrow> (True, s1)
      | (Inr k, s1) \<Rightarrow>
          (case session_loop lc decode k as s1 of
             (True, s2) \<Rightarrow> (True, session_end k s2)
           | (False, s2) \<Rightarrow> (False, s2)))"

section \<open>Errors of a forwarded request\<close>

definition display_http_response_error :: "http_response_error option \<Rightarrow> string" where
  "display_http_response_error e =
     (case e of
        None \<Rightarrow> ''unknown error''
      | Some (ForwardingNotRegistered h) \<Rightarrow> ''forwarding not registered for '' @ h
      | Some (InvalidMethod m err) \<Rightarrow> ''invalid HTTP method '' @ m @ '': '' @ err
      | Some (InvalidHeaderName n err) \<Rightarrow> ''invalid header name for: '' @ n
      | Some (InvalidHeaderValue n v err) \<Rightarrow> ''invalid header value for '' @ n @ '': '' @ v
      | Some (CreatingRequest err) \<Rightarrow> ''error creating request: '' @ err
      | Some (FetchingResponse err) \<Rightarrow> ''error fetching response: '' @ err
      | Some (ReadingResponse err) \<Rightarrow> ''error reading response: '' @ err)"

datatype forward_error =
    Fwd_ClientNotFound
  | Fwd_EmptyResponsePayload
  | Fwd_Timeout
  | Fwd_Recv
  | Fwd_ErrorResponse "http_response_error option"

fun forward_status_code :: "forward_error \<Rightarrow> u16" where
  "forward_status_code Fwd_ClientNotFound = 404"
| "forward_status_code Fwd_EmptyResponsePayload = 500"
| "forward_status_code Fwd_Timeout = 504"
| "forward_status_code Fwd_Recv = 500"
| "forward_status_code (Fwd_ErrorResponse e) = 502"

text \<open>The texts of \<open>Elapsed\<close> and \<open>RecvError\<close> are those of \<open>tokio\<close>.\<close>

fun display_forward_error :: "forward_error \<Rightarrow> string" where
  "display_forward_error Fwd_ClientNotFound = ''no client registered for this domain''"
| "display_forward_error Fwd_EmptyResponsePayload = ''empty response from client''"
| "display_forward_error Fwd_Timeout = ''timeout awaiting HTTP response''"
| "display_forward_error Fwd_Recv = ''error receiving HTTP response: channel closed''"
| "display_forward_error (Fwd_ErrorResponse e) = ''error from client: '' @ display_http_response_error e"

section \<open>Requests\<close>

text \<open>
  A \<open>HeaderMap\<close>: names in order of their first appearance, each with its values. Iteration by
  value yields the name with the first value only (\<open>None\<close> for the others).
\<close>

type_synonym header_multimap = "(string \<times> bytes list) list"

fun header_into_iter :: "header_multimap \<Rightarrow> (string option \<times> bytes) list" where
  "header_into_iter [] = []"
| "header_into_iter ((n, []) # h) = header_into_iter h"
| "header_into_iter ((n, v # vs) # h) = (Some n, v) # map (Pair None) vs @ header_into_iter h"

definition header_get :: "string \<Rightarrow> header_multimap \<Rightarrow> bytes option" where
  "header_get n h = (case map_of h n of Some (v # vs) \<Rightarrow> Some v | _ \<Rightarrow> None)"

text \<open>\<open>HeaderValue::to_str\<close>: visible ASCII, space and tab.\<close>

definition header_to_str :: "bytes \<Rightarrow> string option" where
  "header_to_str v =
     (if list_all (\<lambda>b. (32 \<le> b \<and> b < 127) \<or> b = 9) v then Some (map (\<lambda>b. char_of (unat b)) v) else None)"

text \<open>The closure that carries the previous name over.\<close>

fun with_previous :: "string option \<Rightarrow> (string option \<times> bytes) list \<Rightarrow> (string \<times> bytes) list outcome" where
  "with_previous prev [] = Return []"
| "with_previous prev ((Some n, v) # xs) =
     bind_outcome (with_previous (Some n) xs) (\<lambda>r. Return ((n, v) # r))"
| "with_previous (Some n) ((None, v) # xs) =
     bind_outcome (with_previous (Some n) xs) (\<lambda>r. Return ((n, v) # r))"
| "with_previous None ((None, v) # xs) = Panic"

text \<open>Collecting into a \<open>HashMap\<close>: a later value replaces an earlier one.\<close>

definition collect_map :: "(string \<times> bytes) list \<Rightarrow> header_map" where
  "collect_map kvs = fold (\<lambda>(k, v). AList.update k v) kvs []"

record incoming =
  in_addr :: socket_addr
  in_method :: string
  in_uri :: string
  in_headers :: header_multimap
  in_body :: bytes

definition enqueue_request ::
  "string \<Rightarrow> string \<Rightarrow> incoming \<Rightarrow> app_state \<Rightarrow> ((server_error + nat \<times> nat) \<times> app_state) outcome" where
  "enqueue_request uuid hostname r s =
     (case get_by_http_hostname hostname (as_registry s) of
        None \<Rightarrow> Return (Err ClientNotFound, s)
      | Some k \<Rightarrow>
          bind_outcome (with_previous None (header_into_iter (in_headers r))) (\<lambda>kvs.
            let header_map = collect_map kvs;
                (rx, s1) = on_client k (register_http_request uuid) s;
                request = \<lparr>hq_uuid = uuid, hq_hostname = hostname,
                   hq_client_address = Some (to_address (from_socket_addr (in_addr r))),
                   hq_scheme = http_scheme_code (if as_via_tls s then Scheme_Http else Scheme_Https),
                   hq_method = in_method r, hq_uri = in_uri r, hq_headers = header_map,
                   hq_body = Some (in_body r)\<rparr>
            in case send_to k (S_HttpRequest request) s1 of
                 (Inl e, s2) \<Rightarrow> Return (Err e, snd (on_client k (\<lambda>c. ((), c\<lparr>c_http_channels :=
                     (c_http_channels c)(rx := oneshot_drop_receiver (c_http_channels c rx))\<rparr>)) s2))
               | (Inr _, s2) \<Rightarrow> Return (Ok (k, rx), s2)))"

section \<open>Responses\<close>

text \<open>How the wait for the oneshot channel ended.\<close>

datatype wait = TimedOut | Received "unit + http_response"

definition forward_request :: "server_error + 'rx \<Rightarrow> wait \<Rightarrow> forward_error + http_response_data" where
  "forward_request rx w =
     (case rx of
        Inl _ \<Rightarrow> Err Fwd_ClientNotFound
      | Inr _ \<Rightarrow>
          (case w of
             TimedOut \<Rightarrow> Err Fwd_Timeout
           | Received (Inl _) \<Rightarrow> Err Fwd_Recv
           | Received (Inr response) \<Rightarrow>
               (case hr_payload response of
                  None \<Rightarrow> Err Fwd_EmptyResponsePayload
                | Some (PayloadError e) \<Rightarrow> Err (Fwd_ErrorResponse e)
                | Some (PayloadData d) \<Rightarrow> Ok d)))"

definition should_skip_header :: "string \<Rightarrow> bool" where
  "should_skip_header h \<longleftrightarrow> h = ''transfer-encoding''"

text \<open>\<open>StatusCode::from_u16\<close> accepts 100 to 999.\<close>

definition status_from_u16 :: "u16 \<Rightarrow> u16 option" where
  "status_from_u16 n = (if 100 \<le> n \<and> n < 1000 then Some n else None)"

datatype response =
    Forwarded u16 "(string \<times> bytes) list" bytes
  | ErrorPage u16 string string

definition response_headers ::
  "(string \<Rightarrow> string option) \<Rightarrow> (bytes \<Rightarrow> bytes option) \<Rightarrow> header_map \<Rightarrow> (string \<times> bytes) list" where
  "response_headers header_name header_value h =
     List.map_filter (\<lambda>(n, v). if should_skip_header n then None
        else (case header_name n of None \<Rightarrow> None | Some n' \<Rightarrow>
             (case header_value v of None \<Rightarrow> None | Some v' \<Rightarrow> Some (n', v')))) h"

text \<open>The \<open>Host\<close> header as it is; a missing or unreadable one is the empty name.\<close>

definition request_hostname :: "incoming \<Rightarrow> string" where
  "request_hostname r =
     (case header_get ''host'' (in_headers r) of
        Some host \<Rightarrow> (case header_to_str host of Some h \<Rightarrow> h | None \<Rightarrow> [])
      | None \<Rightarrow> [])"

definition forward_reply ::
  "(string \<Rightarrow> string option) \<Rightarrow> (bytes \<Rightarrow> bytes option) \<Rightarrow> string \<Rightarrow> forward_error + http_response_data
   \<Rightarrow> response outcome" where
  "forward_reply header_name header_value hostname result =
     (case result of
        Inr data \<Rightarrow>
          bind_outcome (unwrap_option (status_from_u16 (ucast (hd_status_code data)))) (\<lambda>code.
            Return (Forwarded code (response_headers header_name header_value (hd_headers data)) (hd_body data)))
      | Inl error \<Rightarrow>
          Return (ErrorPage (forward_status_code error) hostname (display_forward_error error)))"

end
