(* ===== verification/Session_Props.thy ===== *)
theory Session_Props
  imports Websockets
begin

text \<open>
  Theorems on the sessions of clients and on forwarded HTTP requests: a session leaves nothing
  behind in the registry, a request reaches the client that owns the name and the answer of
  that client, and of no other, reaches the visitor.
\<close>

section \<open>Sessions\<close>

abbreviation connection_gauge :: "app_state \<Rightarrow> i64" where
  "connection_gauge s \<equiv> metric_get (st_client_connections (as_stats s))"

lemma on_registry_gauge [simp]: "connection_gauge (snd (on_registry f s)) = connection_gauge s"
  by simp

lemma gauge_metrics [simp]:
  "st_client_connections (as_stats (hostnames_inc s)) = st_client_connections (as_stats s)"
  "st_client_connections (as_stats (hostnames_dec s)) = st_client_connections (as_stats s)"
  "st_client_connections (as_stats (ports_inc s)) = st_client_connections (as_stats s)"
  "connection_gauge (connections_inc s) = connection_gauge s + 1"
  "connection_gauge (connections_dec s) = connection_gauge s - 1"
  by (simp_all add: hostnames_inc_def hostnames_dec_def ports_inc_def connections_inc_def connections_dec_def)

lemma http_open_gauge: "connection_gauge (snd (http_open_handler lc name k req s)) = connection_gauge s"
  by (simp add: http_open_handler_def Let_def case_prod_unfold split: sum.splits)

lemma http_close_gauge: "connection_gauge (snd (http_close_handler k req s)) = connection_gauge s"
  by (simp add: http_close_handler_def Let_def case_prod_unfold)

lemma port_server_gauge:
  "st_client_connections (as_stats (snd (port_server bind k hostname a s))) = st_client_connections (as_stats s)"
  by (simp add: port_server_def split: option.splits)

lemma port_open_gauge: "connection_gauge (snd (port_open_handler lc bind k req s)) = connection_gauge s"
  by (simp add: port_open_handler_def Let_def case_prod_unfold port_server_gauge split: sum.splits option.splits)

lemma msg_gauge: "connection_gauge (snd (msg lc name bind k payload s)) = connection_gauge s"
  by (simp add: msg_def http_open_gauge http_close_gauge port_open_gauge http_response_handler_def
      port_connected_handler_def port_receive_handler_def port_close_handler_def
      split: option.splits client_message.splits)

lemma turn_state:
  "snd (session_turn lc decode k a s) =
     (case client_recv decode (ar_frame a) of
        Inl e \<Rightarrow> s | Inr payload \<Rightarrow> snd (msg lc (ar_name a) (ar_bind a) k payload s))"
  by (simp add: session_turn_def split: sum.split prod.split poll.split)

lemma turn_local:
  "k \<in> set (rg_clients (as_registry s)) \<Longrightarrow> local_to k s (snd (session_turn lc decode k a s))"
  by (simp add: turn_state local_msg split: sum.split)

lemma turn_gauge: "connection_gauge (snd (session_turn lc decode k a s)) = connection_gauge s"
  by (simp add: turn_state msg_gauge split: sum.split)

lemma loop_local:
  "k \<in> set (rg_clients (as_registry s)) \<Longrightarrow>
     local_to k s (snd (session_loop lc decode k arr s))
     \<and> connection_gauge (snd (session_loop lc decode k arr s)) = connection_gauge s"
proof (induction arr arbitrary: s)
  case (Cons a arr)
  obtain t s' where t: "session_turn lc decode k a s = (t, s')" by fastforce
  have l: "local_to k s s'" "connection_gauge s' = connection_gauge s"
    using turn_local [OF Cons.prems, of lc decode a] turn_gauge [of lc decode k a s] t by simp_all
  then have "k \<in> set (rg_clients (as_registry s'))"
    using Cons.prems by (simp add: local_to_def)
  then show ?case
    using Cons.IH [of s'] l t local_trans by (cases t) auto
qed simp

lemma send_welcome_local: "local_to k s (snd (send_welcome b k s))"
  by (simp add: send_welcome_def)

lemma send_welcome_gauge: "connection_gauge (snd (send_welcome b k s)) = connection_gauge s"
  by (simp add: send_welcome_def)

lemma local_connections [simp]:
  "local_to k s (connections_inc s') = local_to k s s'" "local_to k s (connections_dec s') = local_to k s s'"
  by (simp_all add: local_to_def)

lemma local_route:
  assumes "local_to k s s'" "registry_ok (as_registry s)" "j \<noteq> k"
  shows "route s' h = Some j \<longleftrightarrow> route s h = Some j"
proof -
  have "registry_ok (as_registry s')" "names_of (as_registry s') j = names_of (as_registry s) j"
      "rg_clients (as_registry s') = rg_clients (as_registry s)"
    using assms by (simp_all add: local_to_def names_of_def)
  then show ?thesis
    by (simp add: owner_iff assms(2))
qed

lemma send_to_result: "fst (send_to k m s) = (if c_ws_open (the_client s k) then Ok () else Err WebSocketError)"
  by (simp add: send_to_def client_send_def)

lemma register_id: "fst (register who r) = rg_next r"
  by (simp add: register_def)

lemma session_start_result:
  "fst (session_start b who ws_ok s) =
     (if ws_ok \<or> \<not> opt_send_welcome_message (as_options s) then Ok (rg_next (as_registry s))
      else Err WebSocketError)"
  by (simp add: session_start_def Let_def case_prod_unfold send_welcome_def send_to_result register_id)

text \<open>The state in which the loop of a session starts.\<close>

lemma session_start_state:
  assumes ok: "registry_ok (as_registry s)" and st: "session_start b who ws_ok s = (r, s1)"
  shows "registry_ok (as_registry s1)" "\<And>h. route s1 h = route s h"
    "set (rg_clients (as_registry s1)) = insert (rg_next (as_registry s)) (set (rg_clients (as_registry s)))"
    "rg_next (as_registry s) \<notin> set (rg_clients (as_registry s))"
    "\<And>k. r = Inr k \<Longrightarrow> k = rg_next (as_registry s) \<and> connection_gauge s1 = connection_gauge s + 1"
    "\<And>e. r = Inl e \<Longrightarrow> connection_gauge s1 = connection_gauge s"
proof -
  let ?k = "rg_next (as_registry s)"
  let ?sa = "snd (on_registry (register who) s)"
  let ?sb = "snd (on_client ?k (\<lambda>c. ((), c\<lparr>c_ws_open := ws_ok\<rparr>)) ?sa)"
  obtain w sc where w: "send_welcome b ?k ?sb = (w, sc)" by fastforce
  have kn: "keeps_names (\<lambda>c. ((), c\<lparr>c_ws_open := ws_ok\<rparr>))"
    by (simp add: keeps_names_def)
  note reg = register_ok [OF ok, where who = who]
  have fst: "fst (on_registry (register who) s) = ?k"
    by (simp add: register_def)
  have s1: "s1 = (case w of Inl e \<Rightarrow> sc | Inr u \<Rightarrow> connections_inc sc)"
    and r: "r = (case w of Inl e \<Rightarrow> Err e | Inr u \<Rightarrow> Ok ?k)"
    using st w fst by (auto simp: session_start_def Let_def case_prod_unfold split: sum.splits)
  have loc: "local_to ?k ?sb sc"
    using send_welcome_local [of ?k ?sb b] w by simp
  have b: "registry_ok (as_registry ?sb)" "owners (as_registry ?sb) = owners (as_registry s)"
      "rg_clients (as_registry ?sb) = rg_clients (as_registry s) @ [?k]"
    using reg on_client_registry [OF kn, of ?k ?sa] by (simp_all add: register_def)
  have regs: "as_registry s1 = as_registry sc"
    by (simp add: s1 split: sum.splits)
  show "registry_ok (as_registry s1)"
    using b(1) loc by (simp add: regs local_to_def)
  show fresh: "?k \<notin> set (rg_clients (as_registry s))"
    using registry_okD(2) [OF ok] by blast
  show "set (rg_clients (as_registry s1)) = insert ?k (set (rg_clients (as_registry s)))"
    using b(3) loc by (auto simp: regs local_to_def)
  have g: "connection_gauge sc = connection_gauge s"
    using send_welcome_gauge [of b ?k ?sb] w by simp
  then show "\<And>k. r = Inr k \<Longrightarrow> k = ?k \<and> connection_gauge s1 = connection_gauge s + 1"
    "\<And>e. r = Inl e \<Longrightarrow> connection_gauge s1 = connection_gauge s"
    by (auto simp: s1 r split: sum.splits)
  have "owners (as_registry sc) = owners (as_registry ?sb)"
    using w by (auto simp: send_welcome_def split: if_splits) (metis send_to_registry(2) snd_conv)
  then show "\<And>h. route s1 h = route s h"
    using b(2) by (simp add: regs fun_eq_iff)
qed

text \<open>
  C17. A session that has ended leaves nothing behind in the registry: whatever its client sent,
  the connected clients, the owner of every host name and the gauge of connections are what they
  were before it started, so every name the client had claimed is free again. (The session is
  taken to run with its welcome delivered, or with welcome messages switched off.)
\<close>

theorem session_leaves_no_trace:
  assumes ok: "registry_ok (as_registry s)"
    and greeted: "ws_ok \<or> \<not> opt_send_welcome_message (as_options s)"
    and run: "handle_socket lc decode b who ws_ok arr s = (True, s')"
  shows "registry_ok (as_registry s') \<and> (\<forall>h. route s' h = route s h)
    \<and> set (rg_clients (as_registry s')) = set (rg_clients (as_registry s))
    \<and> connection_gauge s' = connection_gauge s"
proof -
  obtain r s1 where st: "session_start b who ws_ok s = (r, s1)" by fastforce
  obtain k where r: "r = Inr k"
    using session_start_result [of b who ws_ok s] st greeted by auto
  obtain s2 where s2: "session_loop lc decode k arr s1 = (True, s2)" and s': "s' = session_end k s2"
    using run st r by (auto simp: handle_socket_def split: prod.splits bool.splits)
  note start = session_start_state [OF ok st]
  have k: "k = rg_next (as_registry s)" "k \<in> set (rg_clients (as_registry s1))"
      "k \<notin> set (rg_clients (as_registry s))"
    using start(3,4,5) r by auto
  have loop: "local_to k s1 s2" "connection_gauge s2 = connection_gauge s1"
    using loop_local [OF k(2), of lc decode arr] s2 by auto
  have ok2: "registry_ok (as_registry s2)" and cl2: "rg_clients (as_registry s2) = rg_clients (as_registry s1)"
    using loop(1) start(1) by (simp_all add: local_to_def)
  then have k2: "k \<in> set (rg_clients (as_registry s2))"
    using k(2) by simp
  note leave = deregister_live [OF ok2 k2]
  have reg: "as_registry s' = snd (deregister k (as_registry s2))"
    by (simp add: s' session_end_def)
  have route: "route s' h = route s h" for h
  proof -
    have not_k: "route s h \<noteq> Some k"
      using owner_iff [OF ok] k(3) by blast
    have "route s' h = (if route s2 h = Some k then None else route s2 h)"
      using fun_cong [OF leave(3), of h] by (simp add: reg)
    moreover have "\<And>j. j \<noteq> k \<Longrightarrow> route s2 h = Some j \<longleftrightarrow> route s h = Some j"
      using local_route [OF loop(1) start(1)] start(2) by simp
    ultimately show ?thesis
      using not_k by (cases "route s2 h"; cases "route s h") (auto split: if_splits)
  qed
  have "connection_gauge s' = connection_gauge s"
    using loop(2) start(5) [OF r] by (simp add: s' session_end_def)
  then show ?thesis
    using leave(2,4) route cl2 start(3) k by (auto simp: reg)
qed

definition no_messages :: "bytes \<Rightarrow> client_payload option" where
  "no_messages bs = Some (Some (C_HttpOpen (ask ''two'')))"

definition sample_arrivals :: "arrival list" where
  "sample_arrivals =
     [\<lparr>ar_frame = Some (WsBinary []), ar_name = ''g-1'', ar_bind = \<lambda>_. None\<rparr>,
      \<lparr>ar_frame = None, ar_name = ''g-1'', ar_bind = \<lambda>_. None\<rparr>]"

definition sample_build :: build_info where
  "sample_build = \<lparr>bi_pkg_version = ''0.1.0'', bi_short_commit_hash = ''abc'', bi_build_time = ''now''\<rparr>"

lemma sample_session_ends:
  "fst (handle_socket (map ascii_lower) no_messages sample_build sample_peer True sample_arrivals sample_state)"
proof -
  have turn: "fst (session_turn (map ascii_lower) no_messages k
      \<lparr>ar_frame = Some (WsBinary []), ar_name = ''g-1'', ar_bind = \<lambda>_. None\<rparr> s) = Continue"
    if "c_ws_open (the_client s k)" for k s
  proof -
    have "fst (http_open_handler (map ascii_lower) ''g-1'' k (ask ''two'') s) = Ok ()"
      using that by (simp add: http_open_handler_def Let_def case_prod_unfold send_to_def client_send_def split: sum.splits)
    then show ?thesis
      by (simp add: session_turn_def client_recv_def recv_data_def no_messages_def msg_def case_prod_unfold)
  qed
  obtain r s1 where st: "session_start sample_build sample_peer True sample_state = (r, s1)" by fastforce
  have "\<not> opt_send_welcome_message (as_options sample_state)"
    by (simp add: sample_state_def app_state_new_def)
  then have "r = Inr (rg_next (as_registry sample_state))"
      "c_ws_open (the_client s1 (rg_next (as_registry sample_state)))"
    using st by (auto simp: session_start_def Let_def case_prod_unfold send_welcome_def register_def
        on_registry_def connections_inc_def)
  then show ?thesis
    using st turn [of s1 "rg_next (as_registry sample_state)"]
    by (auto simp: handle_socket_def sample_arrivals_def session_turn_def [of _ _ _ "\<lparr>ar_frame = None, ar_name = _, ar_bind = _\<rparr>"]
        client_recv_def recv_data_def split: prod.splits turn.splits bool.splits)
qed

theorem session_leaves_no_trace_witness:
  "\<forall>h. route (snd (handle_socket (map ascii_lower) no_messages sample_build sample_peer True sample_arrivals sample_state)) h
     = route sample_state h"
proof -
  let ?run = "handle_socket (map ascii_lower) no_messages sample_build sample_peer True sample_arrivals sample_state"
  have run: "?run = (True, snd ?run)"
    using sample_session_ends by (metis (full_types) prod.collapse)
  show ?thesis
    using session_leaves_no_trace [OF sample_state_ok(1) _ run] by simp
qed

text \<open>
  A session whose welcome cannot be delivered ends without leaving the registry: its client
  stays among the connected ones for as long as the server runs, although nobody serves it.
\<close>

theorem failed_welcome_leaks:
  assumes "opt_send_welcome_message (as_options s)"
  shows "fst (handle_socket lc decode b who False arr s)
    \<and> rg_clients (as_registry (snd (handle_socket lc decode b who False arr s)))
        = rg_clients (as_registry s) @ [rg_next (as_registry s)]"
  using assms
  by (simp add: handle_socket_def session_start_def Let_def case_prod_unfold send_welcome_def send_to_def
      client_send_def on_client_def update_client_def on_registry_def register_def)

definition sample_welcoming :: app_state where
  "sample_welcoming = app_state_new sample_listen sample_hostnames stats_default
     \<lparr>opt_client_request_timeout_secs = 30, opt_send_welcome_message = True\<rparr>"

theorem failed_welcome_leaks_witness:
  "rg_clients (as_registry (snd (handle_socket (map ascii_lower) no_messages sample_build sample_peer False [] sample_welcoming))) = [0]"
  using failed_welcome_leaks [of sample_welcoming]
  by (simp add: sample_welcoming_def app_state_new_def registry_default_def)

end
