(* ===== verification/Router.thy ===== *)
theory Router
  imports Websockets
begin

text \<open>
  \<open>nport-server/src/server/implementation.rs\<close>: which handler a request goes to, the redirection
  to TLS, the count of requests, and the start and stop of the server. The data of the statistics
  page is \<open>handlers/site.rs\<close>.

  The \<open>http\<close> crate's parsing of an authority and assembly of a URI are the parameters
  \<open>parse_authority\<close> and \<open>uri_from_parts\<close> (which also prints the URI). Listening and
  serving are \<open>axum\<close> and \<open>axum_server\<close>: whether a port can be bound (\<open>bind_check\<close>), and what serving it
  gives in the end.
\<close>

section \<open>Redirection to TLS\<close>

record uri_parts =
  up_scheme :: "string option"
  up_authority :: "string option"
  up_path_and_query :: "string option"

definition DEFAULT_HTTPS_PORT :: u16 where "DEFAULT_HTTPS_PORT = 443"
definition API_CONNECT_PATH :: string where "API_CONNECT_PATH = ''/v1/connect''"

text \<open>The location of the redirection; \<open>None\<close> lets the request through.\<close>

definition to_tls_middleware ::
  "(string \<Rightarrow> string option) \<Rightarrow> (uri_parts \<Rightarrow> string option) \<Rightarrow> app_state \<Rightarrow> uri_parts \<Rightarrow> string option" where
  "to_tls_middleware parse_authority uri_from_parts s uri =
     (if has_tls s \<and> \<not> as_via_tls s then
        (let parts = uri\<lparr>up_scheme := Some ''https''\<rparr>;
             main = main_hostname (as_hostnames s);
             authority_str = (if https_port s = DEFAULT_HTTPS_PORT then main
                              else main @ colon # show_nat (unat (https_port s)))
         in case parse_authority authority_str of
              Some authority \<Rightarrow> uri_from_parts (parts\<lparr>up_authority := Some authority\<rparr>)
            | None \<Rightarrow> None)
      else None)"

section \<open>Routing\<close>

definition request_counter :: "app_state \<Rightarrow> app_state" where
  "request_counter s = s\<lparr>as_stats := stats_http_request (as_stats s)\<rparr>"

datatype router = Api_Router | Main_Router | Forwarding_Router

text \<open>\<open>hostname\<close> is what \<open>axum\<close>'s \<open>Host\<close> extractor delivers, with its port.\<close>

definition chooser :: "hostnames \<Rightarrow> string \<Rightarrow> string \<Rightarrow> router" where
  "chooser h hostname path =
     (let host = (case rsplit_once colon hostname of Some (l, r) \<Rightarrow> l | None \<Rightarrow> hostname)
      in if host = hn_api_hostname h \<and> path = API_CONNECT_PATH then Api_Router
         else if host = main_hostname h then Main_Router
         else Forwarding_Router)"

datatype endpoint = Home | Stats_Page | Build_Info | Static_Files | Connect | Forward | Not_Found

fun endpoint_of :: "router \<Rightarrow> string \<Rightarrow> endpoint" where
  "endpoint_of Api_Router path = (if path = API_CONNECT_PATH then Connect else Not_Found)"
| "endpoint_of Main_Router path =
     (if path = ''/'' then Home else if path = ''/stats'' then Stats_Page
      else if path = ''/build_info.json'' then Build_Info else Static_Files)"
| "endpoint_of Forwarding_Router path = Forward"

text \<open>\<open>route_layer\<close>: the redirection only guards the routes of the site and of the API.\<close>

fun redirects :: "endpoint \<Rightarrow> bool" where
  "redirects Home = True"
| "redirects Stats_Page = True"
| "redirects Build_Info = True"
| "redirects Connect = True"
| "redirects _ = False"

datatype routed = Redirect string | Serve endpoint

definition route_request ::
  "(string \<Rightarrow> string option) \<Rightarrow> (uri_parts \<Rightarrow> string option) \<Rightarrow> string \<Rightarrow> string \<Rightarrow> uri_parts
   \<Rightarrow> app_state \<Rightarrow> routed \<times> app_state" where
  "route_request parse_authority uri_from_parts hostname path uri s =
     (let s = request_counter s;
          e = endpoint_of (chooser (as_hostnames s) hostname path) path
      in (if redirects e then
            (case to_tls_middleware parse_authority uri_from_parts s uri of
               Some location \<Rightarrow> Redirect location | None \<Rightarrow> Serve e)
          else Serve e, s))"

text \<open>\<open>handlers/site.rs\<close>: the context of the statistics page.\<close>

record stats_context =
  sc_client_count :: i64
  sc_http_hostname_count :: i64
  sc_tcp_port_count :: i64

definition stats_page :: "app_state \<Rightarrow> stats_context" where
  "stats_page s = \<lparr>sc_client_count = metric_get (st_client_connections (as_stats s)),
     sc_http_hostname_count = metric_get (st_http_hostnames (as_stats s)),
     sc_tcp_port_count = metric_get (st_tcp_ports (as_stats s))\<rparr>"

section \<open>Start and stop\<close>

text \<open>
  What a listener does once the server runs: nothing (its port is 0), serving on an address with
  a state, or nothing because the port could not be bound. \<open>bind taken a p\<close> says whether the port
  can be bound while the program holds the sockets \<open>taken\<close>.
\<close>

datatype listening = Not_Listening | Listening ip_addr u16 app_state | Bind_Failed

type_synonym bind_check = "(ip_addr \<times> u16) list \<Rightarrow> ip_addr \<Rightarrow> u16 \<Rightarrow> bool"

text \<open>\<open>axum::Server::bind\<close> panics where the port cannot be bound.\<close>

definition run_http :: "bind_check \<Rightarrow> 'k server \<Rightarrow> app_state \<Rightarrow> (listening \<times> 'k server) outcome" where
  "run_http bind srv s =
     (let a = listen_address (srv_listen srv); p = listen_http (srv_listen srv)
      in if p = 0 then Return (Not_Listening, srv)
         else if \<not> bind [] a p then Panic
         else Return (Listening a p s, srv\<lparr>srv_http_shutdown := True\<rparr>))"

text \<open>\<open>axum_server::bind_rustls(..).serve(..)\<close> gives an error where the port cannot be bound.\<close>

definition run_https :: "bind_check \<Rightarrow> (ip_addr \<times> u16) list \<Rightarrow> 'k server \<Rightarrow> app_state \<Rightarrow> listening outcome" where
  "run_https bind taken srv s =
     (let a = listen_address (srv_listen srv); p = listen_https (srv_listen srv)
      in if p = 0 then Return Not_Listening
         else bind_outcome (unwrap_option (srv_cert_store srv)) (\<lambda>cert_store.
           Return (if bind taken a p then Listening a p (with_tls s) else Bind_Failed)))"

definition sockets_of :: "listening \<Rightarrow> (ip_addr \<times> u16) list" where
  "sockets_of l = (case l of Listening a p s \<Rightarrow> [(a, p)] | _ \<Rightarrow> [])"

text \<open>
  The start of \<open>Server::run\<close>, up to where both listeners serve or have failed.
  \<open>Templates::new\<close> reads the templates that are compiled in; \<open>templates_ok\<close> is its success.
\<close>

definition server_run :: "bool \<Rightarrow> bind_check \<Rightarrow> 'k server \<Rightarrow> (listening \<times> listening \<times> 'k server) outcome" where
  "server_run templates_ok bind srv =
     (if \<not> templates_ok then Panic
      else
        (let s = app_state_new (srv_listen srv) (srv_hostnames srv) (srv_stats srv) (srv_options srv)
         in bind_outcome (run_http bind srv s) (\<lambda>(http, srv').
              bind_outcome (run_https bind (sockets_of http) srv' s) (\<lambda>https. Return (http, https, srv')))))"

text \<open>
  How \<open>run\<close> ends. \<open>join!\<close> waits for both of its futures, and panics where one does. The result
  of serving a port is a parameter: \<open>Diverge\<close> where it is served for ever, an error, or \<open>Ok\<close> after it
  was told to stop. Joining the task that updates the certificates gives an error where the task has
  panicked, and never comes back otherwise.
\<close>

fun join_outcome :: "'a outcome \<Rightarrow> 'b outcome \<Rightarrow> ('a \<times> 'b) outcome" where
  "join_outcome (Return x) (Return y) = Return (x, y)"
| "join_outcome Panic b = Panic"
| "join_outcome a Panic = Panic"
| "join_outcome a b = Diverge"

definition http_result :: "listening \<Rightarrow> (unit + unit) outcome \<Rightarrow> (unit + unit) outcome" where
  "http_result http served = (if http = Not_Listening then Return (Ok ()) else served)"

definition https_result ::
  "listening \<Rightarrow> (unit + unit) outcome \<Rightarrow> (unit + unit) outcome \<Rightarrow> (unit + unit) outcome" where
  "https_result https served updater =
     (case https of
        Not_Listening \<Rightarrow> Return (Ok ())
      | _ \<Rightarrow>
        bind_outcome (join_outcome (if https = Bind_Failed then Return (Err ()) else served) updater)
          (\<lambda>(server_result, updater_result).
             case updater_result of
               Inl e \<Rightarrow> Return (Err e)
             | Inr _ \<Rightarrow> (case server_result of Inl e \<Rightarrow> Return (Err e) | Inr _ \<Rightarrow> Return (Ok ()))))"

definition run_result :: "(unit + unit) outcome \<Rightarrow> (unit + unit) outcome \<Rightarrow> unit outcome" where
  "run_result http https =
     bind_outcome (join_outcome http https) (\<lambda>(http_result, https_result).
       bind_outcome (unwrap_result http_result) (\<lambda>_. unwrap_result https_result))"

text \<open>Which of the two listeners is told to stop.\<close>

definition server_stop :: "'k server \<Rightarrow> (bool \<times> bool) \<times> 'k server" where
  "server_stop srv = ((srv_http_shutdown srv, srv_https_shutdown srv),
     srv\<lparr>srv_http_shutdown := False, srv_https_shutdown := False\<rparr>)"

section \<open>Routing by host\<close>

lemma chooser_plain:
  assumes "colon \<notin> set host" "colon \<notin> set p"
  shows "chooser h (host @ colon # p) path = chooser h host path"
  using assms by (simp add: chooser_def rsplit_once_append rsplit_once_None [THEN iffD2])

text \<open>
  With or without a port in the host, a request is served by the connect handler exactly for
  the API host name and path, by the site for the main host name, and forwarded to a client
  otherwise; a request for a host that is neither of the two always is.
\<close>

theorem chooser_correct:
  assumes "colon \<notin> set host" "host' = host \<or> (\<exists>p. colon \<notin> set p \<and> host' = host @ colon # p)"
    and "hn_api_hostname h \<noteq> main_hostname h"
  shows "(endpoint_of (chooser h host' path) path = Connect \<longleftrightarrow> host = hn_api_hostname h \<and> path = API_CONNECT_PATH)
    \<and> (endpoint_of (chooser h host' path) path \<in> {Home, Stats_Page, Build_Info, Static_Files} \<longleftrightarrow> host = main_hostname h)
    \<and> (endpoint_of (chooser h host' path) path = Forward \<longleftrightarrow>
         host \<noteq> main_hostname h \<and> \<not> (host = hn_api_hostname h \<and> path = API_CONNECT_PATH))"
proof -
  have "chooser h host' path =
      (if host = hn_api_hostname h \<and> path = API_CONNECT_PATH then Api_Router
       else if host = main_hostname h then Main_Router else Forwarding_Router)"
    using assms(1,2) by (auto simp: chooser_def rsplit_once_append rsplit_once_None [THEN iffD2])
  then show ?thesis
    using assms(3) by auto
qed

theorem chooser_correct_witness:
  "endpoint_of (chooser sample_hostnames ''api.np.io:80'' ''/v1/connect'') ''/v1/connect'' = Connect"
proof -
  have h: "hn_api_hostname sample_hostnames = ''api.np.io''" "main_hostname sample_hostnames = ''np.io''"
    by (simp_all add: sample_hostnames_def hostnames_new_def new_hostname_def normalize_subdomain_def
        main_hostname_def Let_def ascii_lower_def)
  show ?thesis
    using chooser_correct [of "''api.np.io''" "''api.np.io:80''" sample_hostnames "''/v1/connect''"]
    by (simp add: h API_CONNECT_PATH_def)
qed

text \<open>
  A request that came over TLS is never redirected, nor any request when the server has no
  TLS port; when a request is redirected, it is to the main host name, with the port unless
  that is the standard one, so the redirected request is not redirected again.
\<close>

theorem tls_redirect_once:
  "(as_via_tls s \<or> https_port s = 0 \<longrightarrow> to_tls_middleware pa uf s uri = None)
   \<and> to_tls_middleware pa uf (with_tls s) uri = None
   \<and> (\<forall>location. to_tls_middleware pa uf s uri = Some location \<longrightarrow>
        (\<exists>a. pa (main_hostname (as_hostnames s) @
                (if https_port s = 443 then [] else colon # show_nat (unat (https_port s)))) = Some a
           \<and> uf (uri\<lparr>up_scheme := Some ''https'', up_authority := Some a\<rparr>) = Some location))"
  by (auto simp: to_tls_middleware_def has_tls_def with_tls_def DEFAULT_HTTPS_PORT_def word_gt_0 Let_def
      split: if_splits option.splits)

theorem tls_redirect_once_witness:
  "to_tls_middleware Some up_authority (with_tls sample_state) \<lparr>up_scheme = None, up_authority = None, up_path_and_query = None\<rparr> = None
   \<and> to_tls_middleware Some up_authority (sample_state\<lparr>as_listen := sample_listen\<lparr>listen_https := 8443\<rparr>\<rparr>)
       \<lparr>up_scheme = None, up_authority = None, up_path_and_query = None\<rparr> = Some ''np.io:8443''"
proof -
  have "show_nat 8443 = ''8443''"
    by (simp add: show_radix.simps digit_char_def, code_simp)
  then have "to_tls_middleware Some up_authority (sample_state\<lparr>as_listen := sample_listen\<lparr>listen_https := 8443\<rparr>\<rparr>)
       \<lparr>up_scheme = None, up_authority = None, up_path_and_query = None\<rparr> = Some ''np.io:8443''"
    by (simp add: to_tls_middleware_def has_tls_def https_port_def DEFAULT_HTTPS_PORT_def main_hostname_def
        sample_state_ok sample_state_def app_state_new_def sample_domain)
  then show ?thesis
    using tls_redirect_once [of sample_state Some up_authority] by blast
qed

lemma run_https_start:
  assumes "0 < listen_https (srv_listen srv) \<longrightarrow> srv_cert_store srv \<noteq> None"
  shows "run_https bind taken srv s = Return
     (if listen_https (srv_listen srv) = 0 then Not_Listening
      else if bind taken (listen_address (srv_listen srv)) (listen_https (srv_listen srv))
        then Listening (listen_address (srv_listen srv)) (listen_https (srv_listen srv)) (with_tls s)
      else Bind_Failed)"
  using assms by (auto simp: run_https_def Let_def word_gt_0)

lemma https_result_updating:
  assumes "https \<noteq> Not_Listening" "served \<noteq> Panic"
  shows "https_result https served Diverge = Diverge"
  using assms by (cases https; cases served) (simp_all add: https_result_def)

text \<open>
  C38. The start of a server that the configuration admits, whether ports can be bound or not. It
  panics exactly if the templates compiled into the program do not parse, or an HTTP port is
  configured and cannot be bound. Otherwise HTTP is served exactly if its port is configured, on a
  state not marked as TLS, and HTTPS exactly if its port is configured and can be bound
  beside it, on a state marked as TLS. A failure to bind the HTTPS port is not reported:
  as long as the task that updates the certificates goes on, \<open>run\<close> does not come back for it, nor
  for any other end of the HTTPS listener. So if both ports are the same (and a bound port
  cannot be bound again) the server runs without HTTPS.
\<close>

theorem configured_server_starts:
  assumes "config_server env read_dir c st = Return (Ok srv)"
    and "\<And>taken a p. (a, p) \<in> set taken \<Longrightarrow> \<not> bind taken a p"
  shows "\<exists>a. srv_listen srv = \<lparr>listen_address = a, listen_http = cfg_http_port c, listen_https = cfg_https_port c\<rparr>
    \<and> (server_run templates_ok bind srv = Panic
         \<longleftrightarrow> \<not> templates_ok \<or> cfg_http_port c \<noteq> 0 \<and> \<not> bind [] a (cfg_http_port c))
    \<and> (server_run templates_ok bind srv \<noteq> Panic \<longrightarrow>
        (\<exists>http https srv' s. server_run templates_ok bind srv = Return (http, https, srv') \<and> \<not> as_via_tls s
          \<and> http = (if cfg_http_port c = 0 then Not_Listening else Listening a (cfg_http_port c) s)
          \<and> https = (if cfg_https_port c = 0 then Not_Listening
               else if bind (sockets_of http) a (cfg_https_port c)
                 then Listening a (cfg_https_port c) (s\<lparr>as_via_tls := True\<rparr>)
               else Bind_Failed)
          \<and> (\<forall>web_http web_https. cfg_https_port c \<noteq> 0 \<longrightarrow> web_http \<noteq> Panic \<longrightarrow> web_https \<noteq> Panic \<longrightarrow>
               run_result (http_result http web_http) (https_result https web_https Diverge) = Diverge)
          \<and> (cfg_http_port c = cfg_https_port c \<and> cfg_https_port c \<noteq> 0 \<longrightarrow> https = Bind_Failed)))"
proof -
  obtain cs a where cs: "config_cert_store env read_dir c = Return (Ok cs)"
    and srv: "srv_listen srv = \<lparr>listen_address = a, listen_http = cfg_http_port c, listen_https = cfg_https_port c\<rparr>"
      "srv_cert_store srv = cs"
    using config_server_parts [OF assms(1)] .
  have store: "0 < cfg_https_port c \<longrightarrow> cs \<noteq> None"
    using config_cert_store_https [OF cs] by blast
  let ?s = "app_state_new (srv_listen srv) (srv_hostnames srv) (srv_stats srv) (srv_options srv)"
  have plain: "\<not> as_via_tls ?s" by (simp add: app_state_new_def)
  let ?http = "if cfg_http_port c = 0 then Not_Listening else Listening a (cfg_http_port c) ?s"
  let ?https = "if cfg_https_port c = 0 then Not_Listening
     else if bind (sockets_of ?http) a (cfg_https_port c) then Listening a (cfg_https_port c) (?s\<lparr>as_via_tls := True\<rparr>)
     else Bind_Failed"
  let ?refused = "\<not> templates_ok \<or> cfg_http_port c \<noteq> 0 \<and> \<not> bind [] a (cfg_http_port c)"
  have bad: "server_run templates_ok bind srv = Panic" if ?refused
    using that srv by (auto simp: server_run_def run_http_def Let_def)
  have good: "\<exists>srv'. server_run templates_ok bind srv = Return (?http, ?https, srv')" if "\<not> ?refused"
    using that srv store by (auto simp: server_run_def run_http_def run_https_start with_tls_def Let_def word_gt_0)
  have waits: "run_result (http_result http w) (https_result https w' Diverge) = Diverge"
    if "https \<noteq> Not_Listening" "w \<noteq> Panic" "w' \<noteq> Panic" for http https w w'
    using https_result_updating [OF that(1,3)] that(2)
    by (cases w) (auto simp: run_result_def http_result_def)
  have same: "?https = Bind_Failed" if "cfg_http_port c = cfg_https_port c \<and> cfg_https_port c \<noteq> 0"
    using that assms(2) [of a "cfg_https_port c" "[(a, cfg_https_port c)]"] by (simp add: sockets_of_def)
  show ?thesis
  proof (cases ?refused)
    case True
    then show ?thesis using bad srv(1) by auto
  next
    case False
    then obtain srv' where run: "server_run templates_ok bind srv = Return (?http, ?https, srv')" using good by blast
    then have "server_run templates_ok bind srv \<noteq> Panic" by simp
    moreover have "\<forall>web_http web_https. cfg_https_port c \<noteq> 0 \<longrightarrow> web_http \<noteq> Panic \<longrightarrow> web_https \<noteq> Panic \<longrightarrow>
        run_result (http_result ?http web_http) (https_result ?https web_https Diverge) = Diverge"
      using waits by auto
    ultimately show ?thesis
      using False srv(1) run plain same by (intro exI [of _ a] conjI impI exI [of _ ?http] exI [of _ ?https] exI [of _ srv'] exI [of _ ?s]) blast+
  qed
qed

definition free_ports :: bind_check where
  "free_ports taken a p = ((a, p) \<notin> set taken)"

theorem configured_server_starts_witness:
  "\<exists>srv http https srv'. config_server sample_env (\<lambda>_. Some []) sample_config None = Return (Ok srv)
     \<and> server_run True free_ports srv = Return (http, https, srv')
     \<and> http \<noteq> Not_Listening \<and> https \<noteq> Not_Listening \<and> https \<noteq> Bind_Failed"
proof -
  obtain srv where srv: "config_server sample_env (\<lambda>_. Some []) sample_config None = Return (Ok srv)"
    using sample_config_server by blast
  have ports: "cfg_https_port sample_config = 443" "cfg_http_port sample_config = 80"
    by (simp_all add: sample_config_def)
  have "\<not> free_ports taken a p" if "(a, p) \<in> set taken" for taken a p
    using that by (simp add: free_ports_def)
  note starts = configured_server_starts [where bind = free_ports and templates_ok = True, OF srv this, unfolded ports]
  have "server_run True free_ports srv \<noteq> Panic" using starts by (auto simp: free_ports_def)
  then show ?thesis using starts srv by (auto simp: free_ports_def sockets_of_def split: if_splits)
qed

end
