(* ===== verification/Np_Client.thy ===== *)
theory Np_Client
  imports Addr Byte_Pipe
begin

text \<open>
  The client program, \<open>np/src/error.rs\<close> and \<open>np/src/client.rs\<close>: its errors with their texts, and
  the client object with its tables of HTTP forwardings, port forwardings and port writers and
  its connection.

  A connection is the list of messages written to it and whether it still takes any. The tables
  accept a key only once; \<open>vacant_table\<close> states that contract for all of them. Errors of other
  crates carry the text those crates give them.
\<close>

section \<open>Errors\<close>

datatype np_error =
    MalformedMessage
  | InvalidMessageType
  | Disconnected
  | Encode string
  | Decode string
  | Tungstenite string
  | IO string
  | Lib string
  | Hyper string
  | HyperHttp string
  | HttpOpenError string i32
  | HttpHostnameAlreadyRegistered string
  | HttpHostnameNotRegistered string
  | PortOpenError addr i32
  | PortOriginAlreadyRegistered string
  | PortOriginNotRegistered string
  | PortIDAlreadyRegistered string
  | PortIDNotRegistered string
  | RemotePortNotAllocated string string

definition display_http_open_error :: "i32 \<Rightarrow> string" where
  "display_http_open_error n =
     (case http_open_error_try_from n of
        Some HttpOpenError_InUse \<Rightarrow> ''hostname is already in use''
      | Some HttpOpenError_Invalid \<Rightarrow> ''hostname is not valid''
      | Some HttpOpenError_Disallowed \<Rightarrow> ''hostname is not allowed''
      | None \<Rightarrow> ''unknown HttpOpenError '' @ show_int (sint n))"

definition display_port_open_error :: "i32 \<Rightarrow> string" where
  "display_port_open_error n =
     (case port_open_error_try_from n of
        Some PortOpenError_InUse \<Rightarrow> ''host/port is already in use''
      | Some PortOpenError_PortNotAllowed \<Rightarrow> ''port is not allowed''
      | Some PortOpenError_HostNotAllowed \<Rightarrow> ''host is not allowed''
      | None \<Rightarrow> ''unknown PortOpenError '' @ show_int (sint n))"

fun display_np_error :: "np_error \<Rightarrow> string" where
  "display_np_error MalformedMessage = ''received a malformed message''"
| "display_np_error InvalidMessageType = ''received an invalid message type''"
| "display_np_error Disconnected = ''client got disconnected''"
| "display_np_error (Encode e) = ''encoding message: '' @ e"
| "display_np_error (Decode e) = ''decoding message: '' @ e"
| "display_np_error (Tungstenite e) = ''websocket error '' @ e"
| "display_np_error (IO e) = ''IO error: '' @ e"
| "display_np_error (Lib e) = ''error in library '' @ e"
| "display_np_error (Hyper e) = ''http client error '' @ e"
| "display_np_error (HyperHttp e) = ''http client error '' @ e"
| "display_np_error (HttpOpenError h e) = ''could not forward HTTP hostname '' @ h @ '': '' @ display_http_open_error e"
| "display_np_error (HttpHostnameAlreadyRegistered h) = ''HTTP hostname '' @ h @ '' is already registered''"
| "display_np_error (HttpHostnameNotRegistered h) = ''HTTP hostname '' @ h @ '' not registered''"
| "display_np_error (PortOpenError a e) = ''Could not forward port '' @ addr_to_string a @ '': '' @ display_port_open_error e"
| "display_np_error (PortOriginAlreadyRegistered p) = ''Port origin '' @ p @ '' already registered''"
| "display_np_error (PortOriginNotRegistered p) = ''Port origin '' @ p @ '' not registered''"
| "display_np_error (PortIDAlreadyRegistered p) = ''Port ID '' @ p @ '' already registered''"
| "display_np_error (PortIDNotRegistered p) = ''Port ID '' @ p @ '' not registered''"
| "display_np_error (RemotePortNotAllocated p e) = ''Could not allocate remote port '' @ p @ '': '' @ e"

section \<open>The client\<close>

record version_info =
  vi_pkg_version :: string
  vi_git_ref :: string
  vi_git_is_dirty :: bool

record connection =
  cn_open :: bool
  cn_sent :: "client_message list"

record np_client =
  nc_version_info :: version_info
  nc_http_forwardings :: "string \<rightharpoonup> addr"
  nc_port_forwardings :: "string \<rightharpoonup> addr"
  nc_port_writers :: writers
  nc_connection :: "connection option"

definition np_client_new :: "version_info \<Rightarrow> np_client" where
  "np_client_new v = \<lparr>nc_version_info = v, nc_http_forwardings = Map.empty,
     nc_port_forwardings = Map.empty, nc_port_writers = Map.empty, nc_connection = None\<rparr>"

definition connect_url :: "string \<Rightarrow> version_info \<Rightarrow> string \<Rightarrow> bool \<Rightarrow> string" where
  "connect_url os v server secure =
     (if secure then ''wss'' else ''ws'') @ ''://'' @ server @ ''/v1/connect?v='' @ vi_pkg_version v
     @ ''&ref='' @ vi_git_ref v @ ''&dirty='' @ (if vi_git_is_dirty v then ''true'' else ''false'')
     @ ''&os='' @ os"

text \<open>\<open>reach\<close>: \<open>connect_async\<close>, with the error it reports.\<close>

definition np_connect ::
  "(string \<Rightarrow> string option) \<Rightarrow> string \<Rightarrow> string \<Rightarrow> bool \<Rightarrow> np_client \<Rightarrow> (np_error + unit) \<times> np_client" where
  "np_connect reach os server secure c =
     (case reach (connect_url os (nc_version_info c) server secure) of
        Some e \<Rightarrow> (Err (Tungstenite e), c)
      | None \<Rightarrow> (Ok (), c\<lparr>nc_connection := Some \<lparr>cn_open = True, cn_sent = []\<rparr>\<rparr>))"

definition np_disconnect :: "np_client \<Rightarrow> (np_error + unit) \<times> np_client" where
  "np_disconnect c = (Ok (), c\<lparr>nc_connection := None, nc_http_forwardings := Map.empty,
     nc_port_forwardings := Map.empty, nc_port_writers := Map.empty\<rparr>)"

definition np_send :: "client_message \<Rightarrow> np_client \<Rightarrow> (np_error + unit) \<times> np_client" where
  "np_send msg c =
     (case nc_connection c of
        None \<Rightarrow> (Err Disconnected, c)
      | Some cn \<Rightarrow>
          (if cn_open cn then (Ok (), c\<lparr>nc_connection := Some (cn\<lparr>cn_sent := cn_sent cn @ [msg]\<rparr>)\<rparr>)
           else (Err (Tungstenite ''connection closed''), c)))"

text \<open>What the socket delivers; \<open>None\<close> is its end. \<open>decode\<close> is \<open>prost\<close>'s decoder.\<close>

datatype np_frame = NpBinary bytes | NpOther | NpError string

definition np_recv ::
  "(bytes \<Rightarrow> string + server_payload) \<Rightarrow> np_frame option \<Rightarrow> np_client \<Rightarrow> np_error + server_message" where
  "np_recv decode received c =
     (case nc_connection c of
        None \<Rightarrow> Err Disconnected
      | Some _ \<Rightarrow>
          (case received of
             None \<Rightarrow> Err Disconnected
           | Some (NpError e) \<Rightarrow> Err (Tungstenite e)
           | Some NpOther \<Rightarrow> Err InvalidMessageType
           | Some (NpBinary data) \<Rightarrow>
               (case decode data of
                  Inl e \<Rightarrow> Err (Decode e)
                | Inr None \<Rightarrow> Err MalformedMessage
                | Inr (Some m) \<Rightarrow> Ok m)))"

section \<open>HTTP forwardings\<close>

definition np_http_open :: "string \<Rightarrow> addr \<Rightarrow> np_client \<Rightarrow> (np_error + unit) \<times> np_client" where
  "np_http_open hostname local_addr =
     np_send (C_HttpOpen \<lparr>ho_hostname = Some hostname, ho_local_address = Some (to_address local_addr)\<rparr>)"

definition http_insert :: "string \<Rightarrow> addr \<Rightarrow> np_client \<Rightarrow> (np_error + unit) \<times> np_client" where
  "http_insert hostname a c =
     (if nc_http_forwardings c hostname = None
      then (Ok (), c\<lparr>nc_http_forwardings := (nc_http_forwardings c)(hostname \<mapsto> a)\<rparr>)
      else (Err (HttpHostnameAlreadyRegistered hostname), c))"

definition http_register :: "http_opened \<Rightarrow> np_client \<Rightarrow> (np_error + unit) \<times> np_client" where
  "http_register msg c =
     (case hod_error msg of
        Some error \<Rightarrow> (Err (HttpOpenError (hod_hostname msg) error), c)
      | None \<Rightarrow> http_insert (hod_hostname msg) (from_address (hod_local_address msg)) c)"

definition http_deregister :: "http_closed \<Rightarrow> np_client \<Rightarrow> (np_error + unit) \<times> np_client" where
  "http_deregister msg c =
     (if nc_http_forwardings c (hcd_hostname msg) \<noteq> None
      then (Ok (), c\<lparr>nc_http_forwardings := (nc_http_forwardings c)(hcd_hostname msg := None)\<rparr>)
      else (Err (HttpHostnameNotRegistered (hcd_hostname msg)), c))"

definition http_port :: "string \<Rightarrow> np_client \<Rightarrow> addr option" where
  "http_port hostname c = nc_http_forwardings c hostname"

section \<open>Port forwardings\<close>

definition np_port_open ::
  "port_protocol \<Rightarrow> addr \<Rightarrow> addr \<Rightarrow> np_client \<Rightarrow> (np_error + unit) \<times> np_client" where
  "np_port_open protocol remote_addr local_addr =
     np_send (C_PortOpen \<lparr>po_protocol = port_protocol_code protocol,
       po_remote_address = Some (to_address remote_addr), po_local_address = Some (to_address local_addr)\<rparr>)"

definition np_tcp_open :: "addr \<Rightarrow> addr \<Rightarrow> np_client \<Rightarrow> (np_error + unit) \<times> np_client" where
  "np_tcp_open = np_port_open Tcp"

definition origin_insert :: "string \<Rightarrow> addr \<Rightarrow> np_client \<Rightarrow> (np_error + unit) \<times> np_client" where
  "origin_insert origin a c =
     (if nc_port_forwardings c origin = None
      then (Ok (), c\<lparr>nc_port_forwardings := (nc_port_forwardings c)(origin \<mapsto> a)\<rparr>)
      else (Err (PortOriginAlreadyRegistered origin), c))"

definition port_register :: "port_opened \<Rightarrow> np_client \<Rightarrow> ((np_error + unit) \<times> np_client) outcome" where
  "port_register msg c =
     (case pod_error msg of
        Some error \<Rightarrow> Return (Err (PortOpenError (from_address (pod_remote_address msg)) error), c)
      | None \<Rightarrow>
          bind_outcome (port_origin_from_raw (pod_protocol msg) (pod_remote_address msg)) (\<lambda>origin.
            Return (origin_insert origin (from_address (pod_local_address msg)) c)))"

text \<open>\<open>f\<close> starts the connection to the local address.\<close>

definition port_connect ::
  "port_connect \<Rightarrow> (string \<Rightarrow> addr \<Rightarrow> np_client \<Rightarrow> (np_error + unit) \<times> np_client) \<Rightarrow> np_client
   \<Rightarrow> ((np_error + unit) \<times> np_client) outcome" where
  "port_connect msg f c =
     bind_outcome (port_origin_from_raw (pct_protocol msg) (pct_remote_address msg)) (\<lambda>origin.
       case nc_port_forwardings c origin of
         None \<Rightarrow> Return (Err (PortOriginNotRegistered origin), c)
       | Some local_addr \<Rightarrow> Return (f (pct_uuid msg) local_addr c))"

section \<open>Port writers\<close>

definition np_port_writer_register ::
  "string \<Rightarrow> port_message mpsc \<Rightarrow> np_client \<Rightarrow> (np_error + unit) \<times> np_client" where
  "np_port_writer_register uuid sender c =
     (if nc_port_writers c uuid = None
      then (Ok (), c\<lparr>nc_port_writers := (nc_port_writers c)(uuid \<mapsto> sender)\<rparr>)
      else (Err (PortIDAlreadyRegistered uuid), c))"

definition np_port_writer_remove :: "string \<Rightarrow> np_client \<Rightarrow> (np_error + unit) \<times> np_client" where
  "np_port_writer_remove uuid c = (Ok (), c\<lparr>nc_port_writers := (nc_port_writers c)(uuid := None)\<rparr>)"

definition np_port_message :: "string \<Rightarrow> port_message \<Rightarrow> np_client \<Rightarrow> (np_error + unit) poll \<times> np_client" where
  "np_port_message uuid msg c =
     (case nc_port_writers c uuid of
        None \<Rightarrow> (Ready (Err (PortIDNotRegistered uuid)), c)
      | Some writer \<Rightarrow>
          (case mpsc_send msg writer of
             Pending \<Rightarrow> (Pending, c)
           | Ready (Inl _) \<Rightarrow> (Ready (Err (PortIDNotRegistered uuid)), c)
           | Ready (Inr writer') \<Rightarrow>
               (Ready (Ok ()), c\<lparr>nc_port_writers := (nc_port_writers c)(uuid \<mapsto> writer')\<rparr>)))"

definition np_port_receive :: "port_receive \<Rightarrow> np_client \<Rightarrow> (np_error + unit) poll \<times> np_client" where
  "np_port_receive msg = np_port_message (pr_uuid msg) (PM_Data (pr_data msg))"

definition np_port_close :: "port_close \<Rightarrow> np_client \<Rightarrow> (np_error + unit) poll \<times> np_client" where
  "np_port_close msg = np_port_message (pcl_uuid msg) PM_Close"

section \<open>Listing the forwardings\<close>

text \<open>
  \<open>entries\<close> is the table as its iterator gives it, in an order that is not specified. The \<open>unwrap\<close>
  of \<open>port_forwardings\<close> panics where an origin does not parse.
\<close>

record http_forwarding =
  hf_hostname :: string
  hf_local_addr :: addr

record port_forwarding =
  pf_protocol :: port_protocol
  pf_remote_addr :: addr
  pf_local_addr :: addr

definition np_http_forwardings :: "(string \<times> addr) list \<Rightarrow> http_forwarding list" where
  "np_http_forwardings entries = map (\<lambda>(h, a). \<lparr>hf_hostname = h, hf_local_addr = a\<rparr>) entries"

fun np_port_forwardings ::
  "(string \<Rightarrow> parsed_url option) \<Rightarrow> (string \<times> addr) list \<Rightarrow> port_forwarding list outcome" where
  "np_port_forwardings parse_url [] = Return []"
| "np_port_forwardings parse_url ((origin, local_addr) # entries) =
     bind_outcome (unwrap_result (split_origin parse_url origin)) (\<lambda>(protocol, hostname, p).
       bind_outcome (np_port_forwardings parse_url entries) (\<lambda>fs.
         Return (\<lparr>pf_protocol = protocol, pf_remote_addr = from_host_and_port hostname p,
           pf_local_addr = local_addr\<rparr> # fs)))"

text \<open>
  Listing the ports does not panic as long as the origins parse: each remote address comes out as
  it went in, up to the normal form of loopback hosts.
\<close>

lemma np_port_forwardings_listed:
  assumes "\<And>a. a \<in> fst ` set ports \<Longrightarrow> parse_url (port_origin Tcp a)
      = Some \<lparr>url_scheme = ''tcp'', url_host = Some (effective_host a), url_port = Some (addr_port a)\<rparr>"
  shows "np_port_forwardings parse_url (map (\<lambda>(a, l). (port_origin Tcp a, l)) ports)
    = Return (map (\<lambda>(a, l). \<lparr>pf_protocol = Tcp, pf_remote_addr = from_host_and_port (effective_host a) (addr_port a),
        pf_local_addr = l\<rparr>) ports)"
  using assms
proof (induction ports)
  case (Cons x ports)
  obtain a l where x: "x = (a, l)" by fastforce
  have head: "parse_url (port_origin Tcp a)
      = Some \<lparr>url_scheme = ''tcp'', url_host = Some (effective_host a), url_port = Some (addr_port a)\<rparr>"
    by (rule Cons.prems) (simp add: x)
  show ?case
    using Cons.IH Cons.prems by (simp add: x split_origin_def port_protocol_from_str_def head)
qed simp

section \<open>Tables that take a key once\<close>

locale vacant_table =
  fixes tab :: "'s \<Rightarrow> 'k \<rightharpoonup> 'v"
    and ins :: "'k \<Rightarrow> 'v \<Rightarrow> 's \<Rightarrow> ('e + unit) \<times> 's"
    and dup :: "'k \<Rightarrow> 'e"
  assumes ins_vacant: "tab s k = None \<Longrightarrow> fst (ins k v s) = Ok () \<and> tab (snd (ins k v s)) = (tab s)(k \<mapsto> v)"
    and ins_occupied: "tab s k \<noteq> None \<Longrightarrow> ins k v s = (Err (dup k), s)"
begin

lemma ins_ok_iff: "fst (ins k v s) = Ok () \<longleftrightarrow> tab s k = None"
  using ins_vacant ins_occupied by (cases "tab s k") auto

text \<open>The first value registered under a key is the one that stays.\<close>

lemma first_wins:
  "tab (fold (\<lambda>(k, v) s. snd (ins k v s)) kvs s) = map_of kvs ++ tab s"
proof (induction kvs arbitrary: s)
  case (Cons kv kvs)
  obtain k v where kv: "kv = (k, v)" by fastforce
  show ?case
  proof (cases "tab s k")
    case None
    then show ?thesis
      using Cons [of "snd (ins k v s)"] ins_vacant [OF None, of v] kv
      by (auto simp: fun_eq_iff map_add_def split: option.splits)
  next
    case (Some w)
    then show ?thesis
      using Cons [of s] ins_occupied [of s k v] kv by (auto simp: fun_eq_iff map_add_def split: option.splits)
  qed
qed simp

end

interpretation np_https: vacant_table nc_http_forwardings http_insert HttpHostnameAlreadyRegistered
  by unfold_locales (auto simp: http_insert_def)

interpretation np_origins: vacant_table nc_port_forwardings origin_insert PortOriginAlreadyRegistered
  by unfold_locales (auto simp: origin_insert_def)

interpretation np_writers: vacant_table nc_port_writers np_port_writer_register PortIDAlreadyRegistered
  by unfold_locales (auto simp: np_port_writer_register_def)

interpretation np_ports: port_table nc_port_writers np_port_writer_register np_port_writer_remove
  np_port_message PortIDAlreadyRegistered PortIDNotRegistered
  by unfold_locales
    (auto simp: np_port_writer_register_def np_port_writer_remove_def np_port_message_def split: sum.splits)

end
