(* ===== verification/Np_Dispatch.thy ===== *)
theory Np_Dispatch
  imports Np_Client "HOL-Library.AList"
begin

text \<open>
  What \<open>np\<close> does with a message of the server: \<open>np/src/dispatch/\<close> and \<open>np/src/client/port.rs\<close>.

  The HTTP library is a record of parameters (\<open>hyper_env\<close>): its checks of methods, header names
  and header values with the text of their errors, and \<open>fetch\<close>, the exchange with the local
  server. \<open>tcp_connect\<close> is \<open>TcpStream::connect\<close>: the text of its error, or none.
\<close>

section \<open>\<open>client/port.rs\<close>: copying bytes\<close>

record np_pump =
  np_uuid :: string
  np_written :: bytes
  np_sent :: "client_message list"
  np_running :: bool

definition np_pump_new :: "string \<Rightarrow> np_pump" where
  "np_pump_new uuid = \<lparr>np_uuid = uuid, np_written = [], np_sent = [], np_running = True\<rparr>"

definition np_pump_break :: "np_pump \<Rightarrow> np_pump" where
  "np_pump_break p = p\<lparr>np_running := False\<rparr>"

text \<open>
  One turn of the loop. \<open>alive\<close>: the client object still exists; \<open>good\<close>: the write or the send
  of this turn succeeds; a \<open>write_all\<close> that fails counts as writing nothing, though it may have
  written a part of its data. An error while reading is only logged.
\<close>

definition np_pump_step :: "bool \<Rightarrow> bool \<Rightarrow> pump_event \<Rightarrow> np_pump \<Rightarrow> np_pump" where
  "np_pump_step alive good ev p =
     (if \<not> np_running p then p
      else (case ev of
         FromChannel (Some (PM_Data bs)) \<Rightarrow>
           (if good then p\<lparr>np_written := np_written p @ bs\<rparr> else np_pump_break p)
       | FromChannel (Some PM_Close) \<Rightarrow> np_pump_break p
       | FromChannel None \<Rightarrow> p
       | FromSocket (ReadOk bs) \<Rightarrow>
           (if alive then
              (let msg = (if bs = [] then C_PortClose \<lparr>pcl_uuid = np_uuid p\<rparr>
                          else C_PortReceive \<lparr>pr_uuid = np_uuid p, pr_data = bs\<rparr>)
               in if \<not> good then np_pump_break p
                  else (let p' = p\<lparr>np_sent := np_sent p @ [msg]\<rparr>
                        in if bs = [] then np_pump_break p' else p'))
            else np_pump_break p)
       | FromSocket ReadError \<Rightarrow> p
       | Elapsed \<Rightarrow> (if alive then p else np_pump_break p)))"

definition np_pump_end :: "bool \<Rightarrow> np_pump \<Rightarrow> np_client \<Rightarrow> np_client" where
  "np_pump_end alive p c = (if alive then snd (np_port_writer_remove (np_uuid p) c) else c)"

text \<open>\<open>port::start\<close>; on success the task \<open>np_pump_new uuid\<close> runs on the channel.\<close>

definition np_start ::
  "(string \<Rightarrow> string option) \<Rightarrow> string \<Rightarrow> addr \<Rightarrow> np_client \<Rightarrow> (np_error + unit) \<times> np_client" where
  "np_start tcp_connect uuid a c =
     (case tcp_connect (addr_to_string a) of
        Some e \<Rightarrow> (Err (IO e), c)
      | None \<Rightarrow> np_port_writer_register uuid (mpsc_channel 1) c)"

section \<open>\<open>dispatch/port.rs\<close>\<close>

definition dispatch_connect ::
  "(string \<Rightarrow> string option) \<Rightarrow> port_connect \<Rightarrow> np_client \<Rightarrow> ((np_error + unit) \<times> np_client) outcome" where
  "dispatch_connect tcp_connect msg c =
     bind_outcome (port_connect msg (np_start tcp_connect) c) (\<lambda>(r, c').
       let error = map_option display_np_error (err_of r)
       in Return (np_send (C_PortConnected \<lparr>pc_uuid = pct_uuid msg, pc_error = error\<rparr>) c'))"

section \<open>\<open>dispatch/http.rs\<close>\<close>

record local_request =
  lq_uri :: string
  lq_method :: string
  lq_headers :: "(string \<times> bytes) list"
  lq_body :: bytes

datatype fetched =
    FetchError string
  | ResponseHead u16 "(string \<times> bytes) list" "string + bytes"

record hyper_env =
  hy_method :: "string \<Rightarrow> string option"
  hy_build :: "string \<Rightarrow> string option"
  hy_header_name :: "string \<Rightarrow> string + string"
  hy_header_value :: "bytes \<Rightarrow> string option"
  hy_lossy :: "bytes \<Rightarrow> string"
  hy_fetch :: "local_request \<Rightarrow> fetched"

text \<open>\<open>HeaderMap::insert\<close> replaces the values of a name.\<close>

fun insert_headers ::
  "hyper_env \<Rightarrow> (string \<times> bytes) list \<Rightarrow> (string \<times> bytes) list
   \<Rightarrow> http_response_error + (string \<times> bytes) list" where
  "insert_headers env [] hs = Ok hs"
| "insert_headers env ((key, v) # kvs) hs =
     (case hy_header_name env key of
        Inl e \<Rightarrow> Err (InvalidHeaderName key e)
      | Inr name \<Rightarrow>
          (case hy_header_value env v of
             Some e \<Rightarrow> Err (InvalidHeaderValue key (hy_lossy env v) e)
           | None \<Rightarrow> insert_headers env kvs (AList.update name v hs)))"

definition local_uri :: "addr \<Rightarrow> string \<Rightarrow> string" where
  "local_uri a uri = ''http://'' @ (case addr_host a of Some h \<Rightarrow> h | None \<Rightarrow> ''127.0.0.1'')
     @ colon # show_nat (unat (addr_port a)) @ uri"

text \<open>Collecting the headers of the answer into a \<open>HashMap\<close>: the last value of a name stays.\<close>

definition collect_headers :: "(string \<times> bytes) list \<Rightarrow> header_map" where
  "collect_headers kvs = fold (\<lambda>(k, v). AList.update k v) kvs []"

definition send_request ::
  "hyper_env \<Rightarrow> http_request \<Rightarrow> np_client \<Rightarrow> http_response_error + http_response_data" where
  "send_request env req c =
     (case http_port (hq_hostname req) c of
        None \<Rightarrow> Err (ForwardingNotRegistered (hq_hostname req))
      | Some a \<Rightarrow>
          (let uri = local_uri a (hq_uri req)
           in case hy_method env (hq_method req) of
                Some e \<Rightarrow> Err (InvalidMethod (hq_method req) e)
              | None \<Rightarrow>
          (let body = (case hq_body req of Some b \<Rightarrow> b | None \<Rightarrow> [])
           in case hy_build env uri of
                Some e \<Rightarrow> Err (CreatingRequest e)
              | None \<Rightarrow>
          (case insert_headers env (hq_headers req) [] of
             Inl e \<Rightarrow> Err e
           | Inr headers \<Rightarrow>
          (case hy_fetch env \<lparr>lq_uri = uri, lq_method = hq_method req, lq_headers = headers, lq_body = body\<rparr> of
             FetchError e \<Rightarrow> Err (FetchingResponse e)
           | ResponseHead status hs rest \<Rightarrow>
               (case rest of
                  Inl e \<Rightarrow> Err (ReadingResponse e)
                | Inr resp_body \<Rightarrow> Ok \<lparr>hd_headers = collect_headers hs, hd_status_code = ucast status,
                    hd_body = resp_body\<rparr>))))))"

definition dispatch_request ::
  "hyper_env \<Rightarrow> http_request \<Rightarrow> np_client \<Rightarrow> (np_error + unit) \<times> np_client" where
  "dispatch_request env req c =
     (let payload = (case send_request env req c of
            Inr d \<Rightarrow> PayloadData d | Inl e \<Rightarrow> PayloadError (Some e))
      in np_send (C_HttpResponse \<lparr>hr_uuid = hq_uuid req, hr_payload = Some payload\<rparr>) c)"

section \<open>\<open>dispatch/mod.rs\<close>\<close>

text \<open>
  What is logged is not modelled, so the errors that are only logged disappear here; the result
  is what \<open>message\<close> returns. \<open>Pending\<close>: the channel of a port is full.
\<close>

fun log_error :: "('e + unit) \<times> 's \<Rightarrow> ('e + unit) poll \<times> 's" where
  "log_error (r, s) = (Ready (Ok ()), s)"

fun log_error_poll :: "('e + unit) poll \<times> 's \<Rightarrow> ('e + unit) poll \<times> 's" where
  "log_error_poll (Ready r, s) = (Ready (Ok ()), s)"
| "log_error_poll (Pending, s) = (Pending, s)"

definition np_message ::
  "hyper_env \<Rightarrow> (string \<Rightarrow> string option) \<Rightarrow> server_message \<Rightarrow> np_client
   \<Rightarrow> ((np_error + unit) poll \<times> np_client) outcome" where
  "np_message env tcp_connect msg c =
     (case msg of
        S_HttpOpened opened \<Rightarrow> Return (log_error (http_register opened c))
      | S_HttpRequest req \<Rightarrow> (let (r, c') = dispatch_request env req c in Return (Ready r, c'))
      | S_HttpClosed msg \<Rightarrow> Return (log_error (http_deregister msg c))
      | S_PortOpened opened \<Rightarrow> bind_outcome (port_register opened c) (\<lambda>r. Return (log_error r))
      | S_PortConnect connect \<Rightarrow> bind_outcome (dispatch_connect tcp_connect connect c) (\<lambda>r. Return (log_error r))
      | S_PortReceive receive \<Rightarrow> Return (log_error_poll (np_port_receive receive c))
      | S_PortClose close \<Rightarrow> Return (log_error_poll (np_port_close close c))
      | S_Print print \<Rightarrow> Return (Ready (Ok ()), c))"

text \<open>The level at which \<open>Print\<close> is logged.\<close>

definition print_log_level :: "print_msg \<Rightarrow> print_level" where
  "print_log_level m = (case print_level_try_from (print_level m) of Some l \<Rightarrow> l | None \<Rightarrow> Level_Info)"

section \<open>The task as a byte pump\<close>

fun np_sent_bytes :: "client_message list \<Rightarrow> bytes" where
  "np_sent_bytes [] = []"
| "np_sent_bytes (C_PortReceive m # ms) = pr_data m @ np_sent_bytes ms"
| "np_sent_bytes (_ # ms) = np_sent_bytes ms"

lemma np_sent_bytes_append [simp]: "np_sent_bytes (ms @ ns) = np_sent_bytes ms @ np_sent_bytes ns"
  by (induction ms rule: np_sent_bytes.induct) simp_all

interpretation np_pump: byte_pump np_pump_step np_running np_written "np_sent_bytes \<circ> np_sent"
  by unfold_locales
    (auto simp: np_pump_step_def np_pump_break_def Let_def
      split: option.splits port_message.splits read_result.splits)

section \<open>Theorems\<close>

lemma np_send_open:
  "nc_connection c = Some cn \<Longrightarrow> cn_open cn \<Longrightarrow>
     np_send m c = (Ok (), c\<lparr>nc_connection := Some (cn\<lparr>cn_sent := cn_sent cn @ [m]\<rparr>)\<rparr>)"
  by (simp add: np_send_def)

text \<open>
  Whatever happens on its socket, the bytes \<open>np\<close> has written to the local connection are a
  prefix of those it received for it, in order; while the task runs, what is missing is exactly
  what waits in the channel.
\<close>

theorem np_pump_bytes:
  assumes "pipe_run np_pump_step np_running es (mpsc_channel 1, np_pump_new uuid, []) = Some (ch, p, acc)"
  shows "\<exists>rest. data_of acc = np_written p @ rest \<and> (np_running p \<longrightarrow> rest = data_of (mp_queue ch))"
  using np_pump.pipe_bytes [OF assms] by (simp add: np_pump_new_def)

theorem np_pump_bytes_witness:
  "\<exists>ch p acc. pipe_run np_pump_step np_running
       [Push (PM_Data [1, 2]), Pull True True, Turn True True (FromSocket (ReadOk [9])), Push (PM_Data [3])]
       (mpsc_channel 1, np_pump_new ''u'', []) = Some (ch, p, acc)
     \<and> data_of acc = np_written p @ data_of (mp_queue ch) \<and> np_written p = [1, 2] \<and> np_sent_bytes (np_sent p) = [9]"
proof -
  let ?run = "pipe_run np_pump_step np_running
       [Push (PM_Data [1, 2]), Pull True True, Turn True True (FromSocket (ReadOk [9])), Push (PM_Data [3])]
       (mpsc_channel 1, np_pump_new ''u'', [])"
  obtain ch p acc where run: "?run = Some (ch, p, acc)" and p: "np_running p" "np_written p = [1, 2]" "np_sent_bytes (np_sent p) = [9]"
    by (simp add: mpsc_channel_def np_pump_new_def mpsc_send_def mpsc_recv_def np_pump_step_def Let_def)
  then show ?thesis
    using np_pump_bytes [OF run] by auto
qed

text \<open>
  Every request of the server is answered exactly once, under its identifier, with the data
  of the local server or with the error that came first; the tables do not change.
\<close>

theorem dispatch_request_answers:
  assumes "nc_connection c = Some cn" "cn_open cn"
  shows "\<exists>payload. np_message env tc (S_HttpRequest req) c = Return (Ready (Ok ()),
        c\<lparr>nc_connection := Some (cn\<lparr>cn_sent := cn_sent cn @
            [C_HttpResponse \<lparr>hr_uuid = hq_uuid req, hr_payload = Some payload\<rparr>]\<rparr>)\<rparr>)
      \<and> (payload = PayloadError (Some (ForwardingNotRegistered (hq_hostname req)))
           \<longleftrightarrow> nc_http_forwardings c (hq_hostname req) = None)
      \<and> (\<forall>d. payload = PayloadData d \<longrightarrow> (\<exists>a headers status hs. nc_http_forwardings c (hq_hostname req) = Some a
           \<and> hy_fetch env \<lparr>lq_uri = local_uri a (hq_uri req), lq_method = hq_method req, lq_headers = headers,
                lq_body = (case hq_body req of Some b \<Rightarrow> b | None \<Rightarrow> [])\<rparr> = ResponseHead status hs (Ok (hd_body d))
           \<and> hd_status_code d = ucast status \<and> hd_headers d = collect_headers hs))"
proof -
  define payload where "payload = (case send_request env req c of Inr d \<Rightarrow> PayloadData d | Inl e \<Rightarrow> PayloadError (Some e))"
  have "insert_headers env kvs hs \<noteq> Inl (ForwardingNotRegistered h)" for kvs hs h
    by (induction env kvs hs rule: insert_headers.induct) (auto split: sum.splits option.splits)
  then have "send_request env req c = Inl (ForwardingNotRegistered (hq_hostname req))
      \<longleftrightarrow> nc_http_forwardings c (hq_hostname req) = None"
    by (auto simp: send_request_def http_port_def Let_def split: option.splits sum.splits fetched.splits)
  moreover have "\<exists>a headers status hs. nc_http_forwardings c (hq_hostname req) = Some a
      \<and> hy_fetch env \<lparr>lq_uri = local_uri a (hq_uri req), lq_method = hq_method req, lq_headers = headers,
           lq_body = (case hq_body req of Some b \<Rightarrow> b | None \<Rightarrow> [])\<rparr> = ResponseHead status hs (Ok (hd_body d))
      \<and> hd_status_code d = ucast status \<and> hd_headers d = collect_headers hs"
    if "send_request env req c = Inr d" for d
    using that by (auto simp: send_request_def http_port_def Let_def split: option.splits sum.splits fetched.splits) blast+
  ultimately have facts: "payload = PayloadError (Some (ForwardingNotRegistered (hq_hostname req)))
      \<longleftrightarrow> nc_http_forwardings c (hq_hostname req) = None"
    "\<And>d. payload = PayloadData d \<Longrightarrow> \<exists>a headers status hs. nc_http_forwardings c (hq_hostname req) = Some a
      \<and> hy_fetch env \<lparr>lq_uri = local_uri a (hq_uri req), lq_method = hq_method req, lq_headers = headers,
           lq_body = (case hq_body req of Some b \<Rightarrow> b | None \<Rightarrow> [])\<rparr> = ResponseHead status hs (Ok (hd_body d))
      \<and> hd_status_code d = ucast status \<and> hd_headers d = collect_headers hs"
    by (cases "send_request env req c"; simp add: payload_def)+
  have "dispatch_request env req c = np_send (C_HttpResponse \<lparr>hr_uuid = hq_uuid req, hr_payload = Some payload\<rparr>) c"
    by (simp add: dispatch_request_def payload_def)
  then show ?thesis
    using np_send_open [OF assms] facts by (intro exI [of _ payload]) (simp add: np_message_def)
qed

definition sample_np :: np_client where
  "sample_np = (np_client_new \<lparr>vi_pkg_version = ''0.1.0'', vi_git_ref = ''abc'', vi_git_is_dirty = False\<rparr>)
     \<lparr>nc_http_forwardings := [''one.np.io'' \<mapsto> from_port 3000], nc_connection := Some \<lparr>cn_open = True, cn_sent = []\<rparr>\<rparr>"

definition sample_hyper :: hyper_env where
  "sample_hyper = \<lparr>hy_method = \<lambda>_. None, hy_build = \<lambda>_. None, hy_header_name = Ok, hy_header_value = \<lambda>_. None,
     hy_lossy = \<lambda>_. [], hy_fetch = \<lambda>r. ResponseHead 200 [] (Ok (lq_body r))\<rparr>"

definition sample_np_request :: http_request where
  "sample_np_request = \<lparr>hq_uuid = ''u1'', hq_hostname = ''one.np.io'', hq_client_address = None, hq_scheme = 0,
     hq_method = ''GET'', hq_uri = ''/'', hq_headers = [], hq_body = Some [7]\<rparr>"

lemma sample_np_connection: "nc_connection sample_np = Some \<lparr>cn_open = True, cn_sent = []\<rparr>"
  by (simp add: sample_np_def)

theorem dispatch_request_answers_witness:
  "\<exists>payload c'. np_message sample_hyper (\<lambda>_. None) (S_HttpRequest sample_np_request) sample_np = Return (Ready (Ok ()), c')
     \<and> nc_connection c' = Some \<lparr>cn_open = True, cn_sent = [C_HttpResponse \<lparr>hr_uuid = ''u1'', hr_payload = Some payload\<rparr>]\<rparr>
     \<and> payload \<noteq> PayloadError (Some (ForwardingNotRegistered ''one.np.io''))"
proof -
  have "nc_http_forwardings sample_np (hq_hostname sample_np_request) \<noteq> None"
    by (simp add: sample_np_def sample_np_request_def)
  then show ?thesis
    using dispatch_request_answers [OF sample_np_connection, of sample_hyper "\<lambda>_. None" sample_np_request]
    by (auto simp: sample_np_request_def)
qed

text \<open>
  A connection to a forwarded port goes to the local address that was registered for that
  port, and to no other: once the server has confirmed the forwarding of a remote address to a
  local one, a connect message leads to that local address exactly if it names the same port
  and the same host (the loopback host when none is named).
\<close>

theorem port_connect_routes:
  assumes opened: "pod_error opened = None" "pod_protocol opened = port_protocol_code Tcp"
    and c: "nc_port_forwardings c = Map.empty"
    and connect: "pct_protocol msg = port_protocol_code Tcp"
  shows "\<exists>c'. port_register opened c = Return (Ok (), c')
    \<and> (effective_host (from_address (pct_remote_address msg)) = effective_host (from_address (pod_remote_address opened))
        \<and> addr_port (from_address (pct_remote_address msg)) = addr_port (from_address (pod_remote_address opened))
        \<longrightarrow> port_connect msg f c' = Return (f (pct_uuid msg) (from_address (pod_local_address opened)) c'))
    \<and> (\<not> (effective_host (from_address (pct_remote_address msg)) = effective_host (from_address (pod_remote_address opened))
        \<and> addr_port (from_address (pct_remote_address msg)) = addr_port (from_address (pod_remote_address opened)))
        \<longrightarrow> (\<exists>origin. port_connect msg f c' = Return (Err (PortOriginNotRegistered origin), c')))"
proof -
  let ?o = "port_origin Tcp (from_address (pod_remote_address opened))"
  let ?q = "port_origin Tcp (from_address (pct_remote_address msg))"
  have o: "port_origin_from_raw (pod_protocol opened) (pod_remote_address opened) = Return ?o"
      "port_origin_from_raw (pct_protocol msg) (pct_remote_address msg) = Return ?q"
    using opened(2) connect by (simp_all add: port_origin_from_raw_def port_protocol_try_from_def)
  have same: "?q = ?o \<longleftrightarrow>
      effective_host (from_address (pct_remote_address msg)) = effective_host (from_address (pod_remote_address opened))
      \<and> addr_port (from_address (pct_remote_address msg)) = addr_port (from_address (pod_remote_address opened))"
    using addr_to_string_inject [of "from_address (pct_remote_address msg)" "from_address (pod_remote_address opened)"]
    by (auto simp: port_origin_def addr_to_string_effective)
  show ?thesis
    using opened(1) c o unfolding same [symmetric]
    by (auto simp: port_register_def port_connect_def origin_insert_def)
qed

definition sample_opened :: port_opened where
  "sample_opened = \<lparr>pod_protocol = 0, pod_remote_address = Some \<lparr>address_host = Some ''tcp.np.io'', address_port = 4000\<rparr>,
     pod_local_address = Some \<lparr>address_host = None, address_port = 22\<rparr>, pod_error = None\<rparr>"

definition sample_connect :: port_connect where
  "sample_connect = \<lparr>pct_uuid = ''u2'', pct_protocol = 0,
     pct_remote_address = Some \<lparr>address_host = Some ''tcp.np.io'', address_port = 4000\<rparr>, pct_from_address = None\<rparr>"

theorem port_connect_routes_witness:
  "\<exists>c'. port_register sample_opened sample_np = Return (Ok (), c')
     \<and> port_connect sample_connect (\<lambda>u a c. (if a = from_port 22 then Ok () else Err Disconnected, c)) c' = Return (Ok (), c')"
  using port_connect_routes [of sample_opened sample_np sample_connect
      "\<lambda>u a c. (if a = from_port 22 then Ok () else Err Disconnected, c)"]
  by (simp add: sample_opened_def sample_connect_def sample_np_def np_client_new_def from_address_def from_port_def)

text \<open>
  Every connect message for TCP is answered exactly once, under its identifier; the answer
  has no error exactly if the local connection was made and its port writer was registered, so
  that the server opens its side only when this side is ready.
\<close>

theorem dispatch_connect_answers:
  assumes "nc_connection c = Some cn" "cn_open cn" and connect: "pct_protocol msg = port_protocol_code Tcp"
  shows "\<exists>err c'. np_message env tcp_connect (S_PortConnect msg) c = Return (Ready (Ok ()), c')
    \<and> nc_connection c' = Some (cn\<lparr>cn_sent := cn_sent cn @ [C_PortConnected \<lparr>pc_uuid = pct_uuid msg, pc_error = err\<rparr>]\<rparr>)
    \<and> (err = None \<longleftrightarrow> (\<exists>a. nc_port_forwardings c (port_origin Tcp (from_address (pct_remote_address msg))) = Some a
          \<and> tcp_connect (addr_to_string a) = None \<and> nc_port_writers c (pct_uuid msg) = None))
    \<and> nc_port_writers c' = (if err = None then (nc_port_writers c)(pct_uuid msg \<mapsto> mpsc_channel 1) else nc_port_writers c)"
proof -
  let ?q = "port_origin Tcp (from_address (pct_remote_address msg))"
  have o: "port_origin_from_raw (pct_protocol msg) (pct_remote_address msg) = Return ?q"
    using connect by (simp add: port_origin_from_raw_def port_protocol_try_from_def)
  have "\<exists>r c1. port_connect msg (np_start tcp_connect) c = Return (r, c1) \<and> nc_connection c1 = nc_connection c
    \<and> (err_of r = None \<longleftrightarrow> (\<exists>a. nc_port_forwardings c ?q = Some a
          \<and> tcp_connect (addr_to_string a) = None \<and> nc_port_writers c (pct_uuid msg) = None))
    \<and> nc_port_writers c1 = (if err_of r = None then (nc_port_writers c)(pct_uuid msg \<mapsto> mpsc_channel 1) else nc_port_writers c)"
    by (cases "nc_port_forwardings c ?q"; cases "tcp_connect (addr_to_string (the (nc_port_forwardings c ?q)))")
      (simp_all add: port_connect_def o np_start_def np_port_writer_register_def)
  then obtain r c1 where r: "port_connect msg (np_start tcp_connect) c = Return (r, c1)" "nc_connection c1 = Some cn"
      "err_of r = None \<longleftrightarrow> (\<exists>a. nc_port_forwardings c ?q = Some a
          \<and> tcp_connect (addr_to_string a) = None \<and> nc_port_writers c (pct_uuid msg) = None)"
      "nc_port_writers c1 = (if err_of r = None then (nc_port_writers c)(pct_uuid msg \<mapsto> mpsc_channel 1) else nc_port_writers c)"
    using assms(1) by auto
  define err where "err = map_option display_np_error (err_of r)"
  have "err = None \<longleftrightarrow> err_of r = None"
    by (simp add: err_def)
  moreover have "np_message env tcp_connect (S_PortConnect msg) c =
      Return (log_error (np_send (C_PortConnected \<lparr>pc_uuid = pct_uuid msg, pc_error = err\<rparr>) c1))"
    using r(1) by (simp add: np_message_def dispatch_connect_def err_def Let_def)
  ultimately show ?thesis
    using r(3,4) np_send_open [OF r(2) assms(2)] by (intro exI [of _ err]) simp
qed

theorem dispatch_connect_answers_witness:
  "\<exists>err c'. np_message sample_hyper (\<lambda>_. None) (S_PortConnect sample_connect) sample_np = Return (Ready (Ok ()), c')
     \<and> nc_connection c' = Some \<lparr>cn_open = True, cn_sent = [C_PortConnected \<lparr>pc_uuid = ''u2'', pc_error = Some err\<rparr>]\<rparr>"
  using dispatch_connect_answers [OF sample_np_connection, of sample_connect sample_hyper "\<lambda>_. None"]
  by (auto simp: sample_connect_def sample_np_def np_client_new_def)

text \<open>
  The server can make the client panic: an answer to a port request, or a connect message,
  with a protocol number that is not TCP's does.
\<close>

theorem unknown_protocol_panics:
  assumes "pod_protocol opened \<noteq> 0" "pod_error opened = None" "pct_protocol connect \<noteq> 0"
  shows "np_message env tc (S_PortOpened opened) c = Panic \<and> np_message env tc (S_PortConnect connect) c = Panic"
  using assms
  by (simp add: np_message_def port_register_def dispatch_connect_def port_connect_def port_origin_from_raw_def
      port_protocol_try_from_def)

theorem unknown_protocol_panics_witness:
  "np_message sample_hyper (\<lambda>_. None) (S_PortOpened (sample_opened\<lparr>pod_protocol := 1\<rparr>)) sample_np = Panic"
  using unknown_protocol_panics [of "sample_opened\<lparr>pod_protocol := 1\<rparr>" "sample_connect\<lparr>pct_protocol := 1\<rparr>"]
  by (simp add: sample_opened_def sample_connect_def)

end
