(* ===== verification/Np_Run.thy ===== *)
theory Np_Run
  imports Np_Dispatch
begin

text \<open>
  The main loop of the client program: \<open>np/src/lib.rs\<close> and the data of \<open>np/src/settings.rs\<close>.

  The arguments and the settings arrive parsed (\<open>clap\<close> and the \<open>config\<close> crate do that). The
  loop connects, opens the tunnels, serves, and starts over; \<open>cycle\<close> is what the outside does
  in one round of it: whether the server can be reached, whether the sends succeed, and the
  frames that arrive. The trace records the attempts, the pauses in seconds and the exit.
\<close>

section \<open>Settings and arguments\<close>

datatype tunnel =
    HttpTunnel "string option" addr
  | TcpTunnel "addr option" addr

record settings =
  se_hostname :: string
  se_secure :: bool
  se_tunnels :: "tunnel list option"

datatype command = Cmd_Http u16 | Cmd_Tcp u16 | Cmd_Version

record arguments =
  ar_hostname :: "string option"
  ar_remote_port :: "u16 option"
  ar_no_config_file :: "bool option"
  ar_command :: "command option"

definition use_config_file :: "arguments \<Rightarrow> bool" where
  "use_config_file args = (\<not> (case ar_no_config_file args of Some b \<Rightarrow> b | None \<Rightarrow> False))"

text \<open>What the arguments ask for: to print the version and exit, or these tunnels.\<close>

datatype plan = Print_Version | No_Tunnels | Run "tunnel list"

definition command_tunnels :: "arguments \<Rightarrow> command \<Rightarrow> tunnel list option" where
  "command_tunnels args cmd =
     (case cmd of
        Cmd_Version \<Rightarrow> None
      | Cmd_Http local_port \<Rightarrow> Some [HttpTunnel (ar_hostname args) (from_port local_port)]
      | Cmd_Tcp local_port \<Rightarrow>
          (let remote_addr = (case ar_hostname args of
                 Some hostname \<Rightarrow> Some (from_host_and_port hostname
                   (case ar_remote_port args of Some p \<Rightarrow> p | None \<Rightarrow> 0))
               | None \<Rightarrow> map_option from_port (ar_remote_port args))
           in Some [TcpTunnel remote_addr (from_port local_port)]))"

definition make_plan :: "settings \<Rightarrow> arguments \<Rightarrow> plan" where
  "make_plan s args =
     (let tunnels = (case se_tunnels s of Some ts \<Rightarrow> ts | None \<Rightarrow> [])
      in case ar_command args of
           None \<Rightarrow> if tunnels = [] then No_Tunnels else Run tunnels
         | Some cmd \<Rightarrow>
             (case command_tunnels args cmd of
                None \<Rightarrow> Print_Version
              | Some ts \<Rightarrow> Run (tunnels @ ts)))"

section \<open>Opening the tunnels\<close>

definition MAX_CONNECT_RETRIES :: nat where "MAX_CONNECT_RETRIES = 5"
definition CONNECT_RETRY_DELAY :: nat where "CONNECT_RETRY_DELAY = 1"

datatype run_event = Attempt bool | Pause nat | Gave_Up

text \<open>\<open>connect_failure\<close>: \<open>None\<close> is \<open>process::exit\<close>.\<close>

definition connect_failure :: "np_client \<Rightarrow> nat \<Rightarrow> run_event list \<times> (np_client \<times> nat) option" where
  "connect_failure c retries =
     (let c' = snd (np_disconnect c); retries = retries + 1
      in if MAX_CONNECT_RETRIES < retries then ([Gave_Up], None)
         else ([Pause (CONNECT_RETRY_DELAY * 2 ^ retries)], Some (c', retries)))"

definition open_tunnel :: "tunnel \<Rightarrow> np_client \<Rightarrow> (np_error + unit) \<times> np_client" where
  "open_tunnel t c =
     (case t of
        HttpTunnel hostname local_addr \<Rightarrow>
          np_http_open (case hostname of Some h \<Rightarrow> h | None \<Rightarrow> []) local_addr c
      | TcpTunnel remote_addr local_addr \<Rightarrow>
          np_tcp_open (case remote_addr of Some a \<Rightarrow> a | None \<Rightarrow> \<lparr>addr_host = None, addr_port = 0\<rparr>) local_addr c)"

text \<open>The \<open>continue\<close> after a failure belongs to this \<open>for\<close>, so the next tunnel is tried.\<close>

fun open_tunnels :: "tunnel list \<Rightarrow> np_client \<Rightarrow> nat \<Rightarrow> run_event list \<times> (np_client \<times> nat) option" where
  "open_tunnels [] c retries = ([], Some (c, retries))"
| "open_tunnels (t # ts) c retries =
     (case open_tunnel t c of
        (Inr _, c') \<Rightarrow> open_tunnels ts c' retries
      | (Inl _, c') \<Rightarrow>
          (case connect_failure c' retries of
             (ev, None) \<Rightarrow> (ev, None)
           | (ev, Some (c'', retries')) \<Rightarrow>
               (let (ev', r) = open_tunnels ts c'' retries' in (ev @ ev', r))))"

section \<open>Serving\<close>

text \<open>
  The inner loop over the frames that arrive. It ends (\<open>True\<close>) at the first error of \<open>recv\<close>;
  errors of \<open>dispatch::message\<close> are only logged. Where a channel is full the loop waits. Without
  a connection \<open>recv\<close> fails at once, whether or not anything arrives.
\<close>

fun read_loop ::
  "(bytes \<Rightarrow> string + server_payload) \<Rightarrow> hyper_env \<Rightarrow> (string \<Rightarrow> string option)
   \<Rightarrow> np_frame option list \<Rightarrow> np_client \<Rightarrow> (bool \<times> np_client) outcome" where
  "read_loop decode env tcp_connect [] c = Return (nc_connection c = None, c)"
| "read_loop decode env tcp_connect (f # fs) c =
     (case np_recv decode f c of
        Inl _ \<Rightarrow> Return (True, c)
      | Inr m \<Rightarrow>
          bind_outcome (np_message env tcp_connect m c) (\<lambda>(r, c').
            case r of Pending \<Rightarrow> Return (False, c')
                    | Ready _ \<Rightarrow> read_loop decode env tcp_connect fs c'))"

record cycle =
  cy_reach :: "string option"
  cy_socket_open :: bool
  cy_frames :: "np_frame option list"

text \<open>One round of the outer loop; \<open>None\<close>: the process has exited, or still serves.\<close>

definition run_cycle ::
  "(bytes \<Rightarrow> string + server_payload) \<Rightarrow> hyper_env \<Rightarrow> (string \<Rightarrow> string option) \<Rightarrow> string \<Rightarrow> settings
   \<Rightarrow> tunnel list \<Rightarrow> cycle \<Rightarrow> np_client \<times> nat \<Rightarrow> (run_event list \<times> (np_client \<times> nat) option) outcome" where
  "run_cycle decode env tcp_connect os s tunnels cy st =
     (case st of (c, retries) \<Rightarrow>
      (case np_connect (\<lambda>_. cy_reach cy) os (se_hostname s) (se_secure s) c of
         (Inl _, c1) \<Rightarrow>
           (case connect_failure c1 retries of (ev, r) \<Rightarrow> Return (Attempt False # ev, r))
       | (Inr _, c1) \<Rightarrow>
           (let c2 = c1\<lparr>nc_connection := map_option (cn_open_update (\<lambda>_. cy_socket_open cy)) (nc_connection c1)\<rparr>
            in case open_tunnels tunnels c2 retries of
                 (ev, None) \<Rightarrow> Return (Attempt True # ev, None)
               | (ev, Some (c3, _)) \<Rightarrow>
                   bind_outcome (read_loop decode env tcp_connect (cy_frames cy) c3) (\<lambda>(ended, c4).
                     Return (Attempt True # ev, if ended then Some (c4, 0) else None)))))"

fun run_loop ::
  "(bytes \<Rightarrow> string + server_payload) \<Rightarrow> hyper_env \<Rightarrow> (string \<Rightarrow> string option) \<Rightarrow> string \<Rightarrow> settings
   \<Rightarrow> tunnel list \<Rightarrow> cycle list \<Rightarrow> np_client \<times> nat \<Rightarrow> (run_event list \<times> (np_client \<times> nat) option) outcome" where
  "run_loop decode env tcp_connect os s tunnels [] st = Return ([], Some st)"
| "run_loop decode env tcp_connect os s tunnels (cy # cys) st =
     bind_outcome (run_cycle decode env tcp_connect os s tunnels cy st) (\<lambda>(ev, r).
       case r of
         None \<Rightarrow> Return (ev, None)
       | Some st' \<Rightarrow> bind_outcome (run_loop decode env tcp_connect os s tunnels cys st') (\<lambda>(ev', r').
           Return (ev @ ev', r')))"

section \<open>Retries\<close>

lemma unreachable_cycle:
  assumes "cy_reach cy = Some e"
  shows "run_cycle decode env tc os s tunnels cy (c, retries) =
    (if retries < 5 then Return ([Attempt False, Pause (2 ^ (retries + 1))], Some (snd (np_disconnect c), retries + 1))
     else Return ([Attempt False, Gave_Up], None))"
  using assms
  by (simp add: run_cycle_def np_connect_def connect_failure_def MAX_CONNECT_RETRIES_def CONNECT_RETRY_DELAY_def Let_def)

text \<open>
  While the server cannot be reached the client tries six times, with pauses of 2, 4, 8, 16
  and 32 seconds between the attempts, and then exits.
\<close>

theorem gives_up_unreachable:
  assumes "\<forall>cy \<in> set cys. cy_reach cy \<noteq> None" "6 \<le> length cys"
  shows "run_loop decode env tc os s tunnels cys (c, 0) =
    Return ([Attempt False, Pause 2, Attempt False, Pause 4, Attempt False, Pause 8,
             Attempt False, Pause 16, Attempt False, Pause 32, Attempt False, Gave_Up], None)"
proof -
  obtain c1 c2 c3 c4 c5 c6 rest where cys: "cys = c1 # c2 # c3 # c4 # c5 # c6 # rest"
    using assms(2) by (auto simp: Suc_le_length_iff numeral_eq_Suc)
  then obtain e1 e2 e3 e4 e5 e6 where "cy_reach c1 = Some e1" "cy_reach c2 = Some e2" "cy_reach c3 = Some e3"
      "cy_reach c4 = Some e4" "cy_reach c5 = Some e5" "cy_reach c6 = Some e6"
    using assms(1) by auto
  then show ?thesis
    by (simp add: cys unreachable_cycle)
qed

definition down_cycle :: cycle where
  "down_cycle = \<lparr>cy_reach = Some ''refused'', cy_socket_open = False, cy_frames = []\<rparr>"

definition sample_settings :: settings where
  "sample_settings = \<lparr>se_hostname = ''api.nport.io'', se_secure = True, se_tunnels = None\<rparr>"

theorem gives_up_unreachable_witness:
  "\<exists>ev. run_loop (\<lambda>_. Inl []) sample_hyper (\<lambda>_. None) ''linux'' sample_settings [] (replicate 7 down_cycle) (sample_np, 0)
     = Return (ev, None) \<and> length ev = 12"
  using gives_up_unreachable [of "replicate 7 down_cycle" "\<lambda>_. Inl []" sample_hyper "\<lambda>_. None" "''linux''"
      sample_settings "[]" sample_np]
  by (simp add: down_cycle_def)

section \<open>A connection that takes no messages\<close>

lemma np_send_closed:
  "nc_connection c = None \<or> nc_connection c = Some cn \<and> \<not> cn_open cn \<Longrightarrow> \<exists>e. np_send m c = (Err e, c)"
  by (auto simp: np_send_def)

lemma open_tunnel_closed:
  "nc_connection c = None \<or> nc_connection c = Some cn \<and> \<not> cn_open cn \<Longrightarrow> \<exists>e. open_tunnel t c = (Err e, c)"
  using np_send_closed [of c cn]
  by (auto simp: open_tunnel_def np_http_open_def np_tcp_open_def np_port_open_def split: tunnel.split)

lemma open_tunnels_disconnected:
  "\<lbrakk>nc_connection c = None; retries + length ts \<le> 5\<rbrakk> \<Longrightarrow>
     \<exists>ev c'. open_tunnels ts c retries = (ev, Some (c', retries + length ts)) \<and> Gave_Up \<notin> set ev
        \<and> nc_connection c' = None"
proof (induction ts arbitrary: c retries)
  case (Cons t ts)
  obtain e where e: "open_tunnel t c = (Err e, c)"
    using open_tunnel_closed [of c] Cons.prems(1) by blast
  obtain ev c' where rest: "open_tunnels ts (snd (np_disconnect c)) (retries + 1) = (ev, Some (c', retries + 1 + length ts))"
      "Gave_Up \<notin> set ev" "nc_connection c' = None"
    using Cons.IH [of "snd (np_disconnect c)" "retries + 1"] Cons.prems by (auto simp: np_disconnect_def)
  then show ?case
    using e Cons.prems(2) by (simp add: connect_failure_def MAX_CONNECT_RETRIES_def Let_def)
qed simp

lemma open_tunnels_closed:
  assumes "nc_connection c = Some cn" "\<not> cn_open cn" "length ts \<le> 5" "ts \<noteq> []"
  shows "\<exists>ev c'. open_tunnels ts c 0 = (ev, Some (c', length ts)) \<and> Gave_Up \<notin> set ev \<and> nc_connection c' = None"
proof -
  obtain t ts' where ts: "ts = t # ts'" using assms(4) by (cases ts) auto
  obtain e where e: "open_tunnel t c = (Err e, c)"
    using open_tunnel_closed [of c cn] assms(1,2) by blast
  obtain ev c' where "open_tunnels ts' (snd (np_disconnect c)) 1 = (ev, Some (c', 1 + length ts'))"
      "Gave_Up \<notin> set ev" "nc_connection c' = None"
    using open_tunnels_disconnected [of "snd (np_disconnect c)" 1 ts'] assms(3) ts by (auto simp: np_disconnect_def)
  then show ?thesis
    using e ts by (simp add: connect_failure_def MAX_CONNECT_RETRIES_def Let_def)
qed

lemma connected_cycle:
  assumes "cy_reach cy = None"
    and "open_tunnels tunnels (c\<lparr>nc_connection := Some \<lparr>cn_open = cy_socket_open cy, cn_sent = []\<rparr>\<rparr>) retries
      = (ev, Some (c3, n))"
    and "read_loop decode env tc (cy_frames cy) c3 = Return (True, c4)"
  shows "run_cycle decode env tc os s tunnels cy (c, retries) = Return (Attempt True # ev, Some (c4, 0))"
proof -
  have "np_connect (\<lambda>_. cy_reach cy) os (se_hostname s) (se_secure s) c
      = (Ok (), c\<lparr>nc_connection := Some \<lparr>cn_open = True, cn_sent = []\<rparr>\<rparr>)"
    using assms(1) by (simp add: np_connect_def)
  then show ?thesis
    unfolding run_cycle_def by (simp only: prod.case sum.case) (simp add: assms(2,3))
qed

text \<open>
  C28. The limit on retries does not cover a server that accepts the connection but takes no
  messages: with one to five tunnels the client goes round for ever, because the failure of a
  tunnel continues with the next one and the counter is set back before the loop notices that
  it is disconnected. (The trace of any number of rounds has no exit.)
\<close>

theorem never_gives_up_on_dead_socket:
  assumes "\<forall>cy \<in> set cys. cy_reach cy = None \<and> \<not> cy_socket_open cy"
    and "tunnels \<noteq> []" "length tunnels \<le> 5"
  shows "\<exists>ev c'. run_loop decode env tc os s tunnels cys (c, 0) = Return (ev, Some (c', 0)) \<and> Gave_Up \<notin> set ev"
  using assms(1)
proof (induction cys arbitrary: c)
  case (Cons cy cys)
  let ?c2 = "c\<lparr>nc_connection := Some \<lparr>cn_open = False, cn_sent = []\<rparr>\<rparr>"
  obtain ev c3 where t: "open_tunnels tunnels ?c2 0 = (ev, Some (c3, length tunnels))" "Gave_Up \<notin> set ev"
      "nc_connection c3 = None"
    using open_tunnels_closed [of ?c2 "\<lparr>cn_open = False, cn_sent = []\<rparr>" tunnels] assms(2,3) by auto
  have "read_loop decode env tc (cy_frames cy) c3 = Return (True, c3)"
    using t(3) by (cases "cy_frames cy") (simp_all add: np_recv_def)
  moreover have "cy_reach cy = None" "cy_socket_open cy = False"
    using Cons.prems by auto
  ultimately have cycle: "run_cycle decode env tc os s tunnels cy (c, 0) = Return (Attempt True # ev, Some (c3, 0))"
    using t(1) by (intro connected_cycle) simp_all
  have "\<forall>cy \<in> set cys. cy_reach cy = None \<and> \<not> cy_socket_open cy"
    using Cons.prems by simp
  from Cons.IH [OF this, of c3] obtain ev' c'
    where "run_loop decode env tc os s tunnels cys (c3, 0) = Return (ev', Some (c', 0))" "Gave_Up \<notin> set ev'"
    by blast
  then show ?case
    using cycle t(2) by simp
qed simp

definition dead_cycle :: cycle where
  "dead_cycle = \<lparr>cy_reach = None, cy_socket_open = False, cy_frames = []\<rparr>"

theorem never_gives_up_on_dead_socket_witness:
  "\<exists>ev c'. run_loop (\<lambda>_. Inl []) sample_hyper (\<lambda>_. None) ''linux'' sample_settings [HttpTunnel None (from_port 80)]
      (replicate 100 dead_cycle) (sample_np, 0) = Return (ev, Some (c', 0)) \<and> Gave_Up \<notin> set ev"
  by (rule never_gives_up_on_dead_socket) (auto simp: dead_cycle_def)

end
