(* ===== verification/Np_Main.thy ===== *)
theory Np_Main
  imports Np_Run
begin

text \<open>
  \<open>np\<close> from its start to the loop: \<open>Settings::new\<close> of \<open>np/src/settings.rs\<close> and \<open>run\<close> of
  \<open>np/src/lib.rs\<close>. The values of the \<open>config\<close> crate and their conversion are parameters
  (\<open>config_env\<close>); its rule that a later source replaces an earlier one, key by key, is written as
  the sum of maps. \<open>env\<close> holds what \<open>Environment\<close> collects, \<open>conf\<close> the content of the
  configuration file, or the error of reading it; a missing file is the empty map.
\<close>

section \<open>\<open>settings.rs\<close>\<close>

definition DEFAULT_SERVER :: string where "DEFAULT_SERVER = ''api.nport.io''"

record 'v config_env =
  cf_text :: "string \<Rightarrow> 'v"
  cf_bool :: "bool \<Rightarrow> 'v"
  cf_text_of :: "'v \<Rightarrow> string + string"
  cf_bool_of :: "'v \<Rightarrow> string + bool"
  cf_tunnels_of :: "'v \<Rightarrow> string + tunnel list"

definition settings_defaults :: "'v config_env \<Rightarrow> string \<rightharpoonup> 'v" where
  "settings_defaults e =
     [''server.hostname'' \<mapsto> cf_text e DEFAULT_SERVER, ''server.secure'' \<mapsto> cf_bool e True]"

text \<open>\<open>try_deserialize\<close>; only the tunnels may be missing.\<close>

definition deserialize_settings :: "'v config_env \<Rightarrow> (string \<rightharpoonup> 'v) \<Rightarrow> string + settings" where
  "deserialize_settings e m =
     (case m ''server.hostname'' of
        None \<Rightarrow> Err ''missing field `hostname`''
      | Some h \<Rightarrow>
     (case cf_text_of e h of
        Inl x \<Rightarrow> Err x
      | Inr hostname \<Rightarrow>
     (case m ''server.secure'' of
        None \<Rightarrow> Err ''missing field `secure`''
      | Some b \<Rightarrow>
     (case cf_bool_of e b of
        Inl x \<Rightarrow> Err x
      | Inr secure \<Rightarrow>
     (case m ''tunnels'' of
        None \<Rightarrow> Ok \<lparr>se_hostname = hostname, se_secure = secure, se_tunnels = None\<rparr>
      | Some v \<Rightarrow>
     (case cf_tunnels_of e v of
        Inl x \<Rightarrow> Err x
      | Inr ts \<Rightarrow> Ok \<lparr>se_hostname = hostname, se_secure = secure, se_tunnels = Some ts\<rparr>))))))"

definition settings_new ::
  "'v config_env \<Rightarrow> (string \<rightharpoonup> 'v) \<Rightarrow> string + (string \<rightharpoonup> 'v) \<Rightarrow> bool \<Rightarrow> string + settings" where
  "settings_new e env conf use_config =
     (let builder = settings_defaults e ++ env
      in if use_config then
           (case conf of
              Inl x \<Rightarrow> Err x
            | Inr f \<Rightarrow> deserialize_settings e (builder ++ f))
         else deserialize_settings e builder)"

section \<open>\<open>run\<close>\<close>

datatype run_end =
    Bad_Configuration string
  | Printed_Version
  | Nothing_To_Run
  | Ran "run_event list" "(np_client \<times> nat) option"

definition np_main ::
  "'v config_env \<Rightarrow> (string \<rightharpoonup> 'v) \<Rightarrow> string + (string \<rightharpoonup> 'v) \<Rightarrow> version_info
   \<Rightarrow> (bytes \<Rightarrow> string + server_payload) \<Rightarrow> hyper_env \<Rightarrow> (string \<Rightarrow> string option) \<Rightarrow> string
   \<Rightarrow> arguments \<Rightarrow> cycle list \<Rightarrow> run_end outcome" where
  "np_main e env conf v decode hyper tcp_connect os args cys =
     (case settings_new e env conf (use_config_file args) of
        Inl x \<Rightarrow> Return (Bad_Configuration x)
      | Inr s \<Rightarrow>
          (case make_plan s args of
             Print_Version \<Rightarrow> Return Printed_Version
           | No_Tunnels \<Rightarrow> Return Nothing_To_Run
           | Run tunnels \<Rightarrow>
               bind_outcome (run_loop decode hyper tcp_connect os s tunnels cys (np_client_new v, 0)) (\<lambda>(ev, st).
                 Return (Ran ev st))))"

section \<open>Where a setting comes from\<close>

text \<open>The configuration file first, then the environment, then the default.\<close>

definition setting ::
  "'v config_env \<Rightarrow> (string \<rightharpoonup> 'v) \<Rightarrow> (string \<rightharpoonup> 'v) \<Rightarrow> string \<Rightarrow> 'v option" where
  "setting e env f key =
     (case f key of Some v \<Rightarrow> Some v
      | None \<Rightarrow> (case env key of Some v \<Rightarrow> Some v | None \<Rightarrow> settings_defaults e key))"

lemma builder_setting:
  "(settings_defaults e ++ env ++ f) key = setting e env f key" "(settings_defaults e ++ env) key = setting e env Map.empty key"
  by (simp_all add: setting_def map_add_def split: option.split)

lemma deserialize_settings_Ok:
  "deserialize_settings e m = Ok s \<longleftrightarrow>
     (\<exists>h b. m ''server.hostname'' = Some h \<and> cf_text_of e h = Ok (se_hostname s)
        \<and> m ''server.secure'' = Some b \<and> cf_bool_of e b = Ok (se_secure s)
        \<and> (case m ''tunnels'' of None \<Rightarrow> se_tunnels s = None
           | Some v \<Rightarrow> \<exists>ts. cf_tunnels_of e v = Ok ts \<and> se_tunnels s = Some ts))"
  by (cases s) (auto simp: deserialize_settings_def split: option.splits sum.splits)

lemma settings_sources:
  assumes "deserialize_settings e (settings_defaults e ++ env ++ f) = Ok s"
  shows "cf_text_of e (the (setting e env f ''server.hostname'')) = Ok (se_hostname s)"
    "cf_bool_of e (the (setting e env f ''server.secure'')) = Ok (se_secure s)"
    "case setting e env f ''tunnels'' of None \<Rightarrow> se_tunnels s = None | Some v \<Rightarrow> cf_tunnels_of e v = Ok (the (se_tunnels s)) \<and> se_tunnels s \<noteq> None"
  using assms by (auto simp: deserialize_settings_Ok builder_setting split: option.splits)

text \<open>What \<open>np\<close> is left with if the server cannot be reached.\<close>

definition unreachable_end :: "run_end" where
  "unreachable_end = Ran [Attempt False, Pause 2, Attempt False, Pause 4, Attempt False, Pause 8,
     Attempt False, Pause 16, Attempt False, Pause 32, Attempt False, Gave_Up] None"

text \<open>
  C27. \<open>np\<close> from its command line. It always exits while the server cannot be reached, after six
  attempts if there is a tunnel to open. A configuration that cannot be read ends it whatever
  the command is, even for \<open>version\<close>; without one (\<open>-N\<close>) the file plays no part. A setting of the file
  (the server's name, whether to use TLS, the tunnels)
  replaces one of the environment, and that one the default; with neither, the server is
  \<open>api.nport.io\<close> over TLS and there are no tunnels. The tunnel of the command line, HTTP or TCP, comes after those of the settings.
\<close>

theorem np_main_correct:
  assumes unreachable: "\<forall>cy \<in> set cys. cy_reach cy \<noteq> None" "6 \<le> length cys"
    and laws: "\<And>t. cf_text_of e (cf_text e t) = Ok t" "\<And>b. cf_bool_of e (cf_bool e b) = Ok b"
    and f: "f = (case conf of Inr m \<Rightarrow> if use_config_file args then m else Map.empty | Inl x \<Rightarrow> Map.empty)"
  shows "np_main e env conf v decode hyper tc os args cys = Return
      (case settings_new e env conf (use_config_file args) of
         Inl x \<Rightarrow> Bad_Configuration x
       | Inr s \<Rightarrow> if ar_command args = Some Cmd_Version then Printed_Version
           else if ar_command args = None \<and> se_tunnels s \<in> {None, Some []} then Nothing_To_Run
           else unreachable_end)
    \<and> (\<forall>x. conf = Inl x \<and> use_config_file args \<longrightarrow> settings_new e env conf (use_config_file args) = Err x)
    \<and> (\<forall>s. settings_new e env conf (use_config_file args) = Ok s \<longrightarrow>
         Ok (se_hostname s) = cf_text_of e (the (setting e env f ''server.hostname''))
         \<and> Ok (se_secure s) = cf_bool_of e (the (setting e env f ''server.secure''))
         \<and> (case setting e env f ''tunnels'' of None \<Rightarrow> se_tunnels s = None
            | Some v \<Rightarrow> \<exists>ts. se_tunnels s = Some ts \<and> cf_tunnels_of e v = Ok ts)
         \<and> (\<forall>p. ar_command args = Some (Cmd_Http p) \<longrightarrow>
              make_plan s args = Run ((case se_tunnels s of Some ts \<Rightarrow> ts | None \<Rightarrow> [])
                @ [HttpTunnel (ar_hostname args) (from_port p)]))
         \<and> (\<forall>p. ar_command args = Some (Cmd_Tcp p) \<longrightarrow>
              make_plan s args = Run ((case se_tunnels s of Some ts \<Rightarrow> ts | None \<Rightarrow> [])
                @ [TcpTunnel (case (ar_hostname args, ar_remote_port args) of
                       (None, None) \<Rightarrow> None | (None, Some q) \<Rightarrow> Some (from_port q)
                     | (Some h, None) \<Rightarrow> Some (from_host_and_port h 0)
                     | (Some h, Some q) \<Rightarrow> Some (from_host_and_port h q)) (from_port p)])))
    \<and> (env = Map.empty \<and> f = Map.empty \<and> (\<nexists>x. conf = Inl x \<and> use_config_file args) \<longrightarrow>
         settings_new e env conf (use_config_file args)
           = Ok \<lparr>se_hostname = ''api.nport.io'', se_secure = True, se_tunnels = None\<rparr>)"
proof (intro conjI)
  show "np_main e env conf v decode hyper tc os args cys = Return
      (case settings_new e env conf (use_config_file args) of
         Inl x \<Rightarrow> Bad_Configuration x
       | Inr s \<Rightarrow> if ar_command args = Some Cmd_Version then Printed_Version
           else if ar_command args = None \<and> se_tunnels s \<in> {None, Some []} then Nothing_To_Run
           else unreachable_end)"
    using gives_up_unreachable [OF unreachable]
    by (auto simp: np_main_def make_plan_def command_tunnels_def Let_def unreachable_end_def
        split: sum.split option.split command.split)
next
  have new: "settings_new e env conf (use_config_file args) = deserialize_settings e (settings_defaults e ++ env ++ f)"
    if "\<nexists>x. conf = Inl x \<and> use_config_file args"
    using that by (auto simp: settings_new_def f Let_def split: sum.splits)
  show "\<forall>x. conf = Inl x \<and> use_config_file args \<longrightarrow> settings_new e env conf (use_config_file args) = Err x"
    by (simp add: settings_new_def Let_def)
  then have "\<nexists>x. conf = Inl x \<and> use_config_file args" if "settings_new e env conf (use_config_file args) = Ok s" for s
    using that by auto
  then have loaded: "deserialize_settings e (settings_defaults e ++ env ++ f) = Ok s"
    if "settings_new e env conf (use_config_file args) = Ok s" for s
    using new that by auto
  show "\<forall>s. settings_new e env conf (use_config_file args) = Ok s \<longrightarrow>
         Ok (se_hostname s) = cf_text_of e (the (setting e env f ''server.hostname''))
         \<and> Ok (se_secure s) = cf_bool_of e (the (setting e env f ''server.secure''))
         \<and> (case setting e env f ''tunnels'' of None \<Rightarrow> se_tunnels s = None
            | Some v \<Rightarrow> \<exists>ts. se_tunnels s = Some ts \<and> cf_tunnels_of e v = Ok ts)
         \<and> (\<forall>p. ar_command args = Some (Cmd_Http p) \<longrightarrow>
              make_plan s args = Run ((case se_tunnels s of Some ts \<Rightarrow> ts | None \<Rightarrow> [])
                @ [HttpTunnel (ar_hostname args) (from_port p)]))
         \<and> (\<forall>p. ar_command args = Some (Cmd_Tcp p) \<longrightarrow>
              make_plan s args = Run ((case se_tunnels s of Some ts \<Rightarrow> ts | None \<Rightarrow> [])
                @ [TcpTunnel (case (ar_hostname args, ar_remote_port args) of
                       (None, None) \<Rightarrow> None | (None, Some q) \<Rightarrow> Some (from_port q)
                     | (Some h, None) \<Rightarrow> Some (from_host_and_port h 0)
                     | (Some h, Some q) \<Rightarrow> Some (from_host_and_port h q)) (from_port p)]))"
  proof (intro allI impI conjI)
    fix s
    assume "settings_new e env conf (use_config_file args) = Ok s"
    note sources = settings_sources [OF loaded [OF this]]
    show "Ok (se_hostname s) = cf_text_of e (the (setting e env f ''server.hostname''))"
      "Ok (se_secure s) = cf_bool_of e (the (setting e env f ''server.secure''))"
      using sources(1,2) by simp_all
    show "case setting e env f ''tunnels'' of None \<Rightarrow> se_tunnels s = None
            | Some v \<Rightarrow> \<exists>ts. se_tunnels s = Some ts \<and> cf_tunnels_of e v = Ok ts"
      using sources(3) by (auto split: option.splits)
  qed (auto simp: make_plan_def command_tunnels_def split: option.splits)
  show "env = Map.empty \<and> f = Map.empty \<and> (\<nexists>x. conf = Inl x \<and> use_config_file args) \<longrightarrow>
         settings_new e env conf (use_config_file args)
           = Ok \<lparr>se_hostname = ''api.nport.io'', se_secure = True, se_tunnels = None\<rparr>"
    using new laws by (auto simp: deserialize_settings_def settings_defaults_def DEFAULT_SERVER_def)
qed

definition sample_config :: "string config_env" where
  "sample_config = \<lparr>cf_text = \<lambda>t. t, cf_bool = \<lambda>b. if b then ''true'' else ''false'', cf_text_of = Ok,
     cf_bool_of = \<lambda>v. if v = ''true'' then Ok True else if v = ''false'' then Ok False else Err ''invalid type'',
     cf_tunnels_of = \<lambda>v. Err ''invalid type''\<rparr>"

definition sample_arguments :: arguments where
  "sample_arguments = \<lparr>ar_hostname = Some ''two'', ar_remote_port = None, ar_no_config_file = None,
     ar_command = Some (Cmd_Http 3000)\<rparr>"

definition sample_version :: version_info where
  "sample_version = \<lparr>vi_pkg_version = ''0.1.0'', vi_git_ref = ''abc'', vi_git_is_dirty = False\<rparr>"

theorem np_main_correct_witness:
  "np_main sample_config Map.empty (Ok Map.empty) sample_version (\<lambda>_. Inl []) sample_hyper (\<lambda>_. None) ''linux''
     sample_arguments (replicate 7 down_cycle) = Return unreachable_end
   \<and> np_main sample_config Map.empty (Err ''syntax'') sample_version (\<lambda>_. Inl []) sample_hyper (\<lambda>_. None) ''linux''
     (sample_arguments\<lparr>ar_command := Some Cmd_Version\<rparr>) (replicate 7 down_cycle) = Return (Bad_Configuration ''syntax'')"
proof -
  have cys: "\<forall>cy \<in> set (replicate 7 down_cycle). cy_reach cy \<noteq> None" "6 \<le> length (replicate 7 down_cycle)"
    by (simp_all add: down_cycle_def)
  have laws: "\<And>t. cf_text_of sample_config (cf_text sample_config t) = Ok t"
    "\<And>b. cf_bool_of sample_config (cf_bool sample_config b) = Ok b"
    by (simp_all add: sample_config_def)
  note good = np_main_correct [OF cys laws refl, where env = Map.empty and conf = "Ok Map.empty" and args = sample_arguments
      and v = sample_version and decode = "\<lambda>_. Inl []" and hyper = sample_hyper and tc = "\<lambda>_. None" and os = "''linux''"]
  note bad = np_main_correct [OF cys laws refl, where env = Map.empty and conf = "Err ''syntax''"
      and args = "sample_arguments\<lparr>ar_command := Some Cmd_Version\<rparr>"
      and v = sample_version and decode = "\<lambda>_. Inl []" and hyper = sample_hyper and tc = "\<lambda>_. None" and os = "''linux''"]
  show ?thesis
    using good bad by (auto simp: sample_arguments_def use_config_file_def)
qed

end
