(* ===== verification/Port_Lock.thy ===== *)
theory Port_Lock
  imports Channels
begin

text \<open>
  The lock on the table of port writers, on both sides (\<open>Client::port_message\<close> and
  \<open>Client::port_writer_remove\<close> with the loops of \<open>serve_socket\<close> and \<open>client_port\<close>).

  \<open>port_message\<close> keeps its read guard while \<open>Sender::send\<close> waits for room. The loop that
  empties the channel takes the write lock when it ends, and it owns the receiver until then.
  \<open>lock_step\<close> is the system of the message task and the loop of one port, step by step; the
  channel has \<open>cap\<close> places (4 in the server, 1 in \<open>np\<close>).
\<close>

text \<open>What the message task does: nothing for this port, or waiting in \<open>send\<close> with the guard.\<close>

datatype sender = No_Guard | Sending port_message

text \<open>The loop; after its end it wants the write lock; then the receiver is gone.\<close>

datatype looper = Looping | Wants_Lock | Removed

type_synonym lock_state = "port_message list \<times> sender \<times> looper"

inductive lock_step :: "nat \<Rightarrow> lock_state \<Rightarrow> lock_state \<Rightarrow> bool" for cap where
  take_guard: "p \<noteq> Removed \<Longrightarrow> lock_step cap (q, No_Guard, p) (q, Sending m, p)"
| unknown: "lock_step cap (q, No_Guard, Removed) (q, No_Guard, Removed)"
| send: "\<lbrakk>length q < cap; p \<noteq> Removed\<rbrakk> \<Longrightarrow> lock_step cap (q, Sending m, p) (q @ [m], No_Guard, p)"
| receive_data: "lock_step cap (PM_Data bs # q, s, Looping) (q, s, Looping)"
| receive_close: "lock_step cap (PM_Close # q, s, Looping) (q, s, Wants_Lock)"
| socket_ends: "lock_step cap (q, s, Looping) (q, s, Wants_Lock)"
| remove: "lock_step cap (q, No_Guard, Wants_Lock) ([], No_Guard, Removed)"

code_pred lock_step .

inductive_cases lock_stepE: "lock_step cap s t"

definition lock_init :: lock_state where
  "lock_init = ([], No_Guard, Looping)"

definition deadlocked :: "nat \<Rightarrow> lock_state \<Rightarrow> bool" where
  "deadlocked cap s = (case s of (q, Sending m, Wants_Lock) \<Rightarrow> length q = cap | _ \<Rightarrow> False)"

definition lock_ok :: "nat \<Rightarrow> lock_state \<Rightarrow> bool" where
  "lock_ok cap s = (case s of (q, t, p) \<Rightarrow> length q \<le> cap \<and> (p = Removed \<longrightarrow> t = No_Guard))"

lemma lock_step_ok: "\<lbrakk>lock_step cap s t; lock_ok cap s\<rbrakk> \<Longrightarrow> lock_ok cap t"
  by (induction rule: lock_step.induct) (auto simp: lock_ok_def)

lemma lock_reachable_ok: "(lock_step cap)\<^sup>*\<^sup>* lock_init s \<Longrightarrow> lock_ok cap s"
proof (induction rule: rtranclp_induct)
  case base
  show ?case by (simp add: lock_ok_def lock_init_def)
qed (rule lock_step_ok)

lemma stuck_iff:
  assumes "lock_ok cap s"
  shows "(\<forall>t. \<not> lock_step cap s t) \<longleftrightarrow> deadlocked cap s"
proof -
  obtain q t p where s: "s = (q, t, p)" by (cases s)
  show ?thesis
  proof (cases t)
    case No_Guard
    then have "\<exists>t'. lock_step cap s t'"
      using s take_guard [of p cap q] unknown [of cap q] by (cases "p = Removed") auto
    then show ?thesis
      using s No_Guard by (auto simp: deadlocked_def)
  next
    case (Sending m)
    then have p: "p = Looping \<or> p = Wants_Lock"
      using assms s by (cases p) (auto simp: lock_ok_def)
    then show ?thesis
    proof
      assume "p = Looping"
      then have "\<exists>t'. lock_step cap s t'"
        using s socket_ends by blast
      then show ?thesis
        using s Sending \<open>p = Looping\<close> by (auto simp: deadlocked_def)
    next
      assume w: "p = Wants_Lock"
      show ?thesis
      proof (cases "length q < cap")
        case True
        then have "lock_step cap s (q @ [m], No_Guard, p)"
          using s Sending w by (auto intro: send)
        then show ?thesis
          using s Sending w True by (auto simp: deadlocked_def)
      next
        case False
        then have "length q = cap"
          using assms s by (simp add: lock_ok_def)
        then show ?thesis
          using s Sending w by (auto simp: deadlocked_def elim: lock_stepE)
      qed
    qed
  qed
qed

lemma fill_channel:
  "n \<le> cap \<Longrightarrow> (lock_step cap)\<^sup>*\<^sup>* lock_init (replicate n (PM_Data []), No_Guard, Looping)"
proof (induction n)
  case (Suc n)
  have "lock_step cap (replicate n (PM_Data []), No_Guard, Looping) (replicate n (PM_Data []), Sending (PM_Data []), Looping)"
    by (rule take_guard) simp
  moreover have "lock_step cap (replicate n (PM_Data []), Sending (PM_Data []), Looping)
      (replicate n (PM_Data []) @ [PM_Data []], No_Guard, Looping)"
    using Suc.prems by (intro send) simp_all
  ultimately show ?case
    using Suc by (simp add: replicate_append_same)
qed (simp add: lock_init_def)

text \<open>
  C24. The states in which nothing can happen any more are exactly those where the channel is
  full, the message task waits in it with the guard and the loop waits for the lock; and such a
  state can be reached, for every capacity: fill the channel, send once more, and let the
  visitor's socket end before the loop takes another message.
\<close>

theorem port_lock_deadlock:
  "(\<forall>s. (lock_step cap)\<^sup>*\<^sup>* lock_init s \<longrightarrow> ((\<forall>t. \<not> lock_step cap s t) \<longleftrightarrow> deadlocked cap s))
   \<and> (\<exists>s. (lock_step cap)\<^sup>*\<^sup>* lock_init s \<and> deadlocked cap s)"
proof (intro conjI allI impI)
  show "(\<forall>t. \<not> lock_step cap s t) \<longleftrightarrow> deadlocked cap s" if "(lock_step cap)\<^sup>*\<^sup>* lock_init s" for s
    using stuck_iff lock_reachable_ok [OF that] by blast
  let ?q = "replicate cap (PM_Data [])"
  have "lock_step cap (?q, No_Guard, Looping) (?q, Sending PM_Close, Looping)"
    by (rule take_guard) simp
  moreover have "lock_step cap (?q, Sending PM_Close, Looping) (?q, Sending PM_Close, Wants_Lock)"
    by (rule socket_ends)
  ultimately have "(lock_step cap)\<^sup>*\<^sup>* lock_init (?q, Sending PM_Close, Wants_Lock)"
    using fill_channel [of cap cap] by (meson order_refl rtranclp.rtrancl_into_rtrancl)
  moreover have "deadlocked cap (?q, Sending PM_Close, Wants_Lock)"
    by (simp add: deadlocked_def)
  ultimately show "\<exists>s. (lock_step cap)\<^sup>*\<^sup>* lock_init s \<and> deadlocked cap s"
    by blast
qed

theorem port_lock_deadlock_witness:
  "\<exists>s. (lock_step 1)\<^sup>*\<^sup>* lock_init s \<and> (\<forall>t. \<not> lock_step 1 s t)"
  using port_lock_deadlock [of 1] by blast

end
