(* ===== verification/Http_Forwarding.thy ===== *)
theory Http_Forwarding
  imports Session_Props
begin

text \<open>
  Theorems on \<open>forward\<close>: the request that reaches the client, the answer that reaches the
  visitor, and what cannot disturb it.
\<close>

section \<open>Headers\<close>

text \<open>All pairs of a name and one of its values, in order.\<close>

definition header_pairs :: "header_multimap \<Rightarrow> (string \<times> bytes) list" where
  "header_pairs h = concat (map (\<lambda>(n, vs). map (Pair n) vs) h)"

lemma with_previous_none:
  "with_previous (Some n) (map (Pair None) vs @ xs) =
     bind_outcome (with_previous (Some n) xs) (\<lambda>r. Return (map (Pair n) vs @ r))"
  by (induction vs) (cases "with_previous (Some n) xs"; simp)+

lemma with_previous_iter: "with_previous p (header_into_iter h) = Return (header_pairs h)"
  by (induction h arbitrary: p rule: header_into_iter.induct)
    (simp_all add: header_pairs_def with_previous_none)

lemma map_of_collect_fold:
  "map_of (fold (\<lambda>(k, v). AList.update k v) kvs m) = map_of m ++ map_of (rev kvs)"
  by (induction kvs arbitrary: m) (auto simp: update_conv' fun_eq_iff map_add_def split: option.splits)

lemma map_of_collect_map: "map_of (collect_map kvs) = map_of (rev kvs)"
  by (simp add: collect_map_def map_of_collect_fold)

lemma distinct_collect_map: "distinct (map fst (collect_map kvs))"
proof -
  have "distinct (map fst (fold (\<lambda>(k, v). AList.update k v) kvs m))" if "distinct (map fst m)" for m
    using that by (induction kvs arbitrary: m) (auto simp: distinct_update)
  then show ?thesis
    by (simp add: collect_map_def)
qed

lemma header_pairs_absent: "n \<notin> fst ` set h \<Longrightarrow> map_of (rev (header_pairs h)) n = None"
  by (force simp: map_of_eq_None_iff header_pairs_def)

lemma header_pairs_single:
  assumes "distinct (map fst h)" "(n, vs) \<in> set h" "vs \<noteq> []"
  shows "map_of (rev (header_pairs h)) n = Some (last vs)"
  using assms
proof (induction h)
  case (Cons e h)
  obtain m ws where e: "e = (m, ws)" by fastforce
  have inner: "map_of (rev (map (Pair n) vs)) n = Some (last vs)"
    using \<open>vs \<noteq> []\<close> by (cases vs rule: rev_cases) auto
  have other: "map_of (rev (map (Pair m) ws)) n = None" if "m \<noteq> n" for m ws
    using that by (induction ws) auto
  show ?case
  proof (cases "m = n")
    case True
    have "n \<notin> fst ` set h"
      using Cons.prems True e by auto
    then have "map_of (rev (header_pairs h)) n = None" "vs = ws"
      using Cons.prems True e by (auto simp: header_pairs_absent image_iff)
    then show ?thesis
      using True e inner by (simp add: header_pairs_def map_add_def)
  next
    case False
    then have "(n, vs) \<in> set h" "distinct (map fst h)"
      using Cons.prems e by auto
    then show ?thesis
      using Cons.IH Cons.prems e False other [OF False] by (simp add: header_pairs_def map_add_def)
  qed
qed simp

section \<open>The request\<close>

text \<open>What \<open>enqueue_request\<close> sends.\<close>

definition http_request_of :: "string \<Rightarrow> string \<Rightarrow> incoming \<Rightarrow> app_state \<Rightarrow> http_request" where
  "http_request_of uuid hostname r s = \<lparr>hq_uuid = uuid, hq_hostname = hostname,
     hq_client_address = Some (to_address (from_socket_addr (in_addr r))),
     hq_scheme = http_scheme_code (if as_via_tls s then Scheme_Http else Scheme_Https),
     hq_method = in_method r, hq_uri = in_uri r, hq_headers = collect_map (header_pairs (in_headers r)),
     hq_body = Some (in_body r)\<rparr>"

lemma enqueue_known:
  assumes "route s hostname = Some k"
  shows "enqueue_request uuid hostname r s =
     (let (rx, s1) = on_client k (register_http_request uuid) s
      in case send_to k (S_HttpRequest (http_request_of uuid hostname r s)) s1 of
           (Inl e, s2) \<Rightarrow> Return (Err e, snd (on_client k (\<lambda>c. ((), c\<lparr>c_http_channels :=
               (c_http_channels c)(rx := oneshot_drop_receiver (c_http_channels c rx))\<rparr>)) s2))
         | (Inr _, s2) \<Rightarrow> Return (Ok (k, rx), s2))"
  using assms by (simp add: enqueue_request_def with_previous_iter http_request_of_def Let_def)

lemma enqueue_sends:
  assumes "route s hostname = Some k" "c_ws_open (the_client s k)"
  shows "enqueue_request uuid hostname r s =
    Return (Ok (k, c_next_channel (the_client s k)),
      snd (send_to k (S_HttpRequest (http_request_of uuid hostname r s))
             (snd (on_client k (register_http_request uuid) s))))"
proof -
  let ?s1 = "snd (on_client k (register_http_request uuid) s)"
  have ws: "c_ws_open (the_client ?s1 k)"
    using assms(2) by (simp add: register_http_request_def Let_def)
  show ?thesis
    using send_to_sent [OF ws, of "S_HttpRequest (http_request_of uuid hostname r s)"]
    by (simp add: enqueue_known [OF assms(1)] case_prod_unfold Let_def register_http_request_def split: sum.splits)
qed

text \<open>
  C18. A request is enqueued without panicking whatever its headers; it goes to the owner of the
  host name and to nobody else, with the visitor's method, target and body, and under each
  header name the last of its values. Nobody is asked when nobody owns the name. The scheme that
  the client is told is the opposite of the one the visitor used: \<open>Http\<close> for a request that
  came over TLS, \<open>Https\<close> for any other.
\<close>

theorem enqueue_request_correct:
  assumes ok: "\<And>k. route s hostname = Some k \<Longrightarrow> c_ws_open (the_client s k)"
    and headers: "distinct (map fst (in_headers r))"
  shows "\<exists>res s'. enqueue_request uuid hostname r s = Return (res, s')
    \<and> (route s hostname = None \<longrightarrow> res = Err ClientNotFound \<and> s' = s)
    \<and> (\<forall>k. route s hostname = Some k \<longrightarrow>
        res = Ok (k, c_next_channel (the_client s k))
        \<and> (\<exists>q. sent_to s' k = sent_to s k @ [S_HttpRequest q]
             \<and> hq_uuid q = uuid \<and> hq_hostname q = hostname \<and> hq_method q = in_method r \<and> hq_uri q = in_uri r
             \<and> hq_body q = Some (in_body r)
             \<and> hq_scheme q = http_scheme_code (if as_via_tls s then Scheme_Http else Scheme_Https)
             \<and> (\<forall>n vs. (n, vs) \<in> set (in_headers r) \<and> vs \<noteq> [] \<longrightarrow> map_of (hq_headers q) n = Some (last vs)))
        \<and> (\<forall>j. j \<noteq> k \<longrightarrow> the_client s' j = the_client s j))"
proof (cases "route s hostname")
  case None
  then show ?thesis by (simp add: enqueue_request_def)
next
  case (Some k)
  let ?q = "http_request_of uuid hostname r s"
  let ?s1 = "snd (on_client k (register_http_request uuid) s)"
  have ws: "c_ws_open (the_client ?s1 k)" "sent_to ?s1 k = sent_to s k"
    using ok [OF Some] by (simp_all add: register_http_request_def Let_def)
  note e = enqueue_sends [OF Some ok [OF Some], of uuid r]
  have sent: "sent_to (snd (send_to k (S_HttpRequest ?q) ?s1)) k = sent_to s k @ [S_HttpRequest ?q]"
    using send_to_sent [OF ws(1), of "S_HttpRequest ?q"] ws(2) by simp
  have heads: "map_of (hq_headers ?q) n = Some (last vs)" if "(n, vs) \<in> set (in_headers r)" "vs \<noteq> []" for n vs
    using header_pairs_single [OF headers that] by (simp add: http_request_of_def map_of_collect_map)
  have others: "the_client (snd (send_to k (S_HttpRequest ?q) ?s1)) j = the_client s j" if "j \<noteq> k" for j
    using that by (simp add: send_to_def)
  have fields: "hq_uuid ?q = uuid \<and> hq_hostname ?q = hostname \<and> hq_method ?q = in_method r
      \<and> hq_uri ?q = in_uri r \<and> hq_body ?q = Some (in_body r)
      \<and> hq_scheme ?q = http_scheme_code (if as_via_tls s then Scheme_Http else Scheme_Https)"
    by (simp add: http_request_of_def)
  show ?thesis
    unfolding e using Some sent heads others fields by fastforce
qed

definition sample_incoming :: incoming where
  "sample_incoming = \<lparr>in_addr = sample_peer, in_method = ''GET'', in_uri = ''/'',
     in_headers = [(''host'', [[111, 110, 101]]), (''cookie'', [[1], [2]])], in_body = []\<rparr>"

theorem enqueue_request_correct_witness:
  "\<exists>q s'. enqueue_request ''u1'' ''one.np.io'' sample_incoming sample_state
        = Return (Ok (0, c_next_channel (the_client sample_state 0)), s')
     \<and> sent_to s' 0 = sent_to sample_state 0 @ [S_HttpRequest q]
     \<and> map_of (hq_headers q) ''cookie'' = Some [2]"
proof -
  have ws: "c_ws_open (the_client sample_state k)" if "route sample_state ''one.np.io'' = Some k" for k
    using that by (simp add: sample_state_ok)
  have d: "distinct (map fst (in_headers sample_incoming))"
    by (simp add: sample_incoming_def)
  have c: "(''cookie'', [[1], [2]]) \<in> set (in_headers sample_incoming)"
    by (simp add: sample_incoming_def)
  show ?thesis
    using enqueue_request_correct [OF ws d, where uuid = "''u1''"] sample_state_ok(6) c by fastforce
qed

section \<open>The answer\<close>

text \<open>
  The headers that a visitor must get, given the value of each name: once each the names that are
  not \<open>transfer-encoding\<close> and, with their value, valid for the \<open>http\<close> crate; nothing else.
\<close>

definition proper_headers ::
  "(string \<Rightarrow> string option) \<Rightarrow> (bytes \<Rightarrow> bytes option) \<Rightarrow> (string \<rightharpoonup> bytes) \<Rightarrow> (string \<times> bytes) list \<Rightarrow> bool" where
  "proper_headers hn hv given hs \<longleftrightarrow> (\<exists>ns. distinct ns
     \<and> set ns = {n. n \<noteq> ''transfer-encoding'' \<and> hn n \<noteq> None \<and> (\<exists>v. given n = Some v \<and> hv v \<noteq> None)}
     \<and> hs = map (\<lambda>n. (the (hn n), the (hv (the (given n))))) ns)"

lemma response_headers_filter:
  "response_headers hn hv h = map (\<lambda>(n, v). (the (hn n), the (hv v)))
     (filter (\<lambda>(n, v). \<not> should_skip_header n \<and> hn n \<noteq> None \<and> hv v \<noteq> None) h)"
proof (induction h)
  case (Cons e h)
  obtain n v where e: "e = (n, v)" by fastforce
  show ?case
    using Cons.IH unfolding e
    by (cases "hn n"; cases "hv v"; cases "should_skip_header n") (simp_all add: response_headers_def map_filter_simps)
qed (simp add: response_headers_def map_filter_simps)

lemma response_headers_proper:
  assumes d: "distinct (map fst h)"
  shows "proper_headers hn hv (map_of h) (response_headers hn hv h)"
proof -
  let ?good = "\<lambda>(n, v). \<not> should_skip_header n \<and> hn n \<noteq> None \<and> hv v \<noteq> None"
  let ?ns = "map fst (filter ?good h)"
  have "response_headers hn hv h = map (\<lambda>n. (the (hn n), the (hv (the (map_of h n))))) ?ns"
    unfolding response_headers_filter map_map
    by (rule map_cong) (use map_of_is_SomeI [OF d] in auto)
  moreover have "distinct ?ns" using d by (rule distinct_map_filter)
  moreover have "set ?ns = {n. \<not> should_skip_header n \<and> hn n \<noteq> None \<and> (\<exists>v. map_of h n = Some v \<and> hv v \<noteq> None)}"
    by (auto simp: map_of_eq_Some_iff [OF d] image_iff) force
  ultimately show ?thesis
    unfolding proper_headers_def should_skip_header_def [symmetric] by blast
qed

text \<open>The receiver that waits for the answer to request \<open>(k, rx)\<close>.\<close>

definition answer_of :: "nat \<times> nat \<Rightarrow> app_state \<Rightarrow> (unit + http_response) poll" where
  "answer_of h s = oneshot_recv (c_http_channels (the_client s (fst h)) (snd h))"

lemma enqueue_ok_state:
  assumes "enqueue_request uuid hostname r s = Return (Ok (k, rx), s1)"
  shows "route s hostname = Some k" "rx = c_next_channel (the_client s k)"
    "\<exists>sent. the_client s1 k = (snd (register_http_request uuid (the_client s k)))\<lparr>c_ws_sent := sent\<rparr>"
proof -
  show k: "route s hostname = Some k"
    using assms by (cases "route s hostname")
      (auto simp: enqueue_request_def with_previous_iter Let_def case_prod_unfold split: sum.splits)
  let ?s1 = "snd (on_client k (register_http_request uuid) s)"
  let ?q = "S_HttpRequest (http_request_of uuid hostname r s)"
  have e: "rx = fst (register_http_request uuid (the_client s k))" "s1 = snd (send_to k ?q ?s1)"
    "fst (send_to k ?q ?s1) = Ok ()"
    using assms by (simp_all add: enqueue_known [OF k] case_prod_unfold Let_def split: sum.splits)
  show "rx = c_next_channel (the_client s k)"
    by (simp add: e(1) register_http_request_def Let_def)
  show "\<exists>sent. the_client s1 k = (snd (register_http_request uuid (the_client s k)))\<lparr>c_ws_sent := sent\<rparr>"
    using e(3) by (auto simp: e(2) send_to_def client_send_def split: if_splits)
qed

lemma send_response_delivers:
  assumes "c_http_requests c (hr_uuid resp) = Some rx" "c_http_channels c rx = Waiting"
  shows "fst (send_http_response resp c) = Ok ()"
    "c_http_channels (snd (send_http_response resp c)) rx = Delivered resp"
  using assms by (simp_all add: send_http_response_def)

text \<open>
  The answer to a forwarded request: until the client answers, the visitor waits; when the
  client that owns the name answers under the identifier of the request, the visitor gets
  exactly that answer; a message of any other client, one that uses the same identifier
  included, leaves the visitor waiting.
\<close>

theorem answer_delivered:
  assumes ok: "client_ok (the_client s k)"
    and enq: "enqueue_request uuid hostname r s = Return (Ok (k, rx), s1)"
    and u: "hr_uuid resp = uuid" and reg: "registry_ok (as_registry s1)"
  shows "answer_of (k, rx) s1 = Pending
    \<and> fst (http_response_handler k resp s1) = Ok ()
    \<and> answer_of (k, rx) (snd (http_response_handler k resp s1)) = Ready (Ok resp)
    \<and> (\<forall>j lc name bind payload. j \<noteq> k \<and> j \<in> set (rg_clients (as_registry s1)) \<longrightarrow>
         answer_of (k, rx) (snd (msg lc name bind j payload s1)) = Pending)"
proof -
  note e = enqueue_ok_state [OF enq]
  obtain sent where c: "the_client s1 k = (snd (register_http_request uuid (the_client s k)))\<lparr>c_ws_sent := sent\<rparr>"
    using e(3) by blast
  have "c_http_requests (the_client s k) uuid \<noteq> Some rx"
    using ok e(2) by (auto simp: client_ok_def table_ok_def)
  then have t: "c_http_requests (the_client s1 k) uuid = Some rx" "c_http_channels (the_client s1 k) rx = Waiting"
    by (simp_all add: c register_http_request_def Let_def e(2) split: option.splits)
  have wait: "answer_of (k, rx) s1 = Pending"
    by (simp add: answer_of_def t)
  have "answer_of (k, rx) (snd (msg lc name bind j payload s1)) = Pending"
    if "j \<noteq> k" "j \<in> set (rg_clients (as_registry s1))" for j lc name bind payload
    using that local_msg [OF that(2), of lc name bind payload] wait by (simp add: local_to_def answer_of_def)
  then show ?thesis
    using wait t send_response_delivers [of "the_client s1 k" resp rx] u
    by (auto simp: http_response_handler_def answer_of_def)
qed

lemma sample_client_ok: "client_ok (the_client sample_state 0)"
  by (simp add: sample_state_def app_state_new_def claim_http_hostname_def claim_insert_def claim_add_def
      update_client_def add_http_hostname_def register_def registry_default_def client_new_def client_ok_def
      table_ok_def)

theorem answer_delivered_witness:
  "\<exists>rx s1. enqueue_request ''u1'' ''one.np.io'' sample_incoming sample_state = Return (Ok (0, rx), s1)
     \<and> answer_of (0, rx) (snd (http_response_handler 0 \<lparr>hr_uuid = ''u1'', hr_payload = None\<rparr> s1))
         = Ready (Ok \<lparr>hr_uuid = ''u1'', hr_payload = None\<rparr>)"
proof -
  let ?s1 = "snd (on_client 0 (register_http_request ''u1'') sample_state)"
  obtain rx s1 where e: "enqueue_request ''u1'' ''one.np.io'' sample_incoming sample_state = Return (Ok (0, rx), s1)"
    and s1: "s1 = snd (send_to 0 (S_HttpRequest (http_request_of ''u1'' ''one.np.io'' sample_incoming sample_state)) ?s1)"
    by (simp add: enqueue_sends [OF sample_state_ok(6,4)])
  have "registry_ok (as_registry s1)"
    using sample_state_ok(1) by (simp add: s1 on_client_registry)
  then show ?thesis
    using answer_delivered [OF sample_client_ok e, of "\<lparr>hr_uuid = ''u1'', hr_payload = None\<rparr>"] e by auto
qed

text \<open>
  What the visitor gets. Data of the client with a status code from 100 to 999 (after
  reduction to sixteen bits) is passed on with its body and with the headers that are valid,
  except \<open>transfer-encoding\<close>; every failure becomes an error page with its own status: 404 for
  no client, 504 for a timeout, 502 for an error of the client, 500 otherwise. A status code
  outside of that range panics.
\<close>

theorem forward_reply_cases:
  "(\<forall>d. 100 \<le> unat (hd_status_code d) mod 65536 \<and> unat (hd_status_code d) mod 65536 < 1000 \<longrightarrow>
      forward_reply hn hv host (forward_request (Ok rx) (Received (Ok \<lparr>hr_uuid = u, hr_payload = Some (PayloadData d)\<rparr>)))
        = Return (Forwarded (ucast (hd_status_code d)) (response_headers hn hv (hd_headers d)) (hd_body d)))
   \<and> (\<forall>d. \<not> (100 \<le> unat (hd_status_code d) mod 65536 \<and> unat (hd_status_code d) mod 65536 < 1000) \<longrightarrow>
      forward_reply hn hv host (forward_request (Ok rx) (Received (Ok \<lparr>hr_uuid = u, hr_payload = Some (PayloadData d)\<rparr>)))
        = Panic)
   \<and> (\<forall>rx w. \<not> (\<exists>u d. is_ok rx \<and> w = Received (Ok \<lparr>hr_uuid = u, hr_payload = Some (PayloadData d)\<rparr>)) \<longrightarrow>
      (\<exists>status text. forward_reply hn hv host (forward_request rx w) = Return (ErrorPage status host text)
         \<and> status = (case rx of Inl _ \<Rightarrow> 404 | Inr _ \<Rightarrow> (case w of TimedOut \<Rightarrow> 504
              | Received (Inl _) \<Rightarrow> 500 | Received (Inr r) \<Rightarrow> if hr_payload r = None then 500 else 502))))"
proof (intro conjI allI impI)
  have st: "status_from_u16 (ucast (n :: u32)) =
      (if 100 \<le> unat n mod 65536 \<and> unat n mod 65536 < 1000 then Some (ucast n) else None)" for n
    by (simp add: status_from_u16_def word_le_nat_alt word_less_nat_alt unsigned_ucast_eq take_bit_eq_mod)
  fix d
  show "forward_reply hn hv host (forward_request (Ok rx) (Received (Ok \<lparr>hr_uuid = u, hr_payload = Some (PayloadData d)\<rparr>)))
      = Return (Forwarded (ucast (hd_status_code d)) (response_headers hn hv (hd_headers d)) (hd_body d))"
    if "100 \<le> unat (hd_status_code d) mod 65536 \<and> unat (hd_status_code d) mod 65536 < 1000"
    using that by (simp add: forward_reply_def forward_request_def st)
  show "forward_reply hn hv host (forward_request (Ok rx) (Received (Ok \<lparr>hr_uuid = u, hr_payload = Some (PayloadData d)\<rparr>)))
      = Panic"
    if "\<not> (100 \<le> unat (hd_status_code d) mod 65536 \<and> unat (hd_status_code d) mod 65536 < 1000)"
    using that by (simp add: forward_reply_def forward_request_def st)
next
  fix rx :: "server_error + 'd" and w
  assume n: "\<not> (\<exists>u d. is_ok rx \<and> w = Received (Ok \<lparr>hr_uuid = u, hr_payload = Some (PayloadData d)\<rparr>))"
  show "\<exists>status text. forward_reply hn hv host (forward_request rx w) = Return (ErrorPage status host text)
       \<and> status = (case rx of Inl _ \<Rightarrow> 404 | Inr _ \<Rightarrow> (case w of TimedOut \<Rightarrow> 504
              | Received (Inl _) \<Rightarrow> 500 | Received (Inr r) \<Rightarrow> if hr_payload r = None then 500 else 502))"
  proof (cases rx)
    case (Inr x)
    then have "\<And>r. w = Received (Ok r) \<Longrightarrow> hr_payload r = None \<or> (\<exists>e. hr_payload r = Some (PayloadError e))"
      using n by (metis (full_types) http_response.surjective http_response_payload.exhaust is_ok.simps(1)
          not_None_eq old.unit.exhaust)
    then show ?thesis
      using Inr by (cases w) (auto simp: forward_reply_def forward_request_def split: sum.splits)
  qed (simp add: forward_reply_def forward_request_def)
qed

theorem forward_reply_cases_witness:
  "forward_reply Some Some ''one.np.io'' (forward_request (Ok ()) (Received (Ok \<lparr>hr_uuid = ''u1'',
      hr_payload = Some (PayloadData \<lparr>hd_headers = [(''transfer-encoding'', [1]), (''a'', [2])], hd_status_code = 200, hd_body = [7]\<rparr>)\<rparr>)))
     = Return (Forwarded 200 [(''a'', [2])] [7])
   \<and> (\<exists>text. forward_reply Some Some ''one.np.io'' (forward_request (Ok ()) TimedOut) = Return (ErrorPage 504 ''one.np.io'' text))"
proof
  let ?d = "\<lparr>hd_headers = [(''transfer-encoding'', [1]), (''a'', [2])], hd_status_code = 200, hd_body = [7 :: u8]\<rparr>"
  show "forward_reply Some Some ''one.np.io'' (forward_request (Ok ()) (Received (Ok \<lparr>hr_uuid = ''u1'',
      hr_payload = Some (PayloadData ?d)\<rparr>))) = Return (Forwarded 200 [(''a'', [2])] [7])"
    using forward_reply_cases [of Some Some "''one.np.io''" "()" "''u1''", THEN conjunct1, THEN spec, of ?d]
    by (simp add: response_headers_def should_skip_header_def List.map_filter_def)
  show "\<exists>text. forward_reply Some Some ''one.np.io'' (forward_request (Ok ()) TimedOut) = Return (ErrorPage 504 ''one.np.io'' text)"
    using forward_reply_cases [of Some Some "''one.np.io''" "()" "''u1''", THEN conjunct2, THEN conjunct2, THEN spec,
      THEN spec, of "Ok ()" TimedOut] by simp
qed

end
