(* ===== verification/Port_Props.thy ===== *)
theory Port_Props
  imports Session_Props
begin

text \<open>
  Theorems on forwarded ports: what a connection to a listener leads to, that bytes are copied
  in order, that the listeners of a departed client stop, and three ways in which this can go
  wrong: data that arrives before its connection is set up, a client that leaves in the middle
  of a negotiation, and the lock on the port writers.
\<close>

section \<open>Copying bytes\<close>

text \<open>
  Whatever happens on its socket, the bytes the server has written to a visitor's connection
  are a prefix of those the client sent for it, in order; while the task runs, what is missing
  is exactly what waits in the channel.
\<close>

theorem server_pump_bytes:
  assumes "pipe_run pump_step pm_running es (mpsc_channel 4, pump_new uuid, []) = Some (ch, p, accepted)"
  shows "\<exists>rest. data_of accepted = pm_written p @ rest \<and> (pm_running p \<longrightarrow> rest = data_of (mp_queue ch))"
  using server_pump.pipe_bytes [OF assms] by (simp add: pump_new_def)

theorem server_pump_bytes_witness:
  "\<exists>ch p accepted. pipe_run pump_step pm_running
       [Push (PM_Data [1, 2]), Push PM_Close, Pull True True, Pull True True, Push (PM_Data [3])]
       (mpsc_channel 4, pump_new ''u'', []) = Some (ch, p, accepted)
     \<and> data_of accepted = pm_written p \<and> pm_written p = [1, 2] \<and> \<not> pm_running p"
proof -
  let ?run = "pipe_run pump_step pm_running
       [Push (PM_Data [1, 2]), Push PM_Close, Pull True True, Pull True True, Push (PM_Data [3])]
       (mpsc_channel 4, pump_new ''u'', [])"
  obtain ch p accepted where run: "?run = Some (ch, p, accepted)"
    and p: "\<not> pm_running p" "pm_written p = [1, 2]" "data_of accepted = [1, 2]"
    by (simp add: mpsc_channel_def pump_new_def mpsc_send_def mpsc_recv_def pump_step_def pump_break_def)
  then show ?thesis
    using server_pump_bytes [OF run] by auto
qed

section \<open>Negotiation\<close>

lemma set_phase_simps [simp]:
  "as_registry (set_phase n ph s) = as_registry s"
  "length (as_listeners (set_phase n ph s)) = length (as_listeners s)"
  "n < length (as_listeners s) \<Longrightarrow> as_listeners (set_phase n ph s) ! n = (as_listeners s ! n)\<lparr>ls_phase := ph\<rparr>"
  by (simp_all add: set_phase_def)

text \<open>A connection that is accepted while the client is there and takes messages.\<close>

lemma accept_state:
  assumes n: "n < length (as_listeners s)" "ls_phase (as_listeners s ! n) = Accepting"
    and k: "k = ls_client (as_listeners s ! n)" "client_alive k s" "c_ws_open (the_client s k)"
  obtains s' m where "listener_step (Accepted uuid from_addr) n s = Some s'"
    "as_listeners s' = (as_listeners s)[n := (as_listeners s ! n)\<lparr>ls_phase := Connecting uuid (c_next_channel (the_client s k))\<rparr>]"
    "the_client s' k = (snd (register_connect_request uuid (the_client s k)))\<lparr>c_ws_sent := sent_to s k @ [S_PortConnect m]\<rparr>"
    "pct_uuid m = uuid" "pct_remote_address m = Some (to_address (ls_remote_addr (as_listeners s ! n)))"
    "rg_clients (as_registry s') = rg_clients (as_registry s)" "pct_protocol m = 0"
proof -
  let ?f = "\<lparr>pct_uuid = uuid, pct_protocol = 0,
          pct_remote_address = Some (to_address (ls_remote_addr (as_listeners s ! n))),
          pct_from_address = Some (to_address (from_socket_addr from_addr))\<rparr>"
  let ?m = "S_PortConnect ?f"
  let ?s1 = "snd (on_client k (register_connect_request uuid) s)"
  have sent: "c_ws_sent (snd (register_connect_request uuid c)) = c_ws_sent c"
    "c_ws_open (snd (register_connect_request uuid c)) = c_ws_open c"
    "fst (register_connect_request uuid c) = c_next_channel c" for c
    by (simp_all add: register_connect_request_def Let_def)
  have open1: "c_ws_open (the_client ?s1 k)"
    using k(3) by (simp add: sent)
  have st: "listener_step (Accepted uuid from_addr) n s =
      Some (set_phase n (Connecting uuid (c_next_channel (the_client s k))) (snd (send_to k ?m ?s1)))"
    using n k(1,2) send_to_sent [OF open1, of ?m]
    by (simp add: listener_step_def serve_socket_connect_def Let_def case_prod_unfold sent split: sum.splits)
  show ?thesis
    by (rule that [OF st, of ?f])
      (use open1 in \<open>simp_all add: set_phase_def send_to_def client_send_def sent\<close>)
qed

text \<open>
  C21. A visitor's connection is announced to the client of the port, once, with the public
  address of the port; the listener then waits for that client's answer and accepts again after
  it. The task that copies bytes is started, with an empty channel for four messages, exactly
  when the answer has no error and the identifier is not in use.
\<close>

theorem negotiation_correct:
  assumes n: "n < length (as_listeners s)" "ls_phase (as_listeners s ! n) = Accepting"
    and k: "k = ls_client (as_listeners s ! n)" "client_alive k s" "c_ws_open (the_client s k)"
    and ok: "client_ok (the_client s k)" and u: "pc_uuid answer = uuid"
  shows "\<exists>s1. listener_step (Accepted uuid from_addr) n s = Some s1
    \<and> (\<exists>m. sent_to s1 k = sent_to s k @ [S_PortConnect m] \<and> pct_uuid m = uuid
         \<and> pct_remote_address m = Some (to_address (ls_remote_addr (as_listeners s ! n))))
    \<and> listener_step Answered n s1 = None
    \<and> fst (port_connected_handler k answer s1) = Ok ()
    \<and> (\<exists>started s3. serve_socket_answer n (snd (port_connected_handler k answer s1)) = Some (started, s3)
         \<and> ls_phase (as_listeners s3 ! n) = Accepting
         \<and> (started \<longleftrightarrow> pc_error answer = None \<and> c_port_writers (the_client s k) uuid = None)
         \<and> c_port_writers (the_client s3 k) =
             (if started then (c_port_writers (the_client s k))(uuid \<mapsto> mpsc_channel 4)
              else c_port_writers (the_client s k)))"
proof -
  let ?rx = "c_next_channel (the_client s k)"
  let ?c = "snd (register_connect_request uuid (the_client s k))"
  obtain s1 m where s1: "listener_step (Accepted uuid from_addr) n s = Some s1"
    "as_listeners s1 = (as_listeners s)[n := (as_listeners s ! n)\<lparr>ls_phase := Connecting uuid ?rx\<rparr>]"
    "the_client s1 k = ?c\<lparr>c_ws_sent := sent_to s k @ [S_PortConnect m]\<rparr>"
    and m: "pct_uuid m = uuid" "pct_remote_address m = Some (to_address (ls_remote_addr (as_listeners s ! n)))"
    by (rule accept_state [OF n k, where uuid = uuid and from_addr = from_addr])
  have "c_connect_requests (the_client s k) uuid \<noteq> Some ?rx"
    using ok by (auto simp: client_ok_def table_ok_def)
  then have t: "c_connect_requests (the_client s1 k) uuid = Some ?rx" "c_connect_channels (the_client s1 k) ?rx = Waiting"
      "c_port_writers (the_client s1 k) = c_port_writers (the_client s k)"
    by (simp_all add: s1(3) register_connect_request_def Let_def split: option.splits)
  have l1: "n < length (as_listeners s1)" "ls_client (as_listeners s1 ! n) = k" "ls_phase (as_listeners s1 ! n) = Connecting uuid ?rx"
    using n k(1) by (simp_all add: s1(2))
  have wait: "listener_step Answered n s1 = None"
    using l1 t by (simp add: listener_step_def serve_socket_answer_def Let_def)
  let ?s2 = "snd (port_connected_handler k answer s1)"
  have s2: "fst (port_connected_handler k answer s1) = Ok ()"
      "c_connect_channels (the_client ?s2 k) ?rx = Delivered answer"
      "c_port_writers (the_client ?s2 k) = c_port_writers (the_client s k)"
      "as_listeners ?s2 = as_listeners s1"
    using t u by (simp_all add: port_connected_handler_def send_connected_response_def)
  have "\<exists>started s3. serve_socket_answer n ?s2 = Some (started, s3)
         \<and> ls_phase (as_listeners s3 ! n) = Accepting
         \<and> (started \<longleftrightarrow> pc_error answer = None \<and> c_port_writers (the_client s k) uuid = None)
         \<and> c_port_writers (the_client s3 k) =
             (if started then (c_port_writers (the_client s k))(uuid \<mapsto> mpsc_channel 4)
              else c_port_writers (the_client s k))"
    using l1 s2 by (cases "c_port_writers (the_client s k) uuid")
      (auto simp: serve_socket_answer_def Let_def port_writer_register_def on_client_def update_client_def)
  then show ?thesis
    using s1(1,3) m wait s2(1) by (intro exI [of _ s1]) auto
qed

definition sample_ports :: app_state where
  "sample_ports = snd (port_server (\<lambda>_. Some 4000) 0 ''tcp.np.io'' (from_port 0) sample_state)"

lemma sample_ports_ok:
  "as_listeners sample_ports = [\<lparr>ls_client = 0, ls_port = 4000, ls_remote_addr = from_host_and_port ''tcp.np.io'' 4000,
     ls_closer = Waiting, ls_phase = Accepting\<rparr>]"
  "client_alive 0 sample_ports" "c_ws_open (the_client sample_ports 0)" "client_ok (the_client sample_ports 0)"
  "c_port_writers (the_client sample_ports 0) = Map.empty"
proof -
  have c: "the_client sample_state 0 = (client_new sample_peer)\<lparr>c_hostnames := {''one.np.io''}\<rparr>"
    by (simp add: sample_state_def app_state_new_def claim_http_hostname_def claim_insert_def claim_add_def
      update_client_def add_http_hostname_def register_def registry_default_def client_new_def)
  show "client_ok (the_client sample_ports 0)"
    by (simp add: sample_ports_def port_server_def c client_ok_def table_ok_def client_new_def)
  show "c_port_writers (the_client sample_ports 0) = Map.empty"
    by (simp add: sample_ports_def port_server_def c client_new_def)
  have none: "as_listeners sample_state = []"
    by (simp add: sample_state_def app_state_new_def)
  show "as_listeners sample_ports = [\<lparr>ls_client = 0, ls_port = 4000, ls_remote_addr = from_host_and_port ''tcp.np.io'' 4000,
     ls_closer = Waiting, ls_phase = Accepting\<rparr>]"
    by (simp add: sample_ports_def port_server_def none)
  show "client_alive 0 sample_ports" "c_ws_open (the_client sample_ports 0)"
    using sample_state_ok(2,4) by (simp_all add: client_alive_def sample_ports_def port_server_def)
qed

theorem negotiation_correct_witness:
  "\<exists>s1 s3. listener_step (Accepted ''u3'' sample_peer) 0 sample_ports = Some s1
     \<and> serve_socket_answer 0 (snd (port_connected_handler 0 \<lparr>pc_uuid = ''u3'', pc_error = None\<rparr> s1)) = Some (True, s3)
     \<and> c_port_writers (the_client s3 0) = [''u3'' \<mapsto> mpsc_channel 4]"
  using negotiation_correct [of 0 sample_ports 0 "\<lparr>pc_uuid = ''u3'', pc_error = None\<rparr>" "''u3''" sample_peer]
  by (auto simp: sample_ports_ok)

section \<open>Data before the connection is set up\<close>

text \<open>
  Data or a close for a connection without a port writer ends the session of the client, and
  with it all of its forwardings. This is what happens when the client's first bytes overtake
  the setting up of the connection, or when its last ones arrive after the visitor has left.
\<close>

theorem stray_port_data_ends_session:
  assumes "c_port_writers (the_client s k) uuid = None"
    and "client_recv decode (ar_frame a) = Ok (Some m)"
    and "m = C_PortReceive \<lparr>pr_uuid = uuid, pr_data = bs\<rparr> \<or> m = C_PortClose \<lparr>pcl_uuid = uuid\<rparr>"
  shows "fst (session_turn lc decode k a s) = Break"
  using assms
  by (auto simp: session_turn_def msg_def port_receive_handler_def port_close_handler_def client_port_receive_def
      client_port_close_def port_message_def case_prod_unfold)

theorem stray_port_data_ends_session_witness:
  "fst (session_turn (map ascii_lower) (\<lambda>bs. Some (Some (C_PortClose \<lparr>pcl_uuid = ''u9''\<rparr>))) 0
     \<lparr>ar_frame = Some (WsBinary []), ar_name = [], ar_bind = \<lambda>_. None\<rparr> sample_ports) = Break"
  by (rule stray_port_data_ends_session [where uuid = "''u9''" and bs = "[]" and m = "C_PortClose \<lparr>pcl_uuid = ''u9''\<rparr>"])
    (simp_all add: sample_ports_ok client_recv_def recv_data_def)

section \<open>Departed clients\<close>

lemma port_drop_length [simp]: "length (port_drop p ls) = length ls"
  by (simp add: port_drop_def split: option.splits)

lemma port_drop_nth:
  "n < length ls \<Longrightarrow> port_drop p ls ! n =
     (if p_closer p = Some n then (ls ! n)\<lparr>ls_closer := snd (oneshot_send () (ls_closer (ls ! n)))\<rparr> else ls ! n)"
  by (auto simp: port_drop_def nth_list_update split: option.splits)

lemma oneshot_send_stays: "ch = Delivered () \<Longrightarrow> snd (oneshot_send () ch) = Delivered ()"
  by simp

lemma port_drops:
  assumes "n < length ls" "ls_closer (ls ! n) = Waiting \<or> ls_closer (ls ! n) = Delivered ()"
  shows "fold port_drop ps ls ! n =
    (if \<exists>p \<in> set ps. p_closer p = Some n then (ls ! n)\<lparr>ls_closer := Delivered ()\<rparr> else ls ! n)"
  using assms
proof (induction ps arbitrary: ls)
  case (Cons p ps)
  then show ?case
    using Cons.IH [of "port_drop p ls"] by (auto simp: port_drop_nth)
qed simp

text \<open>
  C22. When a client has left the registry and no negotiation holds it, letting go of its object
  tells exactly the listeners of its own ports to stop; such a listener then has a turn in which
  it stops and the gauge of ports goes down.
\<close>

theorem departed_client_closes_ports:
  assumes n: "n < length (as_listeners s)" "ls_closer (as_listeners s ! n) = Waiting"
      "ls_phase (as_listeners s ! n) = Accepting"
    and gone: "\<not> client_alive k s"
  shows "\<exists>s1. release_client k s = Some s1
    \<and> (if \<exists>p \<in> set (c_open_ports (the_client s k)). p_closer p = Some n
       then (\<exists>s2. listener_step CloserFired n s1 = Some s2 \<and> ls_phase (as_listeners s2 ! n) = Stopped
               \<and> port_gauge s2 = port_gauge s1 - 1)
       else as_listeners s1 ! n = as_listeners s ! n \<and> listener_step CloserFired n s1 = None)"
proof -
  let ?s1 = "(snd (on_client k (\<lambda>c. ((), client_drop c)) s))\<lparr>as_listeners :=
    fold port_drop (c_open_ports (the_client s k)) (as_listeners s)\<rparr>"
  have rel: "release_client k s = Some ?s1"
    using gone by (simp add: release_client_def)
  have len: "length (fold port_drop ps ls) = length ls" for ps ls
    by (induction ps arbitrary: ls) simp_all
  note drops = port_drops [OF n(1), of "c_open_ports (the_client s k)"]
  show ?thesis
  proof (cases "\<exists>p \<in> set (c_open_ports (the_client s k)). p_closer p = Some n")
    case True
    then show ?thesis
      using rel n drops by (simp add: listener_step_def len set_phase_def ports_dec_def)
  next
    case False
    then show ?thesis
      using rel n drops by (simp add: listener_step_def len)
  qed
qed

theorem departed_client_closes_ports_witness:
  "\<exists>s1 s2. release_client 7 (sample_ports\<lparr>as_registry := (as_registry sample_ports)\<lparr>rg_heap := (\<lambda>_.
        (client_new sample_peer)\<lparr>c_open_ports := [\<lparr>p_closer = Some 0, p_port = 4000\<rparr>]\<rparr>)\<rparr>\<rparr>) = Some s1
     \<and> listener_step CloserFired 0 s1 = Some s2 \<and> ls_phase (as_listeners s2 ! 0) = Stopped"
proof -
  let ?s = "sample_ports\<lparr>as_registry := (as_registry sample_ports)\<lparr>rg_heap := (\<lambda>_.
        (client_new sample_peer)\<lparr>c_open_ports := [\<lparr>p_closer = Some 0, p_port = 4000\<rparr>]\<rparr>)\<rparr>\<rparr>"
  have "rg_clients (as_registry sample_ports) = [0, 1]"
    using sample_state_ok(2) by (simp add: sample_ports_def port_server_def)
  then have "\<not> client_alive 7 ?s"
    by (simp add: client_alive_def sample_ports_ok)
  then show ?thesis
    using departed_client_closes_ports [of 0 ?s 7] by (auto simp: sample_ports_ok)
qed

section \<open>A negotiation that nobody will answer\<close>

text \<open>
  What the rest of the server may do once the session of \<open>k\<close> is over: the messages of connected
  clients, sessions that start (with an object of their own) and end, every listener (the identifier of a
  new connection is one that is not in use), and client objects that are released.
\<close>

inductive others_step :: "(string \<Rightarrow> string) \<Rightarrow> nat \<Rightarrow> app_state \<Rightarrow> app_state \<Rightarrow> bool" for lc k where
  message: "j \<in> set (rg_clients (as_registry s)) \<Longrightarrow> others_step lc k s (snd (msg lc name bind j payload s))"
| starts: "\<lbrakk>session_start b who ws_ok s = (r, s'); rg_next (as_registry s) \<noteq> k\<rbrakk> \<Longrightarrow> others_step lc k s s'"
| ends: "j \<in> set (rg_clients (as_registry s)) \<Longrightarrow> others_step lc k s (session_end j s)"
| listens: "\<lbrakk>listener_step ev m s = Some s'; \<And>u who. ev = Accepted u who \<Longrightarrow>
      c_connect_requests (the_client s (ls_client (as_listeners s ! m))) u = None\<rbrakk> \<Longrightarrow> others_step lc k s s'"
| releases: "release_client j s = Some s' \<Longrightarrow> others_step lc k s s'"

definition abandoned :: "nat \<Rightarrow> nat \<Rightarrow> string \<Rightarrow> nat \<Rightarrow> app_state \<Rightarrow> bool" where
  "abandoned k n uuid rx s \<longleftrightarrow> n < length (as_listeners s) \<and> ls_client (as_listeners s ! n) = k
     \<and> ls_phase (as_listeners s ! n) = Connecting uuid rx
     \<and> c_connect_requests (the_client s k) uuid = Some rx \<and> c_connect_channels (the_client s k) rx = Waiting
     \<and> client_ok (the_client s k) \<and> k \<notin> set (rg_clients (as_registry s))"

lemma abandoned_stuck:
  assumes "abandoned k n uuid rx s"
  shows "release_client k s = None" "listener_step ev n s = None"
proof -
  have "client_alive k s"
    using assms by (fastforce simp: abandoned_def client_alive_def list_ex_iff)
  then show "release_client k s = None"
    by (simp add: release_client_def)
  show "listener_step ev n s = None"
    using assms by (cases ev) (simp_all add: abandoned_def listener_step_def serve_socket_answer_def Let_def)
qed

text \<open>A step that leaves the object of \<open>k\<close> and the listener \<open>n\<close> as they are.\<close>

lemma abandoned_frame:
  assumes "abandoned k n uuid rx s" "the_client s' k = the_client s k" "n < length (as_listeners s')"
    and "ls_client (as_listeners s' ! n) = k" "ls_phase (as_listeners s' ! n) = Connecting uuid rx"
    and "k \<notin> set (rg_clients (as_registry s'))"
  shows "abandoned k n uuid rx s'"
  using assms by (simp add: abandoned_def)

lemma port_server_appends: "\<exists>ls. as_listeners (snd (port_server bind j h a s)) = as_listeners s @ ls"
  by (simp add: port_server_def split: option.splits)

lemma msg_appends: "\<exists>ls. as_listeners (snd (msg lc name bind j payload s)) = as_listeners s @ ls"
proof (cases "\<exists>req. payload = Some (C_PortOpen req)")
  case True
  then show ?thesis
    using port_server_appends by (auto simp: msg_def port_open_handler_def Let_def case_prod_unfold split: sum.splits option.splits)
next
  case False
  then show ?thesis
    by (auto simp: msg_def http_open_handler_def http_close_handler_def Let_def case_prod_unfold
        http_response_handler_def port_connected_handler_def port_receive_handler_def port_close_handler_def
        split: option.splits client_message.splits sum.splits)
qed

lemma abandoned_message:
  assumes ok: "abandoned k n uuid rx s" and j: "j \<in> set (rg_clients (as_registry s))"
  shows "abandoned k n uuid rx (snd (msg lc name bind j payload s))"
proof -
  have "local_to j s (snd (msg lc name bind j payload s))" by (rule local_msg [OF j])
  moreover have "j \<noteq> k" using ok j by (auto simp: abandoned_def)
  moreover obtain ls where "as_listeners (snd (msg lc name bind j payload s)) = as_listeners s @ ls"
    using msg_appends by blast
  ultimately show ?thesis
    using ok by (intro abandoned_frame [OF ok]) (auto simp: abandoned_def local_to_def nth_append)
qed

lemma abandoned_session_start:
  assumes ok: "abandoned k n uuid rx s" and st: "session_start b who ws_ok s = (r, s')" "rg_next (as_registry s) \<noteq> k"
  shows "abandoned k n uuid rx s'"
proof -
  have "the_client s' k = the_client s k" "as_listeners s' = as_listeners s"
    "rg_clients (as_registry s') = rg_clients (as_registry s) @ [rg_next (as_registry s)]"
    using ok st by (auto simp: abandoned_def session_start_def Let_def case_prod_unfold send_welcome_def register_def
        send_to_def on_client_def update_client_def split: sum.splits if_splits)
  then show ?thesis using ok st(2) by (intro abandoned_frame [OF ok]) (auto simp: abandoned_def)
qed

lemma swap_remove_subset: "set (swap_remove i xs) \<subseteq> set xs"
proof (cases xs)
  case (Cons x ys)
  have "set (swap_remove i xs) \<subseteq> set (xs[i := last xs])"
    unfolding swap_remove_def by (auto dest: in_set_butlastD)
  also have "\<dots> \<subseteq> insert (last xs) (set xs)" by (rule set_update_subset_insert)
  also have "\<dots> = set xs" using Cons by (simp add: insert_absorb)
  finally show ?thesis .
qed (simp add: swap_remove_def)

lemma abandoned_session_end:
  assumes ok: "abandoned k n uuid rx s"
  shows "abandoned k n uuid rx (session_end j s)"
proof -
  have "rg_heap (snd (deregister j r)) = rg_heap r" "set (rg_clients (snd (deregister j r))) \<subseteq> set (rg_clients r)" for r
    using subsetD [OF swap_remove_subset]
    by (auto simp: deregister_def deregister_list_def deregister_names_def split: option.splits)
  then show ?thesis using ok by (intro abandoned_frame [OF ok]) (auto simp: abandoned_def session_end_def)
qed

text \<open>A listener that accepts a visitor for the same client registers a request of its own.\<close>

lemma connect_keeps_waiting:
  assumes "client_ok c" "c_connect_requests c uuid = Some rx" "c_connect_channels c rx = Waiting" "c_connect_requests c u = None"
  shows "c_connect_requests (snd (register_connect_request u c)) uuid = Some rx"
    "c_connect_channels (snd (register_connect_request u c)) rx = Waiting"
    "client_ok (snd (register_connect_request u c))" "fst (register_connect_request u c) \<noteq> rx"
proof -
  have "rx < c_next_channel c" "u \<noteq> uuid"
    using assms by (auto simp: client_ok_def table_ok_def)
  then show "c_connect_requests (snd (register_connect_request u c)) uuid = Some rx"
    "c_connect_channels (snd (register_connect_request u c)) rx = Waiting" "fst (register_connect_request u c) \<noteq> rx"
    using assms by (auto simp: register_connect_request_def Let_def)
  show "client_ok (snd (register_connect_request u c))"
    using register_connect_request_ok [OF assms(1)] by (metis prod.collapse)
qed

lemma drop_keeps_ok:
  "client_ok c \<Longrightarrow> client_ok (c\<lparr>c_connect_channels := (c_connect_channels c)(x := oneshot_drop_receiver (c_connect_channels c x))\<rparr>)"
  by (auto simp: client_ok_def table_ok_def oneshot_drop_receiver_def)

lemma abandoned_accept:
  assumes ok: "abandoned k n uuid rx s" and m: "m < length (as_listeners s)" "m \<noteq> n"
    and fresh: "c_connect_requests (the_client s (ls_client (as_listeners s ! m))) u = None"
  shows "abandoned k n uuid rx (serve_socket_connect m u who s)"
proof -
  have frame: "as_listeners (serve_socket_connect m u who s) ! n = as_listeners s ! n"
    "length (as_listeners (serve_socket_connect m u who s)) = length (as_listeners s)"
    "rg_clients (as_registry (serve_socket_connect m u who s)) = rg_clients (as_registry s)"
    using m(2) by (auto simp: serve_socket_connect_def set_phase_def Let_def case_prod_unfold on_client_def update_client_def
        send_to_def split: sum.splits)
  show ?thesis
  proof (cases "ls_client (as_listeners s ! m) = k")
    case True
    note keeps = connect_keeps_waiting [of "the_client s k" uuid rx u]
    have c: "client_ok (the_client s k)" "c_connect_requests (the_client s k) uuid = Some rx"
      "c_connect_channels (the_client s k) rx = Waiting" "c_connect_requests (the_client s k) u = None"
      using ok fresh True by (simp_all add: abandoned_def)
    let ?c = "the_client (serve_socket_connect m u who s) k"
    have "client_ok ?c \<and> c_connect_requests ?c uuid = Some rx \<and> c_connect_channels ?c rx = Waiting"
      using keeps [OF c] c True
      by (auto simp: serve_socket_connect_def Let_def case_prod_unfold send_to_def client_send_def client_ok_def
          table_ok_def oneshot_drop_receiver_def split: sum.splits)
    then show ?thesis using ok frame by (simp add: abandoned_def)
  next
    case False
    then have "the_client (serve_socket_connect m u who s) k = the_client s k"
      by (auto simp: serve_socket_connect_def Let_def case_prod_unfold send_to_def split: sum.splits)
    then show ?thesis using ok frame by (simp add: abandoned_def)
  qed
qed

lemma abandoned_answer:
  assumes ok: "abandoned k n uuid rx s" and m: "m \<noteq> n" and a: "serve_socket_answer m s = Some (b, s')"
  shows "abandoned k n uuid rx s'"
proof -
  have "as_listeners s' ! n = as_listeners s ! n" "length (as_listeners s') = length (as_listeners s)"
    "rg_clients (as_registry s') = rg_clients (as_registry s)"
    using m a by (auto simp: serve_socket_answer_def set_phase_def Let_def port_writer_register_def on_client_def update_client_def
        split: listener_phase.splits poll.splits sum.splits if_splits option.splits prod.splits)
  moreover have "client_ok (the_client s' k) \<and> c_connect_requests (the_client s' k) = c_connect_requests (the_client s k)
      \<and> c_connect_channels (the_client s' k) = c_connect_channels (the_client s k)"
    using a ok by (auto simp: abandoned_def serve_socket_answer_def set_phase_def Let_def port_writer_register_def on_client_def
        update_client_def client_ok_def split: listener_phase.splits poll.splits sum.splits if_splits option.splits prod.splits)
  ultimately show ?thesis using ok by (simp add: abandoned_def)
qed

lemma abandoned_listener:
  assumes ok: "abandoned k n uuid rx s" and step: "listener_step ev m s = Some s'"
    and fresh: "\<And>u who. ev = Accepted u who \<Longrightarrow> c_connect_requests (the_client s (ls_client (as_listeners s ! m))) u = None"
  shows "abandoned k n uuid rx s'"
proof -
  have m: "m < length (as_listeners s)" "m \<noteq> n"
    using step abandoned_stuck(2) [OF ok, of ev] by (auto simp: listener_step_def split: if_splits)
  have closed: "abandoned k n uuid rx (set_phase m ph (ports_dec s))" for ph
    using ok m(2) by (simp add: abandoned_def set_phase_def)
  show ?thesis
    using step ok m fresh abandoned_accept [OF ok m] abandoned_answer [OF ok m(2)] closed
    by (auto simp: listener_step_def split: if_splits listener_event.splits listener_phase.splits poll.splits)
qed

lemma fold_port_drop_nth:
  "n < length ls \<Longrightarrow> length (fold port_drop ps ls) = length ls \<and> ls_client (fold port_drop ps ls ! n) = ls_client (ls ! n)
     \<and> ls_phase (fold port_drop ps ls ! n) = ls_phase (ls ! n)"
  by (induction ps arbitrary: ls) (simp_all add: port_drop_nth)

lemma abandoned_release:
  assumes ok: "abandoned k n uuid rx s" and r: "release_client j s = Some s'"
  shows "abandoned k n uuid rx s'"
proof -
  have "j \<noteq> k" using r abandoned_stuck(1) [OF ok] by auto
  then show ?thesis
    using ok r fold_port_drop_nth [of n "as_listeners s" "c_open_ports (the_client s j)"]
    by (intro abandoned_frame [OF ok]) (auto simp: abandoned_def release_client_def split: if_splits)
qed

lemma abandoned_steps: "\<lbrakk>(others_step lc k)\<^sup>*\<^sup>* s s'; abandoned k n uuid rx s\<rbrakk> \<Longrightarrow> abandoned k n uuid rx s'"
proof (induction rule: rtranclp_induct)
  case (step u v)
  from step(2) have "abandoned k n uuid rx u \<Longrightarrow> abandoned k n uuid rx v"
    by (cases rule: others_step.cases)
      (auto intro: abandoned_message abandoned_session_start abandoned_session_end abandoned_listener abandoned_release)
  then show ?case using step by blast
qed

text \<open>
  C25. A client that leaves while a listener of its port waits for its answer is never let go:
  the listener holds the client object, which holds the sender the listener waits for. No turn
  of that listener is possible and the object cannot be released, neither now nor after any
  messages of connected clients, sessions that start and end, turns of any listeners (also of others of the same
  client) and releases of other client objects, in any order and number. So the port stays bound.
\<close>

theorem abandoned_negotiation_stuck:
  assumes n: "n < length (as_listeners s)" "ls_client (as_listeners s ! n) = k"
      "ls_phase (as_listeners s ! n) = Connecting uuid rx"
    and wait: "c_connect_requests (the_client s k) uuid = Some rx" "c_connect_channels (the_client s k) rx = Waiting"
    and ok: "client_ok (the_client s k)"
    and gone: "k \<notin> set (rg_clients (as_registry s))"
    and run: "(others_step lc k)\<^sup>*\<^sup>* s s'"
  shows "release_client k s' = None \<and> (\<forall>ev. listener_step ev n s' = None)
    \<and> n < length (as_listeners s') \<and> ls_client (as_listeners s' ! n) = k"
proof -
  have "abandoned k n uuid rx s" using assms by (simp add: abandoned_def)
  from abandoned_steps [OF run this] have s': "abandoned k n uuid rx s'" .
  then show ?thesis using abandoned_stuck [OF s'] by (simp add: abandoned_def)
qed

theorem abandoned_negotiation_stuck_witness:
  "\<exists>s. listener_step (Accepted ''u3'' sample_peer) 0 sample_ports = Some s
     \<and> release_client 0 (session_end 1 (session_end 0 s)) = None
     \<and> listener_step CloserFired 0 (session_end 1 (session_end 0 s)) = None"
proof -
  let ?n = "c_next_channel (the_client sample_ports 0)"
  obtain s m where s: "listener_step (Accepted ''u3'' sample_peer) 0 sample_ports = Some s"
    "as_listeners s = (as_listeners sample_ports)[0 := (as_listeners sample_ports ! 0)\<lparr>ls_phase := Connecting ''u3'' ?n\<rparr>]"
    and c: "the_client s 0 = (snd (register_connect_request ''u3'' (the_client sample_ports 0)))\<lparr>c_ws_sent :=
      sent_to sample_ports 0 @ [S_PortConnect m]\<rparr>"
    and cl: "rg_clients (as_registry s) = rg_clients (as_registry sample_ports)"
    by (rule accept_state [of 0 sample_ports 0, where uuid = "''u3''" and from_addr = sample_peer])
      (simp_all add: sample_ports_ok)
  have "c_connect_requests (the_client sample_ports 0) ''u3'' \<noteq> Some ?n"
    using sample_ports_ok(4) by (auto simp: client_ok_def table_ok_def)
  then have wait: "c_connect_channels (the_client s 0) ?n = Waiting" "c_connect_requests (the_client s 0) ''u3'' = Some ?n"
    by (simp_all add: c register_connect_request_def Let_def split: option.splits)
  have "client_ok (snd (register_connect_request ''u3'' (the_client sample_ports 0)))"
    using register_connect_request_ok [OF sample_ports_ok(4)] by (metis prod.collapse)
  then have ok: "client_ok (the_client s 0)" by (simp add: c client_ok_def)
  let ?e = "session_end 0 s"
  have e: "as_listeners ?e = as_listeners s" "the_client ?e 0 = the_client s 0"
    by (simp_all add: session_end_def deregister_def deregister_names_def deregister_list_def split: option.splits)
  have "rg_clients (as_registry s) = [0, 1]"
    using sample_state_ok(2) cl by (simp add: sample_ports_def port_server_def)
  then have cl: "rg_clients (as_registry ?e) = [1]"
    by (simp add: session_end_def deregister_def deregister_names_def deregister_list_def swap_remove_def)
  then have "(others_step (map ascii_lower) 0)\<^sup>*\<^sup>* ?e (session_end 1 ?e)"
    by (intro r_into_rtranclp ends) simp
  then show ?thesis
    using abandoned_negotiation_stuck [of 0 ?e 0 "''u3''" ?n "map ascii_lower" "session_end 1 ?e"] s e wait ok cl
    by (auto simp: sample_ports_ok)
qed

end
