(* ===== verification/Port_Tunnel.thy ===== *)
theory Port_Tunnel
  imports Port_Props Np_Dispatch
begin

text \<open>
  The two ends of a forwarded connection put together. On each side a message handler puts what
  the peer sends into the channel of the connection, and a task copies from the channel to a
  socket and from the socket to the peer (\<open>Byte_Pipe\<close>). Handler and task share the object that
  holds the channel: \<open>np\<close>'s \<open>Client\<close> on one side, the server's on the other. The locale
  \<open>port_side\<close> states what both handlers promise about one connection, whatever else they handle
  in between; the theorems follow a byte from the visitor to the local service and back.
\<close>

section \<open>One side\<close>

text \<open>
  \<open>Handle m\<close>: the handler finishes with message \<open>m\<close>, where it does not have to wait for room in
  a channel. \<open>Take\<close> and \<open>Loop\<close>: turns of the task. \<open>Release\<close>: the ended task removes its
  channel from the table. A channel whose task has ended has no receiver. The last component
  of the state collects the messages that were handled.
\<close>

fun is_message :: "pump_event \<Rightarrow> bool" where
  "is_message (FromChannel (Some m)) = True"
| "is_message (FromChannel None) = False"
| "is_message (FromSocket r) = False"
| "is_message Elapsed = False"

lemma is_message_iff: "is_message ev \<longleftrightarrow> (\<exists>m. ev = FromChannel (Some m))"
  by (cases ev rule: is_message.cases) auto

datatype 'm side_event = Handle 'm | Take bool bool | Loop bool bool pump_event | Release

fun side_step :: "('m \<Rightarrow> 'c \<Rightarrow> 'c option) \<Rightarrow> ('c \<Rightarrow> port_message mpsc option)
    \<Rightarrow> (port_message mpsc \<Rightarrow> 'c \<Rightarrow> 'c) \<Rightarrow> ('p \<Rightarrow> 'c \<Rightarrow> 'c)
    \<Rightarrow> (bool \<Rightarrow> bool \<Rightarrow> pump_event \<Rightarrow> 'p \<Rightarrow> 'p) \<Rightarrow> ('p \<Rightarrow> bool)
    \<Rightarrow> 'm side_event \<Rightarrow> 'c \<times> 'p \<times> 'm list \<Rightarrow> ('c \<times> 'p \<times> 'm list) option" where
  "side_step handle chan put release step running (Handle m) (c, p, hs) =
     (case handle m c of None \<Rightarrow> None | Some c' \<Rightarrow> Some (c', p, hs @ [m]))"
| "side_step handle chan put release step running (Take alive good) (c, p, hs) =
     (if \<not> running p then None
      else (case chan c of None \<Rightarrow> None | Some ch \<Rightarrow>
           (case mpsc_recv ch of None \<Rightarrow> None | Some (m, ch') \<Rightarrow>
             (let p' = step alive good (FromChannel (Some m)) p
              in Some (put (ch'\<lparr>mp_receiver := running p'\<rparr>) c, p', hs)))))"
| "side_step handle chan put release step running (Loop alive good ev) (c, p, hs) =
     (if \<not> running p \<or> is_message ev then None
      else (case chan c of None \<Rightarrow> None | Some ch \<Rightarrow>
             (let p' = step alive good ev p in Some (put (ch\<lparr>mp_receiver := running p'\<rparr>) c, p', hs))))"
| "side_step handle chan put release step running Release (c, p, hs) =
     (if running p then None else Some (release p c, p, hs))"

fun side_run :: "('m \<Rightarrow> 'c \<Rightarrow> 'c option) \<Rightarrow> ('c \<Rightarrow> port_message mpsc option)
    \<Rightarrow> (port_message mpsc \<Rightarrow> 'c \<Rightarrow> 'c) \<Rightarrow> ('p \<Rightarrow> 'c \<Rightarrow> 'c)
    \<Rightarrow> (bool \<Rightarrow> bool \<Rightarrow> pump_event \<Rightarrow> 'p \<Rightarrow> 'p) \<Rightarrow> ('p \<Rightarrow> bool)
    \<Rightarrow> 'm side_event list \<Rightarrow> 'c \<times> 'p \<times> 'm list \<Rightarrow> ('c \<times> 'p \<times> 'm list) option" where
  "side_run handle chan put release step running [] s = Some s"
| "side_run handle chan put release step running (e # es) s =
     (case side_step handle chan put release step running e s of
        None \<Rightarrow> None | Some s' \<Rightarrow> side_run handle chan put release step running es s')"

text \<open>
  The contract: \<open>about m\<close> is what message \<open>m\<close> puts into the channel of the connection, if
  anything. A message about the connection waits for room and is appended; any other message
  leaves the channel alone.
\<close>

locale port_side = byte_pump step running written forwarded
  for step :: "bool \<Rightarrow> bool \<Rightarrow> pump_event \<Rightarrow> 'p \<Rightarrow> 'p"
    and running :: "'p \<Rightarrow> bool"
    and written :: "'p \<Rightarrow> bytes"
    and forwarded :: "'p \<Rightarrow> bytes" +
  fixes about :: "'m \<Rightarrow> port_message option"
    and handle :: "'m \<Rightarrow> 'c \<Rightarrow> 'c option"
    and chan :: "'c \<Rightarrow> port_message mpsc option"
    and put :: "port_message mpsc \<Rightarrow> 'c \<Rightarrow> 'c"
    and release :: "'p \<Rightarrow> 'c \<Rightarrow> 'c"
  assumes handle_other: "\<lbrakk>about m = None; chan c = Some ch; handle m c = Some c'\<rbrakk> \<Longrightarrow> chan c' = Some ch"
    and handle_port: "\<lbrakk>about m = Some pm; chan c = Some ch; mp_receiver ch; handle m c = Some c'\<rbrakk> \<Longrightarrow>
      \<exists>ch'. mpsc_send pm ch = Ready (Ok ch') \<and> chan c' = Some ch'"
    and put_chan: "chan (put ch c) = Some ch"
begin

definition side_ok :: "'c \<times> 'p \<times> 'm list \<Rightarrow> bool" where
  "side_ok s = (case s of (c, p, hs) \<Rightarrow>
     (if running p
      then \<exists>ch. chan c = Some ch \<and> mp_receiver ch \<and> pipe_ok [] (ch, p, List.map_filter about hs)
      else \<exists>ch. pipe_ok [] (ch, p, List.map_filter about hs)))"

lemma map_filter_snoc:
  "List.map_filter f (xs @ [x]) = List.map_filter f xs @ (case f x of None \<Rightarrow> [] | Some y \<Rightarrow> [y])"
  by (simp add: List.map_filter_def split: option.splits)

lemma pipe_ended_ok:
  assumes "\<not> running p" "pipe_ok w (ch, p, ms)"
  shows "pipe_ok w (ch', p, ms @ ns)"
proof -
  obtain rest more where "w @ data_of ms = written p @ rest" "data_of (ms @ ns) = data_of ms @ more"
    using assms data_of_prefix [of ms ns] by (auto simp: pipe_ok_def)
  then have "w @ data_of (ms @ ns) = written p @ rest @ more"
    by (metis append_assoc)
  then show ?thesis using assms(1) by (auto simp: pipe_ok_def)
qed

lemma handle_ok:
  assumes "side_ok (c, p, hs)" "handle m c = Some c'"
  shows "side_ok (c', p, hs @ [m])"
proof (cases "running p")
  case True
  then obtain ch where ch: "chan c = Some ch" "mp_receiver ch" "pipe_ok [] (ch, p, List.map_filter about hs)"
    using assms(1) by (auto simp: side_ok_def)
  show ?thesis
  proof (cases "about m")
    case None
    then show ?thesis
      using True ch handle_other [OF None ch(1) assms(2)] by (simp add: side_ok_def map_filter_snoc)
  next
    case (Some pm)
    obtain ch' where ch': "mpsc_send pm ch = Ready (Ok ch')" "chan c' = Some ch'"
      using handle_port [OF Some ch(1,2) assms(2)] by blast
    have "ch\<lparr>mp_receiver := True\<rparr> = ch" using ch(2) by simp
    then have "pipe_step step running (Push pm) (ch, p, List.map_filter about hs)
        = Some (ch', p, List.map_filter about hs @ [pm])"
      using True ch'(1) by simp
    from pipe_step_ok [OF this ch(3)] show ?thesis
      using True ch(2) ch' Some by (auto simp: side_ok_def map_filter_snoc mpsc_send_def split: if_splits)
  qed
next
  case False
  then show ?thesis
    using assms(1) pipe_ended_ok [OF False] by (auto simp: side_ok_def map_filter_snoc)
qed

lemma pipe_receiver: "pipe_ok w (ch\<lparr>mp_receiver := b\<rparr>, p, ms) = pipe_ok w (ch, p, ms)"
  by (simp add: pipe_ok_def)

lemma turn_ok:
  assumes "side_ok (c, p, hs)" "side_step handle chan put release step running (Loop alive good ev) (c, p, hs) = Some s"
  shows "side_ok s"
proof -
  have run: "running p" and ev: "\<And>m. ev \<noteq> FromChannel (Some m)"
    using assms(2) by (auto simp: is_message_iff split: if_splits)
  then obtain ch where ch: "chan c = Some ch" "pipe_ok [] (ch, p, List.map_filter about hs)"
    using assms(1) by (auto simp: side_ok_def)
  let ?p = "step alive good ev p"
  have s: "s = (put (ch\<lparr>mp_receiver := running ?p\<rparr>) c, ?p, hs)"
    using assms(2) run ch(1) by (auto simp: Let_def split: if_splits)
  have "pipe_step step running (Turn alive good ev) (ch, p, List.map_filter about hs)
      = Some (ch, ?p, List.map_filter about hs)"
    using run ev by (auto split: pump_event.splits option.splits)
  from pipe_step_ok [OF this ch(2)] show ?thesis
    using ch(1) by (auto simp: s side_ok_def put_chan pipe_receiver)
qed

lemma take_ok:
  assumes "side_ok (c, p, hs)" "side_step handle chan put release step running (Take alive good) (c, p, hs) = Some s"
  shows "side_ok s"
proof -
  have run: "running p" using assms(2) by (auto split: if_splits)
  then obtain ch where ch: "chan c = Some ch" "pipe_ok [] (ch, p, List.map_filter about hs)"
    using assms(1) by (auto simp: side_ok_def)
  obtain m ch' where r: "mpsc_recv ch = Some (m, ch')"
    using assms(2) run ch(1) by (auto split: option.splits)
  let ?p = "step alive good (FromChannel (Some m)) p"
  have s: "s = (put (ch'\<lparr>mp_receiver := running ?p\<rparr>) c, ?p, hs)"
    using assms(2) run ch(1) r by (auto simp: Let_def)
  have "pipe_step step running (Pull alive good) (ch, p, List.map_filter about hs)
      = Some (ch', ?p, List.map_filter about hs)"
    using run r by simp
  from pipe_step_ok [OF this ch(2)] show ?thesis
    using ch(1) by (auto simp: s side_ok_def put_chan pipe_receiver)
qed

lemma side_step_ok:
  assumes "side_step handle chan put release step running e s = Some s'" "side_ok s"
  shows "side_ok s'"
proof -
  obtain c p hs where s: "s = (c, p, hs)" by (cases s)
  show ?thesis
  proof (cases e)
    case (Handle m)
    then show ?thesis using assms handle_ok [of c p hs m] by (auto simp: s split: option.splits)
  next
    case (Take a g)
    then show ?thesis using assms take_ok unfolding s by blast
  next
    case (Loop a g ev)
    then show ?thesis using assms turn_ok unfolding s by blast
  next
    case Release
    then show ?thesis using assms by (auto simp: s side_ok_def split: if_splits)
  qed
qed

lemma side_run_ok:
  "\<lbrakk>side_run handle chan put release step running es s = Some s'; side_ok s\<rbrakk> \<Longrightarrow> side_ok s'"
  by (induction es arbitrary: s) (auto split: option.splits dest: side_step_ok)

lemma side_bytes:
  assumes "side_run handle chan put release step running es (c, p, []) = Some (c', p', hs)"
    and "chan c = Some (mpsc_channel n)" "running p" "written p = []"
  shows "\<exists>rest. data_of (List.map_filter about hs) = written p' @ rest
     \<and> (running p' \<longrightarrow> (\<exists>ch. chan c' = Some ch \<and> rest = data_of (mp_queue ch)))"
proof -
  have "side_ok (c, p, [])"
    using assms(2-4) by (simp add: side_ok_def pipe_ok_def mpsc_channel_def List.map_filter_def)
  then have "side_ok (c', p', hs)"
    using side_run_ok [OF assms(1)] by blast
  then show ?thesis
    by (auto simp: side_ok_def pipe_ok_def data_of_append split: if_splits)
qed

end

section \<open>The side of \<open>np\<close>\<close>

text \<open>The connection \<open>u\<close> in the table of \<open>np\<close>'s client. \<open>None\<close>: the handler waits, or panics.\<close>

definition np_about :: "string \<Rightarrow> server_message \<Rightarrow> port_message option" where
  "np_about u m = (case m of
     S_PortReceive r \<Rightarrow> if pr_uuid r = u then Some (PM_Data (pr_data r)) else None
   | S_PortClose c \<Rightarrow> if pcl_uuid c = u then Some PM_Close else None
   | _ \<Rightarrow> None)"

definition np_handle ::
  "hyper_env \<Rightarrow> (string \<Rightarrow> string option) \<Rightarrow> server_message \<Rightarrow> np_client \<Rightarrow> np_client option" where
  "np_handle env tcp_connect m c =
     (case np_message env tcp_connect m c of Return (Ready r, c') \<Rightarrow> Some c' | _ \<Rightarrow> None)"

definition np_chan :: "string \<Rightarrow> np_client \<Rightarrow> port_message mpsc option" where
  "np_chan u c = nc_port_writers c u"

definition np_put :: "string \<Rightarrow> port_message mpsc \<Rightarrow> np_client \<Rightarrow> np_client" where
  "np_put u ch c = c\<lparr>nc_port_writers := (nc_port_writers c)(u \<mapsto> ch)\<rparr>"

lemma np_send_writers [simp]: "nc_port_writers (snd (np_send m c)) = nc_port_writers c"
  by (simp add: np_send_def split: option.splits)

lemma np_tables_writers [simp]:
  "nc_port_writers (snd (http_register opened c)) = nc_port_writers c"
  "nc_port_writers (snd (http_deregister closing c)) = nc_port_writers c"
  "nc_port_writers (snd (origin_insert origin a c)) = nc_port_writers c"
  "nc_port_writers (snd (dispatch_request env req c)) = nc_port_writers c"
  by (simp_all add: http_register_def http_insert_def http_deregister_def origin_insert_def dispatch_request_def
      split: option.splits)

lemma port_register_writers:
  "port_register opened c = Return x \<Longrightarrow> nc_port_writers (snd x) = nc_port_writers c"
  by (auto simp: port_register_def bind_outcome_Return split: option.splits)

lemma np_start_writer:
  "nc_port_writers c u = Some ch \<Longrightarrow> nc_port_writers (snd (np_start tc v a c)) u = Some ch"
  by (auto simp: np_start_def np_port_writer_register_def split: option.splits)

lemma dispatch_connect_writer:
  assumes "dispatch_connect tc cm c = Return x" "nc_port_writers c u = Some ch"
  shows "nc_port_writers (snd x) u = Some ch"
proof -
  obtain y where "port_connect cm (np_start tc) c = Return y"
    and x: "nc_port_writers (snd x) = nc_port_writers (snd y)"
    using assms(1) by (auto simp: dispatch_connect_def bind_outcome_Return case_prod_unfold)
  then show ?thesis
    using np_start_writer [OF assms(2)] assms(2)
    by (auto simp: port_connect_def bind_outcome_Return split: option.splits)
qed

lemma np_port_message_other: "v \<noteq> u \<Longrightarrow> nc_port_writers (snd (np_port_message v m c)) u = nc_port_writers c u"
  by (auto simp: np_port_message_def split: option.splits poll.splits sum.splits)

lemma log_error_simps [simp]: "snd (log_error x) = snd x" "snd (log_error_poll y) = snd y"
  by (cases x; simp) (cases y rule: log_error_poll.cases; simp)

lemma np_handle_other:
  assumes "np_about u m = None" "nc_port_writers c u = Some ch" "np_handle env tc m c = Some c'"
  shows "nc_port_writers c' u = Some ch"
proof -
  obtain x where x: "np_message env tc m c = Return x" "c' = snd x"
    using assms(3) by (auto simp: np_handle_def split: outcome.splits poll.splits)
  show ?thesis
    using assms(1,2) x(1) unfolding x(2)
    by (cases m) (auto simp: np_message_def np_about_def bind_outcome_Return np_port_receive_def np_port_close_def
      np_port_message_other case_prod_unfold Let_def dest: port_register_writers dispatch_connect_writer
      split: if_splits)
qed

lemma np_handle_port:
  assumes "np_about u m = Some pm" "nc_port_writers c u = Some ch" "mp_receiver ch" "np_handle env tc m c = Some c'"
  shows "\<exists>ch'. mpsc_send pm ch = Ready (Ok ch') \<and> nc_port_writers c' u = Some ch'"
proof -
  have "np_handle env tc m c =
      (case log_error_poll (np_port_message u pm c) of (Ready r, c') \<Rightarrow> Some c' | _ \<Rightarrow> None)"
    using assms(1) by (cases m)
      (auto simp: np_handle_def np_message_def np_about_def np_port_receive_def np_port_close_def split: if_splits)
  then show ?thesis
    using assms(2-4) by (auto simp: np_port_message_def mpsc_send_def split: if_splits)
qed

interpretation np_side: port_side np_pump_step np_running np_written "np_sent_bytes \<circ> np_sent"
  "np_about u" "np_handle env tc" "np_chan u" "np_put u" "np_pump_end True"
  for u env tc
proof unfold_locales
  fix m c ch c' pm
  show "\<lbrakk>np_about u m = None; np_chan u c = Some ch; np_handle env tc m c = Some c'\<rbrakk> \<Longrightarrow> np_chan u c' = Some ch"
    unfolding np_chan_def by (rule np_handle_other)
  show "\<lbrakk>np_about u m = Some pm; np_chan u c = Some ch; mp_receiver ch; np_handle env tc m c = Some c'\<rbrakk>
      \<Longrightarrow> \<exists>ch'. mpsc_send pm ch = Ready (Ok ch') \<and> np_chan u c' = Some ch'"
    unfolding np_chan_def by (rule np_handle_port)
  show "np_chan u (np_put u ch c) = Some ch" by (simp add: np_chan_def np_put_def)
qed

section \<open>The server's side\<close>

text \<open>
  The connection \<open>u\<close> of client \<open>k\<close>. A message comes with the session \<open>j\<close> it belongs to and with
  what \<open>msg\<close> takes from outside; sessions run while their client is registered.
\<close>

type_synonym session_message = "nat \<times> string \<times> (string \<Rightarrow> u16 option) \<times> client_payload"

definition srv_about :: "nat \<Rightarrow> string \<Rightarrow> session_message \<Rightarrow> port_message option" where
  "srv_about k u m = (case m of (j, name, bind, payload) \<Rightarrow>
     if j \<noteq> k then None
     else (case payload of
        Some (C_PortReceive r) \<Rightarrow> if pr_uuid r = u then Some (PM_Data (pr_data r)) else None
      | Some (C_PortClose c) \<Rightarrow> if pcl_uuid c = u then Some PM_Close else None
      | _ \<Rightarrow> None))"

definition srv_handle :: "(string \<Rightarrow> string) \<Rightarrow> session_message \<Rightarrow> app_state \<Rightarrow> app_state option" where
  "srv_handle lc m s = (case m of (j, name, bind, payload) \<Rightarrow>
     if j \<notin> set (rg_clients (as_registry s)) then None
     else (case msg lc name bind j payload s of (Ready r, s') \<Rightarrow> Some s' | _ \<Rightarrow> None))"

definition srv_chan :: "nat \<Rightarrow> string \<Rightarrow> app_state \<Rightarrow> port_message mpsc option" where
  "srv_chan k u s = c_port_writers (the_client s k) u"

definition srv_put :: "nat \<Rightarrow> string \<Rightarrow> port_message mpsc \<Rightarrow> app_state \<Rightarrow> app_state" where
  "srv_put k u ch s =
     snd (on_client k (\<lambda>c. ((), c\<lparr>c_port_writers := (c_port_writers c)(u \<mapsto> ch)\<rparr>)) s)"

definition srv_release :: "nat \<Rightarrow> pump \<Rightarrow> app_state \<Rightarrow> app_state" where
  "srv_release k p s = pump_end p k s"

lemma client_send_writers [simp]: "c_port_writers (snd (client_send m c)) = c_port_writers c"
  by (simp add: client_send_def)

lemma send_to_writers [simp]: "c_port_writers (the_client (snd (send_to k m s)) j) = c_port_writers (the_client s j)"
  by (simp add: send_to_def)

lemma handler_writers [simp]:
  "c_port_writers (the_client (snd (http_open_handler lc name k req s)) k) = c_port_writers (the_client s k)"
  "c_port_writers (the_client (snd (http_close_handler k closing s)) k) = c_port_writers (the_client s k)"
  "c_port_writers (the_client (snd (http_response_handler k resp s)) k) = c_port_writers (the_client s k)"
  "c_port_writers (the_client (snd (port_open_handler lc bind k po s)) k) = c_port_writers (the_client s k)"
  "c_port_writers (the_client (snd (port_connected_handler k pc s)) k) = c_port_writers (the_client s k)"
  by (auto simp: http_open_handler_def http_close_handler_def http_response_handler_def port_open_handler_def
      port_connected_handler_def claim_http_hostname_def claim_insert_def claim_add_def update_client_def
      add_http_hostname_def release_http_hostname_def release_remove_def release_free_def
      remove_http_hostname_def on_registry_def send_http_response_def send_connected_response_def
      port_server_def register_port_def Let_def split: sum.splits prod.splits option.splits bool.splits)

lemma port_message_writers_other:
  "v \<noteq> u \<Longrightarrow> c_port_writers (snd (port_message v m c)) u = c_port_writers c u"
  by (auto simp: port_message_def split: option.splits poll.splits sum.splits)

lemma client_port_as_message:
  "client_port_receive r = port_message (pr_uuid r) (PM_Data (pr_data r))"
  "client_port_close cl = port_message (pcl_uuid cl) PM_Close"
  by (auto simp: client_port_receive_def client_port_close_def)

lemma srv_handle_other:
  assumes "srv_about k u m = None" "srv_chan k u s = Some ch" "srv_handle lc m s = Some s'"
  shows "srv_chan k u s' = Some ch"
proof -
  obtain j name bind payload where m: "m = (j, name, bind, payload)" by (cases m)
  have j: "j \<in> set (rg_clients (as_registry s))" and s': "s' = snd (msg lc name bind j payload s)"
    using assms(3) by (auto simp: srv_handle_def m split: if_splits prod.splits poll.splits)
  show ?thesis
  proof (cases "j = k")
    case True
    have "c_port_writers (the_client (snd (msg lc name bind k payload s)) k) u = c_port_writers (the_client s k) u"
      using assms(1) by (auto simp: m True msg_def srv_about_def port_receive_handler_def port_close_handler_def
          client_port_receive_def client_port_close_def port_message_writers_other
          split: option.splits client_message.splits if_splits)
    then show ?thesis using assms(2) by (simp add: s' True srv_chan_def)
  next
    case False
    then show ?thesis
      using local_msg [OF j, of lc name bind payload] assms(2) by (simp add: s' srv_chan_def local_to_def)
  qed
qed

lemma srv_handle_port:
  assumes "srv_about k u m = Some pm" "srv_chan k u s = Some ch" "mp_receiver ch" "srv_handle lc m s = Some s'"
  shows "\<exists>ch'. mpsc_send pm ch = Ready (Ok ch') \<and> srv_chan k u s' = Some ch'"
proof -
  obtain name bind payload where m: "m = (k, name, bind, payload)"
    using assms(1) by (cases m) (auto simp: srv_about_def split: if_splits)
  have "msg lc name bind k payload s = on_client k (port_message u pm) s"
    using assms(1) by (auto simp: m srv_about_def msg_def port_receive_handler_def port_close_handler_def
        client_port_as_message split: option.splits client_message.splits if_splits)
  then obtain r where e: "on_client k (port_message u pm) s = (Ready r, s')"
    using assms(4) by (auto simp: srv_handle_def m split: if_splits prod.splits poll.splits)
  have "fst (port_message u pm (the_client s k)) = fst (on_client k (port_message u pm) s)"
    by simp
  also have "\<dots> = Ready r" by (simp only: e fst_conv)
  finally have r: "fst (port_message u pm (the_client s k)) = Ready r" .
  have "s' = snd (on_client k (port_message u pm) s)" by (simp only: e snd_conv)
  then show ?thesis
    using assms(2,3) r by (auto simp: srv_chan_def port_message_def mpsc_send_def split: if_splits)
qed

interpretation srv_side: port_side pump_step pm_running pm_written "sent_bytes \<circ> pm_sent"
  "srv_about k u" "srv_handle lc" "srv_chan k u" "srv_put k u" "srv_release k"
  for k u lc
proof unfold_locales
  fix m s ch s' pm
  show "\<lbrakk>srv_about k u m = None; srv_chan k u s = Some ch; srv_handle lc m s = Some s'\<rbrakk> \<Longrightarrow> srv_chan k u s' = Some ch"
    by (rule srv_handle_other)
  show "\<lbrakk>srv_about k u m = Some pm; srv_chan k u s = Some ch; mp_receiver ch; srv_handle lc m s = Some s'\<rbrakk>
      \<Longrightarrow> \<exists>ch'. mpsc_send pm ch = Ready (Ok ch') \<and> srv_chan k u s' = Some ch'"
    by (rule srv_handle_port)
  show "srv_chan k u (srv_put k u ch s) = Some ch" by (simp add: srv_chan_def srv_put_def)
qed

section \<open>From end to end\<close>

text \<open>What a task sends is about its own connection, and its close comes last.\<close>

definition pump_sends_ok :: "pump \<Rightarrow> bool" where
  "pump_sends_ok p \<longleftrightarrow>
     (let ms = List.map_filter (np_about (pm_uuid p)) (pm_sent p)
      in data_of ms = sent_bytes (pm_sent p) \<and> (pm_running p \<longrightarrow> no_close ms)
         \<and> list_all (\<lambda>m. np_about (pm_uuid p) m \<noteq> None) (pm_sent p))"

lemma pump_step_uuid [simp]: "pm_uuid (pump_step alive good ev p) = pm_uuid p"
  by (simp add: pump_step_def pump_break_def split: pump_event.splits option.splits port_message.splits read_result.splits)

lemma sent_bytes_snoc:
  "sent_bytes (ms @ [S_PortReceive r]) = sent_bytes ms @ pr_data r"
  "sent_bytes (ms @ [S_PortClose c]) = sent_bytes ms"
  by simp_all

lemma pump_step_sends: "pump_sends_ok p \<Longrightarrow> pump_sends_ok (pump_step alive good ev p)"
  unfolding pump_sends_ok_def pump_step_uuid
  by (auto simp: Let_def pump_step_def pump_break_def np_side.map_filter_snoc np_about_def data_of_append no_close_append
      split: pump_event.splits option.splits port_message.splits read_result.splits)

lemma loop_reads_sends:
  "\<lbrakk>loop_reads pump_step pm_running es p = (bs, p'); pump_sends_ok p\<rbrakk> \<Longrightarrow> pump_sends_ok p' \<and> pm_uuid p' = pm_uuid p"
  by (induction es arbitrary: p bs) (auto simp: case_prod_unfold Let_def prod_eq_iff pump_step_sends)

definition np_pump_sends_ok :: "nat \<Rightarrow> np_pump \<Rightarrow> bool" where
  "np_pump_sends_ok k p \<longleftrightarrow>
     (let about = (\<lambda>m. srv_about k (np_uuid p) (k, [], \<lambda>_. None, Some m)); ms = List.map_filter about (np_sent p)
      in data_of ms = np_sent_bytes (np_sent p) \<and> (np_running p \<longrightarrow> no_close ms)
         \<and> list_all (\<lambda>m. about m \<noteq> None) (np_sent p))"

lemma np_pump_step_uuid [simp]: "np_uuid (np_pump_step alive good ev p) = np_uuid p"
  by (simp add: np_pump_step_def np_pump_break_def Let_def
      split: pump_event.splits option.splits port_message.splits read_result.splits)

lemma np_pump_step_sends: "np_pump_sends_ok k p \<Longrightarrow> np_pump_sends_ok k (np_pump_step alive good ev p)"
  unfolding np_pump_sends_ok_def np_pump_step_uuid
  by (auto simp: Let_def np_pump_step_def np_pump_break_def np_side.map_filter_snoc srv_about_def data_of_append no_close_append
      split: pump_event.splits option.splits port_message.splits read_result.splits)

lemma np_loop_reads_sends:
  "\<lbrakk>loop_reads np_pump_step np_running es p = (bs, p'); np_pump_sends_ok k p\<rbrakk>
     \<Longrightarrow> np_pump_sends_ok k p' \<and> np_uuid p' = np_uuid p"
  by (induction es arbitrary: p bs) (auto simp: case_prod_unfold Let_def prod_eq_iff np_pump_step_sends)

text \<open>Messages that are not about the connection do not matter; a part of a stream is a prefix.\<close>

lemma map_filter_about: "List.map_filter f (filter (\<lambda>m. f m \<noteq> None) ms) = List.map_filter f ms"
  by (simp add: List.map_filter_def)

lemma map_filter_cong: "(\<And>x. x \<in> set xs \<Longrightarrow> f x = g x) \<Longrightarrow> List.map_filter f xs = List.map_filter g xs"
  by (induction xs) (simp_all add: List.map_filter_simps split: option.splits)

lemma map_filter_map: "List.map_filter f (map g ms) = List.map_filter (\<lambda>m. f (g m)) ms"
  by (simp add: List.map_filter_def filter_map comp_def)

lemma data_of_take: "\<exists>more. data_of (List.map_filter f ms) = data_of (List.map_filter f (take n ms)) @ more"
proof -
  have "List.map_filter f ms = List.map_filter f (take n ms) @ List.map_filter f (drop n ms)"
    by (subst append_take_drop_id [of n ms, symmetric]) (simp only: List.map_filter_def filter_append map_append)
  then show ?thesis using data_of_prefix by metis
qed

text \<open>
  C11. A forwarded connection, from the visitor to the local service. The server's task reads from
  the visitor; \<open>np\<close> handles its messages in the order they were sent, among any other messages,
  for other connections or for HTTP; \<open>np\<close>'s task writes to the local service. Then the local
  service has got a prefix of what the visitor sent, in order, and nothing else. While both tasks
  run and \<open>np\<close> has handled everything, what is missing waits in the channel of the connection.
\<close>

theorem tcp_to_local_service:
  assumes "loop_reads pump_step pm_running evs (pump_new u) = (visitor_sent, p)"
    and "np_start tcp_connect u a c0 = (Ok (), c)"
    and "side_run (np_handle env tcp_connect) (np_chan u) (np_put u) (np_pump_end True) np_pump_step np_running es
           (c, np_pump_new u, []) = Some (c', q, handled)"
    and "filter (\<lambda>m. np_about u m \<noteq> None) handled = take n (pm_sent p)"
  shows "\<exists>rest. visitor_sent = np_written q @ rest
    \<and> (pm_running p \<and> np_running q \<and> length (pm_sent p) \<le> n \<longrightarrow>
         (\<exists>ch. np_chan u c' = Some ch \<and> rest = data_of (mp_queue ch)))"
proof -
  have c: "np_chan u c = Some (mpsc_channel 1)"
    using assms(2) by (auto simp: np_start_def np_port_writer_register_def np_chan_def split: option.splits if_splits)
  obtain lost where lost: "visitor_sent = sent_bytes (pm_sent p) @ lost" "pm_running p \<Longrightarrow> lost = []"
    using server_pump.loop_reads_prefix [OF assms(1)] by (auto simp: pump_new_def)
  have "pump_sends_ok (pump_new u)" by (simp add: pump_sends_ok_def pump_new_def List.map_filter_def)
  with loop_reads_sends [OF assms(1)] have "pump_sends_ok p" "pm_uuid p = u" by (simp_all add: pump_new_def)
  then have sent: "data_of (List.map_filter (np_about u) (pm_sent p)) = sent_bytes (pm_sent p)"
    by (auto simp: pump_sends_ok_def Let_def)
  have handled: "List.map_filter (np_about u) handled = List.map_filter (np_about u) (take n (pm_sent p))"
    using assms(4) map_filter_about by metis
  obtain rest where rest: "data_of (List.map_filter (np_about u) handled) = np_written q @ rest"
    "np_running q \<Longrightarrow> \<exists>ch. np_chan u c' = Some ch \<and> rest = data_of (mp_queue ch)"
    using np_side.side_bytes [OF assms(3) c] by (auto simp: np_pump_new_def)
  obtain more where more: "sent_bytes (pm_sent p) = data_of (List.map_filter (np_about u) handled) @ more"
    using data_of_take [of "np_about u" "pm_sent p" n] sent handled by auto
  have "more = []" if "length (pm_sent p) \<le> n"
    using more sent handled that by simp
  then show ?thesis
    using rest more lost by (intro exI [of _ "rest @ more @ lost"]) auto
qed

theorem tcp_to_local_service_witness:
  "\<exists>c c' p q. np_start (\<lambda>_. None) ''u'' (from_port 22) sample_np = (Ok (), c)
     \<and> loop_reads pump_step pm_running
          [(True, True, FromSocket (ReadOk [1, 2])), (True, True, Elapsed), (True, True, FromSocket (ReadOk [3]))]
          (pump_new ''u'') = ([1, 2, 3], p)
     \<and> side_run (np_handle sample_hyper (\<lambda>_. None)) (np_chan ''u'') (np_put ''u'') (np_pump_end True)
          np_pump_step np_running
          [Handle (S_PortReceive \<lparr>pr_uuid = ''u'', pr_data = [1, 2]\<rparr>), Handle (S_PortClose \<lparr>pcl_uuid = ''v''\<rparr>), Take True True]
          (c, np_pump_new ''u'', [])
        = Some (c', q, [S_PortReceive \<lparr>pr_uuid = ''u'', pr_data = [1, 2]\<rparr>, S_PortClose \<lparr>pcl_uuid = ''v''\<rparr>])
     \<and> (\<exists>rest. [1, 2, 3] = np_written q @ rest)"
proof -
  let ?c = "sample_np\<lparr>nc_port_writers := [''u'' \<mapsto> mpsc_channel 1]\<rparr>"
  let ?evs = "[(True, True, FromSocket (ReadOk [1, 2])), (True, True, Elapsed), (True, True, FromSocket (ReadOk [3]))]"
  let ?hs = "[S_PortReceive \<lparr>pr_uuid = ''u'', pr_data = [1, 2]\<rparr>, S_PortClose \<lparr>pcl_uuid = ''v''\<rparr>]"
  have start: "np_start (\<lambda>_. None) ''u'' (from_port 22) sample_np = (Ok (), ?c)"
    by (simp add: np_start_def np_port_writer_register_def sample_np_def np_client_new_def)
  obtain p where reads: "loop_reads pump_step pm_running ?evs (pump_new ''u'') = ([1, 2, 3], p)"
    and p: "pm_sent p = [S_PortReceive \<lparr>pr_uuid = ''u'', pr_data = [1, 2]\<rparr>, S_PortReceive \<lparr>pr_uuid = ''u'', pr_data = [3]\<rparr>]"
    by (simp add: pump_new_def pump_step_def)
  obtain c' q where run: "side_run (np_handle sample_hyper (\<lambda>_. None)) (np_chan ''u'') (np_put ''u'') (np_pump_end True)
      np_pump_step np_running
      [Handle (S_PortReceive \<lparr>pr_uuid = ''u'', pr_data = [1, 2]\<rparr>), Handle (S_PortClose \<lparr>pcl_uuid = ''v''\<rparr>), Take True True]
      (?c, np_pump_new ''u'', []) = Some (c', q, ?hs)"
    by (simp add: np_handle_def np_message_def np_port_receive_def np_port_close_def np_port_message_def
        mpsc_send_def mpsc_channel_def mpsc_recv_def np_chan_def np_pump_new_def np_pump_step_def)
  have "filter (\<lambda>m. np_about ''u'' m \<noteq> None) ?hs = take 1 (pm_sent p)"
    by (simp add: np_about_def p)
  from tcp_to_local_service [OF reads start run this] start reads run show ?thesis by blast
qed

text \<open>
  C12. The way back. \<open>np\<close>'s task reads from the local service; the session of the client handles
  its messages in the order they were sent, among other messages of this client and of all other
  clients; the server's task writes to the visitor. Then the visitor has got a prefix of what the
  local service sent, in order, and nothing else, none of it from another connection.
\<close>

theorem tcp_to_visitor:
  assumes "loop_reads np_pump_step np_running evs (np_pump_new u) = (service_sent, q)"
    and "serve_socket_answer i s0 = Some (True, s)" "ls_client (as_listeners s0 ! i) = k"
    and "ls_phase (as_listeners s0 ! i) = Connecting u rx"
    and "side_run (srv_handle lc) (srv_chan k u) (srv_put k u) (srv_release k) pump_step pm_running es
           (s, pump_new u, []) = Some (s', p, handled)"
    and "map (\<lambda>(j, name, bind, payload). payload) (filter (\<lambda>m. srv_about k u m \<noteq> None) handled)
           = map Some (take n (np_sent q))"
  shows "\<exists>rest. service_sent = pm_written p @ rest
    \<and> (np_running q \<and> pm_running p \<and> length (np_sent q) \<le> n \<longrightarrow>
         (\<exists>ch. srv_chan k u s' = Some ch \<and> rest = data_of (mp_queue ch)))"
proof -
  let ?about = "\<lambda>m. srv_about k u (k, [], \<lambda>_. None, Some m)"
  have c: "srv_chan k u s = Some (mpsc_channel 4)"
    using assms(2-4) by (auto simp: serve_socket_answer_def Let_def port_writer_register_def srv_chan_def
        on_client_def update_client_def split: poll.splits sum.splits prod.splits if_splits)
  obtain lost where lost: "service_sent = np_sent_bytes (np_sent q) @ lost" "np_running q \<Longrightarrow> lost = []"
    using np_pump.loop_reads_prefix [OF assms(1)] by (auto simp: np_pump_new_def)
  have "np_pump_sends_ok k (np_pump_new u)" by (simp add: np_pump_sends_ok_def np_pump_new_def List.map_filter_def)
  with np_loop_reads_sends [OF assms(1)] have "np_pump_sends_ok k q" "np_uuid q = u" by (simp_all add: np_pump_new_def)
  then have sent: "data_of (List.map_filter ?about (np_sent q)) = np_sent_bytes (np_sent q)"
    by (auto simp: np_pump_sends_ok_def Let_def)
  let ?hs = "filter (\<lambda>m. srv_about k u m \<noteq> None) handled"
  have payload: "srv_about k u m = srv_about k u (k, [], \<lambda>_. None, (\<lambda>(j, name, bind, payload). payload) m)"
    if "m \<in> set ?hs" for m
  proof -
    obtain j name bind pl where m: "m = (j, name, bind, pl)" by (cases m)
    show ?thesis using that by (auto simp: m srv_about_def split: if_splits)
  qed
  have "List.map_filter (srv_about k u) handled = List.map_filter (srv_about k u) ?hs"
    by (rule map_filter_about [symmetric])
  also have "\<dots> = List.map_filter (\<lambda>pl. srv_about k u (k, [], \<lambda>_. None, pl)) (map (\<lambda>(j, name, bind, payload). payload) ?hs)"
    unfolding map_filter_map using payload by (intro map_filter_cong) auto
  also have "\<dots> = List.map_filter ?about (take n (np_sent q))"
    unfolding assms(6) map_filter_map ..
  finally have handled: "List.map_filter (srv_about k u) handled = List.map_filter ?about (take n (np_sent q))" .
  obtain rest where rest: "data_of (List.map_filter (srv_about k u) handled) = pm_written p @ rest"
    "pm_running p \<Longrightarrow> \<exists>ch. srv_chan k u s' = Some ch \<and> rest = data_of (mp_queue ch)"
    using srv_side.side_bytes [OF assms(5) c] by (auto simp: pump_new_def)
  obtain more where more: "np_sent_bytes (np_sent q) = data_of (List.map_filter (srv_about k u) handled) @ more"
    using data_of_take [of ?about "np_sent q" n] sent handled by auto
  have "more = []" if "length (np_sent q) \<le> n"
    using more sent handled that by simp
  then show ?thesis
    using rest more lost by (intro exI [of _ "rest @ more @ lost"]) auto
qed

lemma srv_handle_data:
  assumes "k \<in> set (rg_clients (as_registry s))" "srv_chan k u s = Some ch"
    and "mpsc_send (PM_Data bs) ch = Ready (Ok ch')"
  shows "srv_handle lc (k, name, bind, Some (C_PortReceive \<lparr>pr_uuid = u, pr_data = bs\<rparr>)) s = Some (srv_put k u ch' s)"
  using assms by (simp add: srv_handle_def srv_chan_def srv_put_def msg_def port_receive_handler_def
      client_port_as_message port_message_def on_client_def update_client_def)

definition sample_answered :: app_state where
  "sample_answered = snd (on_client 0 (\<lambda>c. ((), c\<lparr>c_connect_channels :=
     (c_connect_channels c)(7 := Delivered \<lparr>pc_uuid = ''u'', pc_error = None\<rparr>)\<rparr>))
     (set_phase 0 (Connecting ''u'' 7) sample_ports))"

lemma sample_answered_start:
  "ls_client (as_listeners sample_answered ! 0) = 0" "ls_phase (as_listeners sample_answered ! 0) = Connecting ''u'' 7"
  "\<exists>s. serve_socket_answer 0 sample_answered = Some (True, s) \<and> srv_chan 0 ''u'' s = Some (mpsc_channel 4)
     \<and> 0 \<in> set (rg_clients (as_registry s))"
proof -
  have "0 \<in> set (rg_clients (as_registry sample_ports))"
    using sample_state_ok(2) by (simp add: sample_ports_def port_server_def)
  then show "ls_client (as_listeners sample_answered ! 0) = 0"
    "ls_phase (as_listeners sample_answered ! 0) = Connecting ''u'' 7"
    "\<exists>s. serve_socket_answer 0 sample_answered = Some (True, s) \<and> srv_chan 0 ''u'' s = Some (mpsc_channel 4)
     \<and> 0 \<in> set (rg_clients (as_registry s))"
    by (simp_all add: sample_answered_def set_phase_def sample_ports_ok serve_socket_answer_def Let_def
        port_writer_register_def srv_chan_def on_client_def update_client_def)
qed

theorem tcp_to_visitor_witness:
  "\<exists>s s' q p rest. serve_socket_answer 0 sample_answered = Some (True, s)
     \<and> loop_reads np_pump_step np_running [(True, True, FromSocket (ReadOk [1, 2])), (True, True, FromSocket (ReadOk []))]
          (np_pump_new ''u'') = ([1, 2], q)
     \<and> side_run (srv_handle (map ascii_lower)) (srv_chan 0 ''u'') (srv_put 0 ''u'') (srv_release 0) pump_step pm_running
          [Handle (0, [], \<lambda>_. None, Some (C_PortReceive \<lparr>pr_uuid = ''u'', pr_data = [1, 2]\<rparr>)), Take True True]
          (s, pump_new ''u'', []) = Some (s', p, [(0, [], \<lambda>_. None, Some (C_PortReceive \<lparr>pr_uuid = ''u'', pr_data = [1, 2]\<rparr>))])
     \<and> pm_written p = [1, 2] \<and> [1, 2] = pm_written p @ rest"
proof -
  let ?m = "(0 :: nat, [] :: string, \<lambda>_ :: string. None :: u16 option, Some (C_PortReceive \<lparr>pr_uuid = ''u'', pr_data = [1, 2]\<rparr>))"
  obtain s where s: "serve_socket_answer 0 sample_answered = Some (True, s)" "srv_chan 0 ''u'' s = Some (mpsc_channel 4)"
    "0 \<in> set (rg_clients (as_registry s))"
    using sample_answered_start(3) by blast
  obtain q where reads: "loop_reads np_pump_step np_running
      [(True, True, FromSocket (ReadOk [1, 2])), (True, True, FromSocket (ReadOk []))] (np_pump_new ''u'') = ([1, 2], q)"
    and q: "np_sent q = [C_PortReceive \<lparr>pr_uuid = ''u'', pr_data = [1, 2]\<rparr>, C_PortClose \<lparr>pcl_uuid = ''u''\<rparr>]"
    by (simp add: np_pump_new_def np_pump_step_def np_pump_break_def)
  have send: "mpsc_send (PM_Data [1, 2]) (mpsc_channel 4) = Ready (Ok ((mpsc_channel 4)\<lparr>mp_queue := [PM_Data [1, 2]]\<rparr>))"
    by (simp add: mpsc_send_def mpsc_channel_def)
  obtain s' p where run: "side_run (srv_handle (map ascii_lower)) (srv_chan 0 ''u'') (srv_put 0 ''u'') (srv_release 0)
      pump_step pm_running [Handle ?m, Take True True] (s, pump_new ''u'', []) = Some (s', p, [?m])"
    and p: "pm_written p = [1, 2]"
    using srv_handle_data [OF s(3,2) send]
    by (simp add: srv_side.put_chan mpsc_recv_def pump_step_def pump_new_def Let_def)
  have f: "map (\<lambda>(j, name, bind, payload). payload) (filter (\<lambda>m. srv_about 0 ''u'' m \<noteq> None) [?m]) = map Some (take 1 (np_sent q))"
    by (simp add: srv_about_def q)
  show ?thesis
    using tcp_to_visitor [OF reads s(1) sample_answered_start(1,2) run f] s(1) reads run p by blast
qed

end
