(* ===== verification/Http_Tunnel.thy ===== *)
theory Http_Tunnel
  imports Http_Forwarding Port_Tunnel
begin

text \<open>
  A forwarded HTTP request from end to end: the visitor's request (\<open>forward\<close> of the server), the
  message to the client, \<open>np\<close>'s request to the local service, the answer through the session of
  the client, and the response to the visitor, while the sessions of other clients go on.
\<close>

section \<open>What other clients do in the meantime\<close>

fun sessions_run :: "(string \<Rightarrow> string) \<Rightarrow> session_message list \<Rightarrow> app_state \<Rightarrow> app_state option" where
  "sessions_run lc [] s = Some s"
| "sessions_run lc (m # ms) s = (case srv_handle lc m s of None \<Rightarrow> None | Some s' \<Rightarrow> sessions_run lc ms s')"

lemma srv_handle_local:
  assumes "srv_handle lc m s = Some s'"
  shows "local_to (fst m) s s'"
proof -
  obtain j name bind payload where m: "m = (j, name, bind, payload)" by (cases m)
  have j: "j \<in> set (rg_clients (as_registry s))" and s': "s' = snd (msg lc name bind j payload s)"
    using assms by (auto simp: srv_handle_def m split: if_splits prod.splits poll.splits)
  then show ?thesis
    using local_msg [OF j, of lc name bind payload] by (simp add: m)
qed

lemma sessions_run_others:
  "\<lbrakk>sessions_run lc ms s = Some s'; list_all (\<lambda>m. fst m \<noteq> k) ms\<rbrakk> \<Longrightarrow> the_client s' k = the_client s k"
proof (induction ms arbitrary: s)
  case (Cons m ms)
  then obtain s1 where s1: "srv_handle lc m s = Some s1" "sessions_run lc ms s1 = Some s'"
    by (auto split: option.splits)
  have "the_client s1 k = the_client s k"
    using srv_handle_local [OF s1(1)] Cons.prems(2) by (simp add: local_to_def)
  then show ?case using Cons.IH [OF s1(2)] Cons.prems(2) by simp
qed simp

section \<open>The request at the other end\<close>

lemma send_request_Ok:
  assumes "nc_http_forwardings c (hq_hostname q) = Some a"
    and "hy_method env (hq_method q) = None" "hy_build env (local_uri a (hq_uri q)) = None"
    and "insert_headers env (hq_headers q) [] = Ok hs" "hq_body q = Some b"
    and "hy_fetch env \<lparr>lq_uri = local_uri a (hq_uri q), lq_method = hq_method q, lq_headers = hs, lq_body = b\<rparr>
           = ResponseHead status rhs (Ok body)"
  shows "send_request env q c = Ok \<lparr>hd_headers = collect_headers rhs, hd_status_code = ucast status, hd_body = body\<rparr>"
  using assms by (simp add: send_request_def http_port_def)

lemma np_answers:
  assumes "nc_connection c = Some cn" "cn_open cn" "send_request env q c = Ok d"
  shows "np_message env tc (S_HttpRequest q) c = Return (Ready (Ok ()), c\<lparr>nc_connection := Some (cn\<lparr>cn_sent := cn_sent cn @
      [C_HttpResponse \<lparr>hr_uuid = hq_uuid q, hr_payload = Some (PayloadData d)\<rparr>]\<rparr>)\<rparr>)"
  using np_send_open [OF assms(1,2)] assms(3) by (simp add: np_message_def dispatch_request_def Let_def)

lemma forward_reply_data:
  assumes "100 \<le> status" "status < 1000"
  shows "forward_reply hn hv host (forward_request (Ok rx) (Received (Ok \<lparr>hr_uuid = u,
      hr_payload = Some (PayloadData \<lparr>hd_headers = h, hd_status_code = ucast (status :: u16), hd_body = b\<rparr>)\<rparr>)))
    = Return (Forwarded status (response_headers hn hv h) b)"
  using assms by (simp add: forward_reply_def forward_request_def status_from_u16_def)

lemma collect_headers_last:
  "map_of (collect_headers kvs) = map_of (rev kvs)" "distinct (map fst (collect_headers kvs))"
  using map_of_collect_map [of kvs] distinct_collect_map [of kvs] by (simp_all add: collect_map_def collect_headers_def)

text \<open>What the local service gets: each name of the visitor once, with the last of its values.\<close>

lemma insert_headers_all:
  assumes "\<And>n v. (n, v) \<in> set kvs \<Longrightarrow> hy_header_name env n = Ok n \<and> hy_header_value env v = None"
  shows "insert_headers env kvs hs = Ok (fold (\<lambda>(k, v). AList.update k v) kvs hs)"
  using assms
proof (induction kvs arbitrary: hs)
  case (Cons kv kvs)
  obtain k v where kv: "kv = (k, v)" by fastforce
  have "hy_header_name env k = Ok k" "hy_header_value env v = None" using Cons.prems [of k v] kv by simp_all
  moreover have "insert_headers env kvs (AList.update k v hs) = Ok (fold (\<lambda>(k, v). AList.update k v) kvs (AList.update k v hs))"
    by (rule Cons.IH) (use Cons.prems in auto)
  ultimately show ?case by (simp add: kv)
qed simp

lemma insert_request_headers:
  assumes d: "distinct (map fst h)"
    and accepted: "\<And>n vs. (n, vs) \<in> set h \<Longrightarrow> vs \<noteq> [] \<and> hy_header_name env n = Ok n \<and> hy_header_value env (last vs) = None"
  shows "\<exists>hs. insert_headers env (collect_map (header_pairs h)) [] = Ok hs \<and> distinct (map fst hs)
    \<and> map_of hs = map_option last \<circ> map_of h"
proof -
  let ?kvs = "collect_map (header_pairs h)"
  have last: "map_of (rev (header_pairs h)) n = map_option last (map_of h n)" for n
  proof (cases "map_of h n")
    case None
    then have "n \<notin> fst ` set h" by (simp add: map_of_eq_None_iff)
    then show ?thesis using None header_pairs_absent by simp
  next
    case (Some vs)
    then have "(n, vs) \<in> set h" by (rule map_of_SomeD)
    then show ?thesis using Some header_pairs_single [OF d] accepted by simp
  qed
  have "hy_header_name env n = Ok n \<and> hy_header_value env v = None" if "(n, v) \<in> set ?kvs" for n v
  proof -
    have "map_of ?kvs n = Some v" using distinct_collect_map that by (rule map_of_is_SomeI)
    then obtain vs where "map_of h n = Some vs" "v = last vs" using last by (auto simp: map_of_collect_map)
    then show ?thesis using accepted map_of_SomeD by metis
  qed
  from insert_headers_all [OF this] have ins: "insert_headers env ?kvs [] = Ok (collect_map ?kvs)"
    by (simp add: collect_map_def)
  have "map_of (rev ?kvs) = map_of ?kvs"
    using distinct_collect_map [of "header_pairs h"] by (intro map_of_inject_set [THEN iffD2]) (simp_all add: rev_map [symmetric])
  then have "map_of (collect_map ?kvs) = map_of ?kvs" by (simp only: map_of_collect_map)
  then have "map_of (collect_map ?kvs) = map_option last \<circ> map_of h"
    by (simp add: map_of_collect_map last fun_eq_iff)
  then show ?thesis using ins distinct_collect_map by blast
qed

section \<open>From end to end\<close>

text \<open>
  C4. A forwarded request, there and back. A request for a name that a connected client owns is
  sent to that client. Where \<open>np\<close> has the name in its table and \<open>hyper\<close> takes the method, the address and the headers,
  \<open>np\<close> asks the local service at the registered address with the method, path and body of the visitor, and with
  each of the visitor's headers once, under the last of its values (the others are lost). When the
  service answers, with a status from 100 to 999, \<open>np\<close> sends one response; whatever messages other clients send in the
  meantime, the visitor waits until that response arrives, and then gets the status and body of
  the service, and of its headers exactly those that are valid for the server and not \<open>transfer-encoding\<close>, each
  once, again with its last value.
\<close>

theorem http_round_trip:
  assumes route: "get_by_http_hostname host (as_registry s) = Some k"
    and ws: "c_ws_open (the_client s k)" and ok: "client_ok (the_client s k)"
    and np: "nc_connection c = Some cn" "cn_open cn" "nc_http_forwardings c host = Some a"
    and accepted: "hy_method env (in_method r) = None" "hy_build env (local_uri a (in_uri r)) = None"
    and headers: "distinct (map fst (in_headers r))" "\<And>n vs. (n, vs) \<in> set (in_headers r) \<Longrightarrow>
        vs \<noteq> [] \<and> hy_header_name env n = Ok n \<and> hy_header_value env (last vs) = None"
  shows "\<exists>rx s1 q hs. enqueue_request uuid host r s = Return (Ok (k, rx), s1)
    \<and> c_ws_sent (the_client s1 k) = c_ws_sent (the_client s k) @ [S_HttpRequest q]
    \<and> distinct (map fst hs) \<and> (\<forall>n. map_of hs n = map_option last (map_of (in_headers r) n))
    \<and> (\<forall>status rhs body. hy_fetch env
          \<lparr>lq_uri = local_uri a (in_uri r), lq_method = in_method r, lq_headers = hs, lq_body = in_body r\<rparr>
            = ResponseHead status rhs (Ok body) \<and> 100 \<le> status \<and> status < 1000 \<longrightarrow>
        (\<exists>c' resp out. np_message env tc (S_HttpRequest q) c = Return (Ready (Ok ()), c')
          \<and> nc_connection c' = Some (cn\<lparr>cn_sent := cn_sent cn @ [C_HttpResponse resp]\<rparr>)
          \<and> (\<forall>ms s2. list_all (\<lambda>m. fst m \<noteq> k) ms \<and> sessions_run lc ms s1 = Some s2 \<longrightarrow>
               answer_of (k, rx) s2 = Pending
               \<and> fst (msg lc name bind k (Some (C_HttpResponse resp)) s2) = Ready (Ok ())
               \<and> answer_of (k, rx) (snd (msg lc name bind k (Some (C_HttpResponse resp)) s2)) = Ready (Ok resp))
          \<and> forward_reply hn hv host (forward_request (Ok (k, rx)) (Received (Ok resp)))
              = Return (Forwarded status out body)
          \<and> proper_headers hn hv (map_of (rev rhs)) out))"
proof -
  let ?q = "http_request_of uuid host r s"
  let ?s0 = "snd (on_client k (register_http_request uuid) s)"
  let ?s1 = "snd (send_to k (S_HttpRequest ?q) ?s0)"
  let ?rx = "c_next_channel (the_client s k)"
  obtain hs where hs: "insert_headers env (collect_map (header_pairs (in_headers r))) [] = Ok hs" "distinct (map fst hs)"
    "map_of hs = map_option last \<circ> map_of (in_headers r)"
    using insert_request_headers [OF headers] by blast
  have enq: "enqueue_request uuid host r s = Return (Ok (k, ?rx), ?s1)"
    by (rule enqueue_sends [OF route ws])
  have ws0: "c_ws_open (the_client ?s0 k)" using ws by (simp add: register_http_request_def Let_def)
  have sent: "c_ws_sent (the_client ?s1 k) = c_ws_sent (the_client s k) @ [S_HttpRequest ?q]"
    using send_to_sent [OF ws0, of "S_HttpRequest ?q"] by (simp add: register_http_request_def Let_def)
  have "c_http_requests (the_client s k) uuid \<noteq> Some ?rx"
    using ok by (auto simp: client_ok_def table_ok_def)
  then have t: "c_http_requests (the_client ?s1 k) uuid = Some ?rx" "c_http_channels (the_client ?s1 k) ?rx = Waiting"
    by (simp_all add: register_http_request_def Let_def send_to_def client_send_def split: option.splits)
  have there_and_back: "\<exists>c' resp out. np_message env tc (S_HttpRequest ?q) c = Return (Ready (Ok ()), c')
      \<and> nc_connection c' = Some (cn\<lparr>cn_sent := cn_sent cn @ [C_HttpResponse resp]\<rparr>)
      \<and> (\<forall>ms s2. list_all (\<lambda>m. fst m \<noteq> k) ms \<and> sessions_run lc ms ?s1 = Some s2 \<longrightarrow>
           answer_of (k, ?rx) s2 = Pending
           \<and> fst (msg lc name bind k (Some (C_HttpResponse resp)) s2) = Ready (Ok ())
           \<and> answer_of (k, ?rx) (snd (msg lc name bind k (Some (C_HttpResponse resp)) s2)) = Ready (Ok resp))
      \<and> forward_reply hn hv host (forward_request (Ok (k, ?rx)) (Received (Ok resp)))
          = Return (Forwarded status out body)
      \<and> proper_headers hn hv (map_of (rev rhs)) out"
    if fetch: "hy_fetch env \<lparr>lq_uri = local_uri a (in_uri r), lq_method = in_method r, lq_headers = hs, lq_body = in_body r\<rparr>
        = ResponseHead status rhs (Ok body)" and status: "100 \<le> status" "status < 1000" for status rhs body
  proof -
    let ?d = "\<lparr>hd_headers = collect_headers rhs, hd_status_code = ucast status, hd_body = body\<rparr>"
    let ?resp = "\<lparr>hr_uuid = uuid, hr_payload = Some (PayloadData ?d)\<rparr>"
    have "send_request env ?q c = Ok ?d"
      by (rule send_request_Ok) (use np accepted hs(1) fetch in \<open>simp_all add: http_request_of_def\<close>)
    from np_answers [OF np(1,2) this, of tc]
    have answer: "np_message env tc (S_HttpRequest ?q) c = Return (Ready (Ok ()),
        c\<lparr>nc_connection := Some (cn\<lparr>cn_sent := cn_sent cn @ [C_HttpResponse ?resp]\<rparr>)\<rparr>)"
      by (simp add: http_request_of_def)
    have delivered: "answer_of (k, ?rx) s2 = Pending
        \<and> fst (msg lc name bind k (Some (C_HttpResponse ?resp)) s2) = Ready (Ok ())
        \<and> answer_of (k, ?rx) (snd (msg lc name bind k (Some (C_HttpResponse ?resp)) s2)) = Ready (Ok ?resp)"
      if "list_all (\<lambda>m. fst m \<noteq> k) ms" "sessions_run lc ms ?s1 = Some s2" for ms s2
    proof -
      have "the_client s2 k = the_client ?s1 k" by (rule sessions_run_others [OF that(2,1)])
      then have t2: "c_http_requests (the_client s2 k) uuid = Some ?rx" "c_http_channels (the_client s2 k) ?rx = Waiting"
        using t by simp_all
      then show ?thesis
        using send_response_delivers [of "the_client s2 k" ?resp ?rx]
        by (simp add: answer_of_def msg_def http_response_handler_def)
    qed
    have "proper_headers hn hv (map_of (rev rhs)) (response_headers hn hv (collect_headers rhs))"
      using response_headers_proper [OF collect_headers_last(2)] by (simp add: collect_headers_last(1))
    then show ?thesis
      using answer delivered forward_reply_data [OF status]
      by (intro exI [of _ ?resp] exI) (auto simp del: sum.inject)
  qed
  have "map_of hs n = map_option last (map_of (in_headers r) n)" for n by (simp add: hs(3))
  with enq sent hs(2) there_and_back show ?thesis by blast
qed

theorem http_round_trip_witness:
  "\<exists>rx s1 q c' resp. enqueue_request ''u1'' ''one.np.io'' sample_incoming sample_state = Return (Ok (0, rx), s1)
    \<and> np_message sample_hyper (\<lambda>_. None) (S_HttpRequest q) sample_np = Return (Ready (Ok ()), c')
    \<and> answer_of (0, rx) s1 = Pending
    \<and> forward_reply Some Some ''one.np.io'' (forward_request (Ok (0 :: nat, rx)) (Received (Ok resp)))
        = Return (Forwarded 200 [] [])"
proof -
  have np: "nc_connection sample_np = Some \<lparr>cn_open = True, cn_sent = []\<rparr>" "cn_open \<lparr>cn_open = True, cn_sent = []\<rparr>"
    "nc_http_forwardings sample_np ''one.np.io'' = Some (from_port 3000)"
    by (simp_all add: sample_np_def)
  have a: "hy_method sample_hyper (in_method sample_incoming) = None"
    "hy_build sample_hyper (local_uri (from_port 3000) (in_uri sample_incoming)) = None"
    "distinct (map fst (in_headers sample_incoming))"
    by (simp_all add: sample_hyper_def sample_incoming_def)
  have h: "vs \<noteq> [] \<and> hy_header_name sample_hyper n = Ok n \<and> hy_header_value sample_hyper (last vs) = None"
    if "(n, vs) \<in> set (in_headers sample_incoming)" for n vs
    using that by (auto simp: sample_incoming_def sample_hyper_def)
  have fetch: "hy_fetch sample_hyper \<lparr>lq_uri = local_uri (from_port 3000) (in_uri sample_incoming),
       lq_method = in_method sample_incoming, lq_headers = hs, lq_body = in_body sample_incoming\<rparr>
     = ResponseHead 200 [] (Ok []) \<and> (100 :: u16) \<le> 200 \<and> (200 :: u16) < 1000" for hs
    by (simp add: sample_hyper_def sample_incoming_def)
  obtain rx s1 q hs c' resp out where
    t: "enqueue_request ''u1'' ''one.np.io'' sample_incoming sample_state = Return (Ok (0, rx), s1)"
    "np_message sample_hyper (\<lambda>_. None) (S_HttpRequest q) sample_np = Return (Ready (Ok ()), c')"
    "\<And>ms s2. \<lbrakk>list_all (\<lambda>m. fst m \<noteq> 0) ms; sessions_run (map ascii_lower) ms s1 = Some s2\<rbrakk> \<Longrightarrow> answer_of (0, rx) s2 = Pending"
    "forward_reply Some Some ''one.np.io'' (forward_request (Ok (0 :: nat, rx)) (Received (Ok resp)))
        = Return (Forwarded 200 out [])" "proper_headers Some Some (map_of (rev [])) out"
    using http_round_trip [OF sample_state_ok(6,4) sample_client_ok np a h,
        of "''u1''" "\<lambda>_. None" "map ascii_lower" "[]" "\<lambda>_. None" Some Some] fetch by blast
  have "answer_of (0, rx) s1 = Pending" using t(3) [of "[]" s1] by simp
  moreover have "out = []" using t(5) by (simp add: proper_headers_def)
  ultimately show ?thesis using t(1,2,4) by metis
qed

end
