(* ===== verification/Server_World.thy ===== *)
theory Server_World
  imports Http_Tunnel Router
begin

text \<open>
  The whole server as one transition system: sessions that start, handle messages and end,
  listeners, visitors' HTTP requests and their time-outs, the tasks of forwarded connections,
  sockets that break and client objects that are released, in any order. The state is the shared
  state with the set of clients whose session is running. The invariant says what the parts may
  rely on when they run side by side.
\<close>

section \<open>The transition system\<close>

type_synonym world = "app_state \<times> nat set"

definition drop_receiver :: "nat \<Rightarrow> client \<Rightarrow> unit \<times> client" where
  "drop_receiver rx c = ((), c\<lparr>c_http_channels := (c_http_channels c)(rx := oneshot_drop_receiver (c_http_channels c rx))\<rparr>)"

definition break_socket :: "client \<Rightarrow> unit \<times> client" where
  "break_socket c = ((), c\<lparr>c_ws_open := False\<rparr>)"

definition admitted :: "(string \<Rightarrow> string) \<Rightarrow> hostnames \<Rightarrow> string \<Rightarrow> bool" where
  "admitted lc h name = (subdomain_for_forwarding lc h (Some name) = Ok (Some name))"

text \<open>
  What goes on beside the sessions: the listeners, visitors that give up, the counter of
  requests, the copying tasks and their channels, sockets that break, objects that are released.
\<close>

inductive task_step :: "app_state \<Rightarrow> app_state \<Rightarrow> bool" where
  listener: "listener_step ev n s = Some s' \<Longrightarrow> task_step s s'"
| visitor_gone: "task_step s (snd (on_client k (drop_receiver rx) s))"
| request_counted: "task_step s (request_counter s)"
| port_data: "srv_chan k u s = Some ch \<Longrightarrow> task_step s (srv_put k u ch' s)"
| port_read: "task_step s (snd (send_to k (S_PortReceive data) s))"
| port_closed: "task_step s (snd (send_to k (S_PortClose close) s))"
| port_done: "task_step s (pump_end p k s)"
| socket_breaks: "task_step s (snd (on_client k break_socket s))"
| released: "release_client k s = Some s' \<Longrightarrow> task_step s s'"

text \<open>
  \<open>lc\<close> is \<open>to_lowercase\<close>, \<open>decode\<close> the protobuf decoder, \<open>G\<close> the names that the generator of
  random names can make (any set), \<open>b\<close> the build information.
\<close>

inductive world_step :: "(string \<Rightarrow> string) \<Rightarrow> (bytes \<Rightarrow> client_payload option) \<Rightarrow> string set \<Rightarrow> build_info
    \<Rightarrow> world \<Rightarrow> world \<Rightarrow> bool" for lc decode G b where
  session_starts: "session_start b who ws_ok s = (Inr k, s') \<Longrightarrow> world_step lc decode G b (s, L) (s', insert k L)"
| session_fails: "session_start b who ws_ok s = (Inl e, s') \<Longrightarrow> world_step lc decode G b (s, L) (s', L)"
| message: "\<lbrakk>k \<in> L; ar_name a \<in> G; session_turn lc decode k a s = (Continue, s')\<rbrakk>
    \<Longrightarrow> world_step lc decode G b (s, L) (s', L)"
| session_ends: "\<lbrakk>k \<in> L; ar_name a \<in> G; session_turn lc decode k a s = (Break, s')\<rbrakk>
    \<Longrightarrow> world_step lc decode G b (s, L) (session_end k s', L - {k})"
| visit: "enqueue_request uuid host r s = Return (res, s') \<Longrightarrow> world_step lc decode G b (s, L) (s', L)"
| task: "task_step s s' \<Longrightarrow> world_step lc decode G b (s, L) (s', L)"

text \<open>A host name that may be forwarded: a label below the domain that is not reserved.\<close>

definition forwardable :: "hostnames \<Rightarrow> string \<Rightarrow> bool" where
  "forwardable h x \<longleftrightarrow> (\<exists>l. x = full_hostname h l \<and> valid_label l
     \<and> l \<noteq> hn_api h \<and> l \<noteq> hn_tcp h \<and> l \<notin> set (hn_subdomain_blocklist h))"

text \<open>A name that \<open>http::open\<close> made from a generated label that would not have passed as a requested one.\<close>

definition odd_name :: "(string \<Rightarrow> string) \<Rightarrow> string set \<Rightarrow> hostnames \<Rightarrow> string \<Rightarrow> bool" where
  "odd_name lc G h x \<longleftrightarrow> (\<exists>g \<in> G. x = full_hostname h g \<and> \<not> admitted lc h g)"

definition clients_ok :: "app_state \<Rightarrow> bool" where
  "clients_ok s \<longleftrightarrow> (\<forall>k. client_ok (the_client s k))"

definition world_ok :: "world \<Rightarrow> bool" where
  "world_ok w = (case w of (s, L) \<Rightarrow>
     registry_ok (as_registry s) \<and> clients_ok s
     \<and> finite L \<and> L \<subseteq> set (rg_clients (as_registry s)) \<and> connection_gauge s = of_nat (card L))"

section \<open>Steps that do not touch names or sessions\<close>

definition keeps_ok :: "(client \<Rightarrow> 'a \<times> client) \<Rightarrow> bool" where
  "keeps_ok f \<longleftrightarrow> (\<forall>c. client_ok c \<longrightarrow> client_ok (snd (f c)))"

lemma table_ok_drop: "table_ok n t ch \<Longrightarrow> table_ok n t (ch(rx := oneshot_drop_receiver x))"
  by (auto simp: table_ok_def oneshot_drop_receiver_def)

lemma keeps_ok_ops [simp, intro]:
  "keeps_ok (client_send m)" "keeps_ok (register_http_request u)" "keeps_ok (send_http_response r)"
  "keeps_ok (register_connect_request u)" "keeps_ok (send_connected_response cr)"
  "keeps_ok (\<lambda>c. ((), register_port p c))" "keeps_ok (port_writer_register u ch)"
  "keeps_ok (port_writer_remove u)" "keeps_ok (port_message u pm)" "keeps_ok (client_port_receive pr)"
  "keeps_ok (client_port_close pc)" "keeps_ok (drop_receiver rx)" "keeps_ok break_socket"
  "keeps_ok (\<lambda>c. ((), c\<lparr>c_ws_open := ws\<rparr>))" "keeps_ok (\<lambda>c. ((), client_drop c))"
  "keeps_ok (\<lambda>c. ((), c\<lparr>c_port_writers := (c_port_writers c)(u \<mapsto> ch)\<rparr>))"
  "keeps_ok (\<lambda>c. ((), c\<lparr>c_connect_channels := (c_connect_channels c)(rx := oneshot_drop_receiver (c_connect_channels c rx))\<rparr>))"
proof -
  show "keeps_ok (register_http_request u)" "keeps_ok (register_connect_request u)"
    unfolding keeps_ok_def using register_http_request_ok register_connect_request_ok
    by (metis prod.collapse)+
  show "keeps_ok (client_port_receive pr)" "keeps_ok (client_port_close pc)"
    by (simp_all add: keeps_ok_def client_port_as_message client_frame_ok)
  show "keeps_ok (drop_receiver rx)"
    "keeps_ok (\<lambda>c. ((), c\<lparr>c_connect_channels := (c_connect_channels c)(rx := oneshot_drop_receiver (c_connect_channels c rx))\<rparr>))"
    by (simp_all add: keeps_ok_def drop_receiver_def client_ok_def table_ok_drop)
  show "keeps_ok (\<lambda>c. ((), client_drop c))"
    by (simp add: keeps_ok_def client_drop_def client_ok_def table_ok_def)
  show "keeps_ok break_socket" "keeps_ok (\<lambda>c. ((), c\<lparr>c_ws_open := ws\<rparr>))"
    "keeps_ok (\<lambda>c. ((), c\<lparr>c_port_writers := (c_port_writers c)(u \<mapsto> ch)\<rparr>))"
    by (simp_all add: keeps_ok_def break_socket_def client_ok_def)
qed (simp_all add: keeps_ok_def client_frame_ok send_http_response_ok send_connected_response_ok)

lemma keeps_names_more [simp, intro]:
  "keeps_names (drop_receiver rx)" "keeps_names break_socket" "keeps_names (\<lambda>c. ((), client_drop c))"
  "keeps_names (\<lambda>c. ((), c\<lparr>c_ws_open := ws\<rparr>))"
  "keeps_names (\<lambda>c. ((), c\<lparr>c_port_writers := (c_port_writers c)(u \<mapsto> ch)\<rparr>))"
  "keeps_names (\<lambda>c. ((), c\<lparr>c_connect_channels := (c_connect_channels c)(rx := oneshot_drop_receiver (c_connect_channels c rx))\<rparr>))"
  by (simp_all add: keeps_names_def drop_receiver_def break_socket_def client_drop_def)

definition quiet :: "app_state \<Rightarrow> app_state \<Rightarrow> bool" where
  "quiet s s' \<longleftrightarrow>
     (registry_ok (as_registry s) \<longrightarrow> registry_ok (as_registry s')) \<and> (clients_ok s \<longrightarrow> clients_ok s')
     \<and> rg_claimed (as_registry s') = rg_claimed (as_registry s) \<and> rg_clients (as_registry s') = rg_clients (as_registry s)
     \<and> as_hostnames s' = as_hostnames s \<and> connection_gauge s' = connection_gauge s"

lemma quiet_refl [simp]: "quiet s s"
  by (simp add: quiet_def)

lemma quiet_trans: "\<lbrakk>quiet s s'; quiet s' s''\<rbrakk> \<Longrightarrow> quiet s s''"
  by (simp add: quiet_def)

lemma quiet_world: "\<lbrakk>quiet s s'; world_ok (s, L)\<rbrakk> \<Longrightarrow> world_ok (s', L)"
  by (simp add: quiet_def world_ok_def)

lemma clients_ok_on_client: "\<lbrakk>keeps_ok f; clients_ok s\<rbrakk> \<Longrightarrow> clients_ok (snd (on_client k f s))"
  by (simp add: clients_ok_def keeps_ok_def)

lemma quiet_on_client [simp]: "\<lbrakk>keeps_names f; keeps_ok f\<rbrakk> \<Longrightarrow> quiet s (snd (on_client k f s))"
  by (simp add: quiet_def on_client_registry clients_ok_on_client)

lemma quiet_after: "\<lbrakk>keeps_names f; keeps_ok f; quiet s s'\<rbrakk> \<Longrightarrow> quiet s (snd (on_client k f s'))"
  using quiet_trans quiet_on_client by blast

lemma quiet_send [simp]: "quiet s (snd (send_to k m s))"
  by (simp add: send_to_def)

lemma quiet_send_after: "quiet s s' \<Longrightarrow> quiet s (snd (send_to k m s'))"
  using quiet_trans quiet_send by blast

lemma quiet_same_registry:
  assumes "as_registry s' = as_registry s''" "as_hostnames s' = as_hostnames s''"
    "st_client_connections (as_stats s') = st_client_connections (as_stats s'')"
  shows "quiet s s' = quiet s s''"
  unfolding quiet_def clients_ok_def assms by (rule refl)

lemma quiet_frames [simp]:
  "quiet s (set_phase n ph s') = quiet s s'" "quiet s (ports_inc s') = quiet s s'" "quiet s (ports_dec s') = quiet s s'"
  "quiet s (s'\<lparr>as_listeners := ls\<rparr>) = quiet s s'" "quiet s (request_counter s') = quiet s s'"
  by (rule quiet_same_registry; simp add: set_phase_def ports_inc_def ports_dec_def request_counter_def stats_http_request_def)+

lemma quiet_listener:
  assumes "listener_step ev n s = Some s'"
  shows "quiet s s'"
proof -
  have connect: "quiet s (serve_socket_connect n u a s)" for u a
    by (auto simp: serve_socket_connect_def Let_def case_prod_unfold
        intro!: quiet_after quiet_send_after split: sum.splits)
  have answer: "quiet s t" if "serve_socket_answer n s = Some (b, t)" for b t
    using that by (auto simp: serve_socket_answer_def Let_def split: listener_phase.splits poll.splits sum.splits
        if_splits prod.splits) (metis keeps_names_ops(7) keeps_ok_ops(7) quiet_on_client snd_conv)+
  show ?thesis
    using assms connect answer
    by (auto simp: listener_step_def split: if_splits listener_event.splits listener_phase.splits poll.splits)
qed

lemma quiet_visit:
  assumes "enqueue_request uuid host r s = Return (res, s')"
  shows "quiet s s'"
proof (cases "route s host")
  case None
  then show ?thesis using assms by (simp add: enqueue_request_def)
next
  case (Some k)
  have f: "(\<lambda>c. ((), c\<lparr>c_http_channels := (c_http_channels c)(rx := oneshot_drop_receiver (c_http_channels c rx))\<rparr>))
      = drop_receiver rx" for rx
    by (simp add: drop_receiver_def fun_eq_iff)
  show ?thesis
    using assms
    by (auto simp: enqueue_known [OF Some] f Let_def case_prod_unfold intro!: quiet_after quiet_send_after split: sum.splits)
qed

lemma quiet_release: "release_client k s = Some s' \<Longrightarrow> quiet s s'"
  by (auto simp: release_client_def split: if_splits)

lemma quiet_pump: "quiet s (pump_end p k s)"
  by (simp add: pump_end_def)

lemma quiet_put: "quiet s (srv_put k u ch s)"
  by (simp add: srv_put_def)

lemma quiet_task: "task_step s s' \<Longrightarrow> quiet s s'"
proof (induction rule: task_step.induct)
  case (request_counted s)
  then show ?case by simp
qed (blast intro: quiet_listener quiet_on_client quiet_put quiet_send quiet_pump quiet_release)+

section \<open>Messages and sessions\<close>

lemma clients_ok_claim: "clients_ok s \<Longrightarrow> clients_ok (snd (on_registry (claim_http_hostname k h) s))"
  by (auto simp: clients_ok_def claim_http_hostname_def claim_insert_def claim_add_def update_client_def
      client_frame_ok split: bool.splits prod.splits)
    (metis client_frame_ok(1) snd_conv)+

lemma clients_ok_release: "clients_ok s \<Longrightarrow> clients_ok (snd (on_registry (release_http_hostname k h) s))"
  by (auto simp: clients_ok_def release_http_hostname_def release_remove_def release_free_def update_client_def
      client_frame_ok split: bool.splits prod.splits)
    (metis client_frame_ok(2) snd_conv)+

lemma clients_ok_frames [simp]:
  "clients_ok (hostnames_inc s) = clients_ok s" "clients_ok (hostnames_dec s) = clients_ok s"
  "clients_ok (connections_inc s) = clients_ok s" "clients_ok (connections_dec s) = clients_ok s"
  by (simp_all add: clients_ok_def)

lemma clients_ok_send: "clients_ok s \<Longrightarrow> clients_ok (snd (send_to k m s))"
  using quiet_send [of s k m] by (simp add: quiet_def)

lemma clients_ok_http_open: "clients_ok s \<Longrightarrow> clients_ok (snd (http_open_handler lc name k req s))"
  by (auto simp: http_open_handler_def Let_def case_prod_unfold clients_ok_claim intro!: clients_ok_send split: sum.splits)

lemma clients_ok_http_close: "clients_ok s \<Longrightarrow> clients_ok (snd (http_close_handler k req s))"
  by (auto simp: http_close_handler_def Let_def case_prod_unfold clients_ok_release intro!: clients_ok_send)

lemma clients_ok_port_server: "clients_ok s \<Longrightarrow> clients_ok (snd (port_server bind k hostname a s))"
  by (simp add: port_server_def clients_ok_def split: option.splits)

lemma clients_ok_port_open: "clients_ok s \<Longrightarrow> clients_ok (snd (port_open_handler lc bind k req s))"
  by (auto simp: port_open_handler_def Let_def case_prod_unfold clients_ok_port_server
      intro!: clients_ok_send clients_ok_on_client split: sum.splits option.splits)

lemma clients_ok_msg: "clients_ok s \<Longrightarrow> clients_ok (snd (msg lc name bind k payload s))"
  by (auto simp: msg_def clients_ok_http_open clients_ok_http_close clients_ok_port_open clients_ok_on_client
      http_response_handler_def port_connected_handler_def port_receive_handler_def port_close_handler_def
      split: option.splits client_message.splits)

text \<open>The only names a message can add are forwardable.\<close>

lemma claimed_claim: "rg_claimed (snd (claim_http_hostname k h r)) = insert h (rg_claimed r)"
  by (auto simp: claim_http_hostname_def claim_insert_def claim_add_def update_client_def split: bool.splits prod.splits)

lemma claimed_release: "x \<in> rg_claimed (snd (release_http_hostname k h r)) \<Longrightarrow> x \<in> rg_claimed r"
  by (auto simp: release_http_hostname_def release_remove_def release_free_def update_client_def
      split: bool.splits prod.splits)

lemma admitted_forwardable:
  assumes "lowercases lc" "admitted lc h name"
  shows "forwardable h (full_hostname h name)"
  using subdomain_for_forwarding_Some [OF assms(1) assms(2) [unfolded admitted_def]] unfolding forwardable_def by blast

lemma accepted_forwardable:
  assumes "lowercases lc" "name \<in> G" "subdomain_for_forwarding lc h req = Inr sub"
    and "x = full_hostname h (case sub of Some l \<Rightarrow> l | None \<Rightarrow> name)"
  shows "forwardable h x \<or> odd_name lc G h x"
proof (cases sub)
  case None
  then show ?thesis
    using assms(2,4) admitted_forwardable [OF assms(1)] by (auto simp: odd_name_def)
next
  case (Some l)
  then have sub: "subdomain_for_forwarding lc h req = Inr (Some l)" and x: "x = full_hostname h l" using assms(3,4) by simp_all
  show ?thesis
    using subdomain_for_forwarding_Some [OF assms(1) sub] unfolding forwardable_def x by blast
qed

lemma claimed_http_open:
  assumes "lowercases lc" "name \<in> G"
    and "x \<in> rg_claimed (as_registry (snd (http_open_handler lc name k req s)))"
  shows "x \<in> rg_claimed (as_registry s) \<or> forwardable (as_hostnames s) x \<or> odd_name lc G (as_hostnames s) x"
proof (cases "subdomain_for_forwarding lc (as_hostnames s) (ho_hostname req)")
  case (Inl e)
  then show ?thesis using assms(3) by (simp add: http_open_handler_def)
next
  case (Inr sub)
  have "x \<in> insert (full_hostname (as_hostnames s) (case sub of Some l \<Rightarrow> l | None \<Rightarrow> name)) (rg_claimed (as_registry s))"
    using assms(3) by (auto simp: http_open_accepted [OF Inr refl] Let_def claimed_claim split: if_splits)
  then show ?thesis
    using accepted_forwardable [OF assms(1,2) Inr] by blast
qed

lemma claimed_port_server: "rg_claimed (as_registry (snd (port_server bind k hostname a s))) = rg_claimed (as_registry s)"
  by (simp add: port_server_def split: option.splits)

lemma claimed_port_open:
  "rg_claimed (as_registry (snd (port_open_handler lc bind k req s))) = rg_claimed (as_registry s)"
  by (simp add: port_open_handler_def Let_def case_prod_unfold claimed_port_server split: sum.splits option.splits)

lemma claimed_msg:
  assumes "lowercases lc" "name \<in> G"
    and "x \<in> rg_claimed (as_registry (snd (msg lc name bind k payload s)))"
  shows "x \<in> rg_claimed (as_registry s) \<or> forwardable (as_hostnames s) x \<or> odd_name lc G (as_hostnames s) x"
  using assms(3) claimed_http_open [OF assms(1,2)]
  by (auto dest: claimed_release simp: msg_def http_close_handler_def case_prod_unfold Let_def claimed_port_open
      http_response_handler_def port_connected_handler_def port_receive_handler_def port_close_handler_def
      split: option.splits client_message.splits if_splits)

lemma turn_world_ok:
  assumes ok: "world_ok (s, L)" and "k \<in> L" and "session_turn lc decode k a s = (t, s')"
  shows "world_ok (s', L)"
proof -
  have s': "s' = snd (session_turn lc decode k a s)" using assms(3) by simp
  have k: "k \<in> set (rg_clients (as_registry s))" using ok assms(2) by (auto simp: world_ok_def)
  note turn = turn_local [OF k, of lc decode a] turn_gauge [of lc decode k a s]
  have cl: "clients_ok s'"
    using ok by (auto simp: s' turn_state world_ok_def clients_ok_msg split: sum.splits)
  show ?thesis
    using ok cl turn by (auto simp: world_ok_def local_to_def s')
qed

lemma session_end_world_ok:
  assumes ok: "world_ok (s, L)" and k: "k \<in> L"
  shows "world_ok (session_end k s, L - {k})"
proof -
  have reg: "registry_ok (as_registry s)" "k \<in> set (rg_clients (as_registry s))" and L: "finite L"
    and g: "connection_gauge s = of_nat (card L)"
    using ok k by (auto simp: world_ok_def)
  note leave = deregister_live [OF reg]
  have heap: "rg_heap (snd (deregister k r)) = rg_heap r" and claimed: "rg_claimed (snd (deregister k r)) \<subseteq> rg_claimed r" for r
    by (auto simp: deregister_def deregister_list_def deregister_names_def split: option.splits)
  have "card L = Suc (card (L - {k}))"
    by (rule card.remove [OF L k])
  then have "connection_gauge s - 1 = of_nat (card (L - {k}))"
    using g by simp
  then show ?thesis
    using ok leave(2,4) claimed [of "as_registry s"] by (auto simp: world_ok_def session_end_def clients_ok_def heap)
qed

lemma session_start_world_ok:
  assumes ok: "world_ok (s, L)" and st: "session_start b who ws_ok s = (r, s')"
  shows "world_ok (s', case r of Inl e \<Rightarrow> L | Inr k \<Rightarrow> insert k L)"
proof -
  let ?k = "rg_next (as_registry s)"
  let ?sa = "snd (on_registry (register who) s)"
  let ?sb = "snd (on_client ?k (\<lambda>c. ((), c\<lparr>c_ws_open := ws_ok\<rparr>)) ?sa)"
  have reg: "registry_ok (as_registry s)" and L: "finite L" "L \<subseteq> set (rg_clients (as_registry s))"
    using ok by (auto simp: world_ok_def)
  note start = session_start_state [OF reg st]
  have "clients_ok ?sa"
    using ok by (simp add: world_ok_def clients_ok_def register_def client_new_ok)
  then have b: "clients_ok ?sb" by (rule clients_ok_on_client [rotated]) simp
  have q: "quiet ?sb (snd (send_welcome b ?k ?sb))"
    by (simp add: send_welcome_def)
  have s': "as_registry s' = as_registry (snd (send_welcome b ?k ?sb))" "as_hostnames s' = as_hostnames (snd (send_welcome b ?k ?sb))"
    using st by (auto simp: session_start_def Let_def case_prod_unfold register_def split: sum.splits)
  have "clients_ok s'" "rg_claimed (as_registry s') = rg_claimed (as_registry s)" "as_hostnames s' = as_hostnames s"
    using b q by (simp_all add: quiet_def clients_ok_def s' register_def)
  moreover have "connection_gauge s' = of_nat (card (case r of Inl e \<Rightarrow> L | Inr k \<Rightarrow> insert k L))"
    using ok start(4,5,6) L by (cases r) (auto simp: world_ok_def card_insert_if)
  moreover have "(case r of Inl e \<Rightarrow> L | Inr k \<Rightarrow> insert k L) \<subseteq> set (rg_clients (as_registry s'))"
    using start(3,5) L(2) by (cases r) auto
  ultimately show ?thesis
    using ok start(1) L(1) by (auto simp: world_ok_def split: sum.splits)
qed

section \<open>The invariant\<close>

lemma world_step_ok:
  assumes "world_step lc decode G b w w'" "world_ok w"
  shows "world_ok w'"
  using assms
proof (cases rule: world_step.cases)
  case (session_starts who ws_ok s k s' L)
  then show ?thesis using assms(2) session_start_world_ok [of s L b who ws_ok "Inr k" s'] by simp
next
  case (session_fails who ws_ok s e s' L)
  then show ?thesis using assms(2) session_start_world_ok [of s L b who ws_ok "Inl e" s'] by simp
next
  case (message k L a s s')
  then show ?thesis using assms(2) turn_world_ok by blast
next
  case (session_ends k L a s s')
  then show ?thesis using assms(2) turn_world_ok session_end_world_ok by blast
next
  case (visit uuid host r s res s' L)
  then show ?thesis using assms(2) quiet_world [OF quiet_visit] by blast
next
  case (task s s' L)
  then show ?thesis using assms(2) quiet_world [OF quiet_task] by blast
qed

lemma world_steps_ok: "\<lbrakk>(world_step lc decode G b)\<^sup>*\<^sup>* w w'; world_ok w\<rbrakk> \<Longrightarrow> world_ok w'"
  by (induction rule: rtranclp_induct) (auto intro: world_step_ok)

text \<open>The names that are claimed, and that a step can add.\<close>

definition names_ok :: "(string \<Rightarrow> string) \<Rightarrow> string set \<Rightarrow> hostnames \<Rightarrow> app_state \<Rightarrow> bool" where
  "names_ok lc G h s \<longleftrightarrow> as_hostnames s = h \<and> (\<forall>x \<in> rg_claimed (as_registry s). forwardable h x \<or> odd_name lc G h x)"

lemma quiet_names: "\<lbrakk>quiet s s'; names_ok lc G h s\<rbrakk> \<Longrightarrow> names_ok lc G h s'"
  by (simp add: quiet_def names_ok_def)

lemma turn_names:
  assumes "lowercases lc" "ar_name a \<in> G" "names_ok lc G h s" "k \<in> set (rg_clients (as_registry s))"
  shows "names_ok lc G h (snd (session_turn lc decode k a s))"
proof -
  have "as_hostnames (snd (session_turn lc decode k a s)) = h"
    using turn_local [OF assms(4), of lc decode a] assms(3) by (simp add: local_to_def names_ok_def)
  moreover have "x \<in> rg_claimed (as_registry s) \<or> forwardable (as_hostnames s) x \<or> odd_name lc G (as_hostnames s) x"
    if "x \<in> rg_claimed (as_registry (snd (session_turn lc decode k a s)))" for x
    using that by (auto simp: turn_state dest!: claimed_msg [OF assms(1,2)] split: sum.splits)
  ultimately show ?thesis using assms(3) by (auto simp: names_ok_def)
qed

lemma session_start_names:
  assumes st: "session_start b who ws_ok s = (r, s')" and ok: "names_ok lc G h s"
  shows "names_ok lc G h s'"
proof -
  let ?sb = "snd (on_client (rg_next (as_registry s)) (\<lambda>c. ((), c\<lparr>c_ws_open := ws_ok\<rparr>)) (snd (on_registry (register who) s)))"
  have "names_ok lc G h ?sb" using ok by (simp add: names_ok_def register_def)
  moreover have "quiet ?sb (snd (send_welcome b (rg_next (as_registry s)) ?sb))"
    by (simp add: send_welcome_def)
  ultimately have "names_ok lc G h (snd (send_welcome b (rg_next (as_registry s)) ?sb))" by (rule quiet_names [rotated])
  moreover have "as_registry s' = as_registry (snd (send_welcome b (rg_next (as_registry s)) ?sb))"
    "as_hostnames s' = as_hostnames (snd (send_welcome b (rg_next (as_registry s)) ?sb))"
    using st by (auto simp: session_start_def Let_def case_prod_unfold register_def split: sum.splits)
  ultimately show ?thesis by (simp add: names_ok_def)
qed

lemma world_step_names:
  assumes "world_step lc decode G b w w'" "lowercases lc" "world_ok w" "names_ok lc G h (fst w)"
  shows "names_ok lc G h (fst w')"
  using assms(1)
proof (cases rule: world_step.cases)
  case (session_starts who ws_ok s k s' L)
  then show ?thesis using assms(4) session_start_names by simp
next
  case (session_fails who ws_ok s e s' L)
  then show ?thesis using assms(4) session_start_names by simp
next
  case (message k L a s s')
  then have "k \<in> set (rg_clients (as_registry s))" using assms(3) by (auto simp: world_ok_def)
  then show ?thesis
    using turn_names [where k = k and a = a and s = s and decode = decode, OF assms(2)] message assms(4) by simp
next
  case (session_ends k L a s s')
  then have "k \<in> set (rg_clients (as_registry s))" using assms(3) by (auto simp: world_ok_def)
  then have "names_ok lc G h s'"
    using turn_names [where k = k and a = a and s = s and decode = decode, OF assms(2)] session_ends assms(4) by simp
  moreover have "rg_claimed (snd (deregister k r)) \<subseteq> rg_claimed r" for r
    by (auto simp: deregister_def deregister_list_def deregister_names_def split: option.splits)
  ultimately show ?thesis
    unfolding session_ends(2) by (auto simp: names_ok_def session_end_def)
next
  case (visit uuid host r s res s' L)
  then show ?thesis using assms(4) quiet_names [OF quiet_visit] by simp
next
  case (task s s' L)
  then show ?thesis using assms(4) quiet_names [OF quiet_task] by simp
qed

lemma world_steps_names:
  "\<lbrakk>(world_step lc decode G b)\<^sup>*\<^sup>* w w'; lowercases lc; world_ok w; names_ok lc G h (fst w)\<rbrakk> \<Longrightarrow> names_ok lc G h (fst w')"
  by (induction rule: rtranclp_induct) (auto intro: world_step_names dest: world_steps_ok)

text \<open>
  C3. The server, whatever happens in whatever order: sessions that start, send messages and end,
  visitors, time-outs, connections to ports, broken sockets. A host name is routed to a client
  exactly when that client is registered and holds it. Every routed name is a label below the
  domain that is neither reserved nor blocked, unless it was made from a generated label that would
  not pass the checks of a requested one (\<open>http::open\<close> does not check those it generates). Every
  running session's client is registered and the gauge of connections, 0 at the start, counts the running sessions;
  two pending requests of a client never share a channel, so that no visitor gets the answer to
  another visitor's request.
\<close>

theorem server_invariant:
  assumes "lowercases lc" and "metric_get (st_client_connections st) = 0"
    and "(world_step lc decode G b)\<^sup>*\<^sup>* (app_state_new l h st opts, {}) (s, L)"
  shows "(\<forall>x k. get_by_http_hostname x (as_registry s) = Some k
             \<longleftrightarrow> k \<in> set (rg_clients (as_registry s)) \<and> x \<in> names_of (as_registry s) k)
    \<and> (\<forall>x k. get_by_http_hostname x (as_registry s) = Some k \<longrightarrow> forwardable h x
         \<or> (\<exists>g \<in> G. x = full_hostname h g \<and> subdomain_for_forwarding lc h (Some g) \<noteq> Ok (Some g)))
    \<and> L \<subseteq> set (rg_clients (as_registry s)) \<and> metric_get (st_client_connections (as_stats s)) = of_nat (card L)
    \<and> (\<forall>k u v rx. c_http_requests (the_client s k) u = Some rx \<and> c_http_requests (the_client s k) v = Some rx
         \<longrightarrow> u = v)"
proof -
  have start: "world_ok (app_state_new l h st opts, {})" "names_ok lc G h (fst (app_state_new l h st opts, {}))"
    using assms(2) registry_default_ok
    by (simp_all add: world_ok_def names_ok_def app_state_new_def clients_ok_def registry_default_def client_new_ok)
  have ok: "world_ok (s, L)" by (rule world_steps_ok [OF assms(3) start(1)])
  then have reg: "registry_ok (as_registry s)" and cl: "\<And>k. client_ok (the_client s k)"
    by (simp_all add: world_ok_def clients_ok_def)
  have names: "names_ok lc G h s"
    using world_steps_names [OF assms(3,1) start] by simp
  have "forwardable h x \<or> odd_name lc G h x" if "get_by_http_hostname x (as_registry s) = Some k" for x k
  proof -
    have "x \<in> rg_claimed (as_registry s)"
      using that owner_None [OF reg, of x] by auto
    then show ?thesis using names by (auto simp: names_ok_def)
  qed
  moreover have "u = v" if "c_http_requests (the_client s k) u = Some rx" "c_http_requests (the_client s k) v = Some rx" for k u v rx
    using cl [of k] that by (auto simp: client_ok_def table_ok_def)
  ultimately show ?thesis
    using ok owner_iff [OF reg] by (auto simp: world_ok_def odd_name_def admitted_def)
qed

text \<open>What the generator makes in the samples: a name that is fine, and one that is reserved.\<close>

definition sample_names :: "string set" where
  "sample_names = {''g-1'', ''api''}"

definition sample_empty :: app_state where
  "sample_empty = app_state_new sample_listen sample_hostnames stats_default
     \<lparr>opt_client_request_timeout_secs = 30, opt_send_welcome_message = False\<rparr>"

text \<open>A session that starts and opens a forwarding.\<close>

lemma sample_session:
  "\<exists>s1 s2. session_start sample_build sample_peer True sample_empty = (Ok 0, s1)
     \<and> world_step (map ascii_lower) no_messages sample_names sample_build (s1, {0}) (s2, {0})
     \<and> route s2 ''two.np.io'' = Some 0 \<and> sent_to s1 0 = [] \<and> c_ws_open (the_client s2 0)
     \<and> sent_to s2 0 = [S_HttpOpened \<lparr>hod_hostname = ''two.np.io'', hod_local_address = ho_local_address (ask ''two''),
          hod_error = None\<rparr>]"
proof -
  let ?lc = "map ascii_lower"
  let ?a = "\<lparr>ar_frame = Some (WsBinary []), ar_name = ''g-1'', ar_bind = \<lambda>_. None\<rparr>"
  obtain r s1 where st: "session_start sample_build sample_peer True sample_empty = (r, s1)" by fastforce
  have e: "registry_ok (as_registry sample_empty)" "rg_next (as_registry sample_empty) = 0"
    "as_hostnames sample_empty = sample_hostnames" "\<And>x. route sample_empty x = None"
    using registry_default_ok
    by (simp_all add: sample_empty_def app_state_new_def registry_default_def get_by_http_hostname_def)
  have r: "r = Inr 0"
    using session_start_result [of sample_build sample_peer True sample_empty] st e(2) by simp
  have s1: "registry_ok (as_registry s1)" "0 \<in> set (rg_clients (as_registry s1))" "\<And>x. route s1 x = None"
    using session_start_state(1,2,3) [OF e(1) st] e(2,4) by auto
  have h: "as_hostnames s1 = sample_hostnames" "c_ws_open (the_client s1 0)" "sent_to s1 0 = []"
    using st e(2,3) by (auto simp: session_start_def Let_def case_prod_unfold send_welcome_def register_def
        on_registry_def connections_inc_def sample_empty_def app_state_new_def registry_default_def client_new_def)
  let ?s2 = "snd (http_open_handler ?lc ''g-1'' 0 (ask ''two'') s1)"
  have "fst (http_open_handler ?lc ''g-1'' 0 (ask ''two'') s1) = Ok ()"
    using h(2) by (simp add: http_open_handler_def Let_def case_prod_unfold send_to_def client_send_def split: sum.splits)
  then have turn: "session_turn ?lc no_messages 0 ?a s1 = (Continue, ?s2)"
    by (simp add: session_turn_def client_recv_def recv_data_def no_messages_def msg_def case_prod_unfold)
  have sub: "subdomain_for_forwarding ?lc sample_hostnames (ho_hostname (ask ''two'')) = Ok (Some ''two'')"
    by code_simp
  have step: "world_step ?lc no_messages sample_names sample_build (s1, {0}) (?s2, {0})"
    by (rule message [OF _ _ turn]) (simp_all add: sample_names_def)
  have name: "full_hostname (as_hostnames s1) ''two'' = ''two.np.io''"
    by (simp add: h full_hostname_def sample_domain)
  have "route ?s2 ''two.np.io'' = Some 0"
    using http_open_free [OF s1(1,2), of ?lc "ask ''two''" "Some ''two''" "''g-1''", THEN fun_cong, of "''two.np.io''"] s1(3)
    by (simp add: h(1) sub name [unfolded h(1)])
  moreover have "''two.np.io'' \<notin> rg_claimed (as_registry s1)"
    using owner_None [OF s1(1)] s1(3) by blast
  note claim = claim_free [OF s1(1,2) this]
  have "http_open_handler ?lc ''g-1'' 0 (ask ''two'') s1 =
      send_to 0 (S_HttpOpened \<lparr>hod_hostname = ''two.np.io'', hod_local_address = ho_local_address (ask ''two''),
        hod_error = None\<rparr>) (hostnames_inc (snd (on_registry (claim_http_hostname 0 ''two.np.io'') s1)))"
    using http_open_accepted [OF sub [folded h(1)] refl, where k = 0 and name = "''g-1''"] claim(1) by (simp add: name)
  then have "c_ws_open (the_client ?s2 0)" "sent_to ?s2 0 = [S_HttpOpened \<lparr>hod_hostname = ''two.np.io'',
      hod_local_address = ho_local_address (ask ''two''), hod_error = None\<rparr>]"
    using h(2,3) by (simp_all add: send_to_def client_send_def)
  ultimately show ?thesis using st r step h(3) by blast
qed

theorem server_invariant_witness:
  "\<exists>s. (world_step (map ascii_lower) no_messages sample_names sample_build)\<^sup>*\<^sup>* (sample_empty, {}) (s, {0})
     \<and> get_by_http_hostname ''two.np.io'' (as_registry s) = Some 0 \<and> forwardable sample_hostnames ''two.np.io''
     \<and> metric_get (st_client_connections (as_stats s)) = 1"
proof -
  obtain s1 s2 where st: "session_start sample_build sample_peer True sample_empty = (Ok 0, s1)"
    and step: "world_step (map ascii_lower) no_messages sample_names sample_build (s1, {0}) (s2, {0})"
    and route: "route s2 ''two.np.io'' = Some 0"
    using sample_session by blast
  have "world_step (map ascii_lower) no_messages sample_names sample_build (sample_empty, {}) (s1, {0})"
    using session_starts [OF st] by blast
  then have reach: "(world_step (map ascii_lower) no_messages sample_names sample_build)\<^sup>*\<^sup>* (sample_empty, {}) (s2, {0})"
    using step by (meson converse_rtranclp_into_rtranclp r_into_rtranclp)
  have "full_hostname sample_hostnames g \<noteq> ''two.np.io''" if "g \<in> sample_names" for g
    using that by (auto simp: sample_names_def full_hostname_def sample_domain)
  then show ?thesis
    using server_invariant [OF lowercases_ascii _ reach [unfolded sample_empty_def]] reach route
    by (simp add: stats_default_def counted_metric_default_def metric_get_def) metis
qed

end
