(* ===== verification/Tunnel_World.thy ===== *)
theory Tunnel_World
  imports Server_World Np_Dispatch "HOL-Library.Sublist"
begin

text \<open>
  A server in any interleaving of its tasks (\<open>Server_World\<close>) and one client program that handles,
  one after the other, the messages the server has sent to it. The two keep their own record of
  the HTTP host names of that client: the registry of the server, and \<open>np\<close>'s table of forwardings.
  What the server tells is enough to keep them in agreement: \<open>promised\<close> reads the table off a list
  of messages, \<open>fits\<close> says which message may come next.
\<close>

section \<open>What the messages of the server promise\<close>

fun promise :: "server_message \<Rightarrow> (string \<rightharpoonup> addr) \<Rightarrow> (string \<rightharpoonup> addr)" where
  "promise (S_HttpOpened m) t =
     (if hod_error m = None then t(hod_hostname m \<mapsto> from_address (hod_local_address m)) else t)"
| "promise (S_HttpClosed m) t = (if hcd_error m = None then t(hcd_hostname m := None) else t)"
| "promise _ t = t"

definition promised :: "server_message list \<Rightarrow> string \<rightharpoonup> addr" where
  "promised ms = fold promise ms Map.empty"

lemma promised_simps [simp]:
  "promised [] = Map.empty" "promised (ms @ [m]) = promise m (promised ms)"
  by (simp_all add: promised_def)

text \<open>
  A name is opened only where it is not open, closed with success only where it is; a request
  comes only for an open name; a protocol of ports is a known one.
\<close>

fun fits :: "server_message \<Rightarrow> (string \<rightharpoonup> addr) \<Rightarrow> bool" where
  "fits (S_HttpOpened m) t = (hod_error m = None \<longrightarrow> t (hod_hostname m) = None)"
| "fits (S_HttpClosed m) t = (hcd_error m = None \<longleftrightarrow> t (hcd_hostname m) \<noteq> None)"
| "fits (S_HttpRequest q) t = (t (hq_hostname q) \<noteq> None)"
| "fits (S_PortOpened m) t = (port_protocol_try_from (pod_protocol m) \<noteq> None)"
| "fits (S_PortConnect m) t = (port_protocol_try_from (pct_protocol m) \<noteq> None)"
| "fits _ t = True"

text \<open>A request is taken even where it does not fit, and then answered with an error.\<close>

definition sound :: "server_message \<Rightarrow> (string \<rightharpoonup> addr) \<Rightarrow> bool" where
  "sound m t \<longleftrightarrow> fits m t \<or> (\<exists>q. m = S_HttpRequest q)"

lemma fits_sound: "fits m t \<Longrightarrow> sound m t"
  by (simp add: sound_def)

text \<open>Every message is in place after the ones before it.\<close>

definition in_order :: "('m \<Rightarrow> 'm list \<Rightarrow> bool) \<Rightarrow> 'm list \<Rightarrow> bool" where
  "in_order P ms \<longleftrightarrow> (\<forall>n < length ms. P (ms ! n) (take n ms))"

lemma in_order_simps [simp]:
  "in_order P []" "in_order P (ms @ [m]) \<longleftrightarrow> in_order P ms \<and> P m ms"
  by (auto simp: in_order_def nth_append less_Suc_eq)

lemma in_orderD: "\<lbrakk>in_order P ms; n < length ms\<rbrakk> \<Longrightarrow> P (ms ! n) (take n ms)"
  by (simp add: in_order_def)

abbreviation honest :: "server_message list \<Rightarrow> bool" where
  "honest \<equiv> in_order (\<lambda>m ms. fits m (promised ms))"

lemma take_prefix: "\<lbrakk>prefix ms ms'; n \<le> length ms\<rbrakk> \<Longrightarrow> take n ms' = take n ms \<and> n \<le> length ms'"
  by (auto simp: prefix_def)

text \<open>The object of a client: what it was told is honest and, while its socket lives, complete.\<close>

definition client_told :: "client \<Rightarrow> bool" where
  "client_told c \<longleftrightarrow> honest (c_ws_sent c) \<and> (c_ws_open c \<longrightarrow> c_hostnames c = dom (promised (c_ws_sent c)))"

lemma client_told_fits:
  "\<lbrakk>client_told c; n < length (c_ws_sent c)\<rbrakk> \<Longrightarrow> fits (c_ws_sent c ! n) (promised (take n (c_ws_sent c)))"
  by (simp add: client_told_def in_order_def)

lemma client_new_told: "client_told (client_new who)"
  by (simp add: client_told_def client_new_def)

text \<open>A message that is always in order and changes no name.\<close>

definition neutral :: "server_message \<Rightarrow> bool" where
  "neutral m \<longleftrightarrow> (\<forall>t. fits m t \<and> promise m t = t)"

lemma neutral_simps [simp]:
  "neutral (S_PortReceive pr)" "neutral (S_PortClose pc)" "neutral (S_Print p)"
  "neutral (S_PortConnect pct) \<longleftrightarrow> port_protocol_try_from (pct_protocol pct) \<noteq> None"
  "neutral (S_PortOpened pod) \<longleftrightarrow> port_protocol_try_from (pod_protocol pod) \<noteq> None"
  "hod_error hod \<noteq> None \<Longrightarrow> neutral (S_HttpOpened hod)"
  by (auto simp: neutral_def)

section \<open>Operations on a client\<close>

definition keeps_told :: "(client \<Rightarrow> 'a \<times> client) \<Rightarrow> bool" where
  "keeps_told f \<longleftrightarrow> (\<forall>c. (client_told c \<longrightarrow> client_told (snd (f c)))
     \<and> prefix (c_ws_sent c) (c_ws_sent (snd (f c))))"

lemma keeps_told_frame:
  assumes "\<And>c. c_ws_sent (snd (f c)) = c_ws_sent c" "\<And>c. c_hostnames (snd (f c)) = c_hostnames c"
    "\<And>c. c_ws_open (snd (f c)) \<Longrightarrow> c_ws_open c"
  shows "keeps_told f"
  unfolding keeps_told_def client_told_def using assms by simp

lemma keeps_told_send: "neutral m \<Longrightarrow> keeps_told (client_send m)"
  by (auto simp: keeps_told_def client_told_def client_send_def neutral_def)

lemma keeps_told_ops [simp, intro]:
  "keeps_told (register_http_request u)" "keeps_told (send_http_response r)"
  "keeps_told (register_connect_request u)" "keeps_told (send_connected_response cr)"
  "keeps_told (\<lambda>c. ((), register_port p c))" "keeps_told (port_writer_register u ch)"
  "keeps_told (port_writer_remove u)" "keeps_told (port_message u pm)" "keeps_told (client_port_receive pr)"
  "keeps_told (client_port_close pc)" "keeps_told (drop_receiver rx)" "keeps_told break_socket"
  "keeps_told (\<lambda>c. ((), client_drop c))"
  "keeps_told (\<lambda>c. ((), c\<lparr>c_port_writers := (c_port_writers c)(u \<mapsto> ch)\<rparr>))"
  "keeps_told (\<lambda>c. ((), c\<lparr>c_connect_channels := (c_connect_channels c)(rx := oneshot_drop_receiver (c_connect_channels c rx))\<rparr>))"
  by (rule keeps_told_frame;
      auto simp: register_http_request_def send_http_response_def register_connect_request_def
        send_connected_response_def register_port_def port_writer_register_def port_writer_remove_def
        port_message_def client_port_receive_def client_port_close_def drop_receiver_def break_socket_def
        client_drop_def Let_def split: option.splits poll.splits sum.splits if_splits)+

section \<open>Steps of the server\<close>

definition told :: "app_state \<Rightarrow> bool" where
  "told s \<longleftrightarrow> (\<forall>k. client_told (the_client s k))"

text \<open>A step that keeps everybody told; a client that exists only gets further messages.\<close>

definition telling :: "app_state \<Rightarrow> app_state \<Rightarrow> bool" where
  "telling s s' \<longleftrightarrow> (told s \<longrightarrow> told s') \<and> rg_next (as_registry s) \<le> rg_next (as_registry s')
     \<and> (\<forall>k < rg_next (as_registry s). prefix (sent_to s k) (sent_to s' k))"

lemma telling_refl [simp]: "telling s s"
  by (simp add: telling_def)

lemma telling_trans: "\<lbrakk>telling s s'; telling s' s''\<rbrakk> \<Longrightarrow> telling s s''"
  unfolding telling_def using order_less_le_trans prefix_order.order_trans by (metis order_trans)

lemma telling_on_client [simp]: "keeps_told f \<Longrightarrow> telling s (snd (on_client k f s))"
  by (auto simp: telling_def told_def keeps_told_def)

lemma telling_after: "\<lbrakk>keeps_told f; telling s s'\<rbrakk> \<Longrightarrow> telling s (snd (on_client k f s'))"
  using telling_trans telling_on_client by blast

lemma telling_send: "\<lbrakk>neutral m; telling s s'\<rbrakk> \<Longrightarrow> telling s (snd (send_to k m s'))"
  by (simp add: send_to_def keeps_told_send telling_after)

lemma telling_same:
  "as_registry s' = as_registry s'' \<Longrightarrow> telling s s' = telling s s''"
  by (simp add: telling_def told_def)

lemma telling_frames [simp]:
  "telling s (set_phase n ph s') = telling s s'" "telling s (ports_inc s') = telling s s'"
  "telling s (ports_dec s') = telling s s'" "telling s (hostnames_inc s') = telling s s'"
  "telling s (hostnames_dec s') = telling s s'" "telling s (connections_inc s') = telling s s'"
  "telling s (connections_dec s') = telling s s'"
  "telling s (s'\<lparr>as_listeners := ls\<rparr>) = telling s s'" "telling s (request_counter s') = telling s s'"
  by (rule telling_same; simp add: set_phase_def request_counter_def)+

lemma telling_send_metrics [simp]:
  "telling s (snd (send_to k m (hostnames_inc s'))) = telling s (snd (send_to k m s'))"
  "telling s (snd (send_to k m (hostnames_dec s'))) = telling s (snd (send_to k m s'))"
  by (rule telling_same; simp add: send_to_def on_client_def update_client_def case_prod_unfold Let_def)+

lemma telling_listener:
  assumes "listener_step ev n s = Some s'"
  shows "telling s s'"
proof -
  have connect: "telling s (serve_socket_connect n u a s)" for u a
    by (auto simp: serve_socket_connect_def Let_def case_prod_unfold port_protocol_try_from_def
        intro!: telling_after telling_send split: sum.splits)
  have answer: "telling s t" if "serve_socket_answer n s = Some (b, t)" for b t
    using that by (auto simp: serve_socket_answer_def Let_def split: listener_phase.splits poll.splits sum.splits
        if_splits prod.splits) (metis keeps_told_ops(6) telling_on_client snd_conv)+
  show ?thesis
    using assms connect answer
    by (auto simp: listener_step_def split: if_splits listener_event.splits listener_phase.splits poll.splits)
qed

text \<open>A request goes to a client that holds the name.\<close>

lemma drop_receiver_update:
  "(\<lambda>c. ((), c\<lparr>c_http_channels := (c_http_channels c)(rx := oneshot_drop_receiver (c_http_channels c rx))\<rparr>)) = drop_receiver rx"
  by (simp add: drop_receiver_def fun_eq_iff)

lemma request_told:
  assumes "client_told c" "hq_hostname q \<in> c_hostnames c"
  shows "client_told (snd (client_send (S_HttpRequest q) c))"
  using assms by (auto simp: client_told_def client_send_def)

lemma client_send_prefix: "prefix (c_ws_sent c) (c_ws_sent (snd (client_send m c)))"
  by (simp add: client_send_def)

lemma telling_visit:
  assumes visit: "enqueue_request uuid host r s = Return (res, s')" and ok: "registry_ok (as_registry s)"
  shows "telling s s'"
proof (cases "route s host")
  case None
  then show ?thesis using visit by (simp add: enqueue_request_def)
next
  case (Some k)
  let ?q = "http_request_of uuid host r s"
  let ?s1 = "snd (on_client k (register_http_request uuid) s)"
  let ?s2 = "snd (send_to k (S_HttpRequest ?q) ?s1)"
  have "host \<in> c_hostnames (the_client s k)"
    using owner_iff [OF ok] Some by (simp add: names_of_def)
  then have held: "hq_hostname ?q \<in> c_hostnames (the_client ?s1 k)"
    by (simp add: http_request_of_def register_http_request_def Let_def)
  have "telling ?s1 ?s2"
    using request_told [OF _ held]
    by (auto simp: telling_def told_def send_to_def client_send_prefix)
  then have two: "telling s ?s2"
    by (rule telling_trans [OF telling_on_client [OF keeps_told_ops(1)]])
  show ?thesis
    using visit two
    by (auto simp: enqueue_known [OF Some] drop_receiver_update Let_def case_prod_unfold intro!: telling_after split: sum.splits)
qed

lemma telling_release: "release_client k s = Some s' \<Longrightarrow> telling s s'"
  by (auto simp: release_client_def split: if_splits)

lemma telling_pump: "telling s (pump_end p k s)"
  by (simp add: pump_end_def)

lemma telling_put: "telling s (srv_put k u ch s)"
  by (simp add: srv_put_def)

lemma telling_task: "task_step s s' \<Longrightarrow> telling s s'"
  by (induction rule: task_step.induct)
    (auto intro: telling_listener telling_release telling_pump telling_put telling_send)

section \<open>Messages of the clients\<close>

text \<open>Claiming a name and telling the client; giving it up and telling the client.\<close>

lemma opened_told:
  assumes "client_told c" "h \<notin> c_hostnames c" "hod_hostname m = h" "hod_error m = None"
  shows "client_told (snd (client_send (S_HttpOpened m) (c\<lparr>c_hostnames := insert h (c_hostnames c)\<rparr>)))"
  using assms by (auto simp: client_told_def client_send_def)

lemma closed_told:
  assumes "client_told c" "hcd_hostname m = h" "hcd_error m = None \<longleftrightarrow> h \<in> c_hostnames c"
  shows "client_told (snd (client_send (S_HttpClosed m) (c\<lparr>c_hostnames := c_hostnames c - {h}\<rparr>)))"
  using assms by (auto simp: client_told_def client_send_def)

lemma on_registry_telling:
  assumes "rg_next (snd (f (as_registry s))) = rg_next (as_registry s)"
    and "\<And>j. j \<noteq> k \<Longrightarrow> rg_heap (snd (f (as_registry s))) j = the_client s j"
    and "client_told (the_client s k) \<Longrightarrow> client_told (snd (client_send m (rg_heap (snd (f (as_registry s))) k)))"
    and "c_ws_sent (rg_heap (snd (f (as_registry s))) k) = c_ws_sent (the_client s k)"
  shows "telling s (snd (send_to k m (snd (on_registry f s))))"
  using assms client_send_prefix [of "rg_heap (snd (f (as_registry s))) k" m]
  by (auto simp: telling_def told_def send_to_def)

lemma telling_http_open:
  assumes ok: "registry_ok (as_registry s)" and k: "k \<in> set (rg_clients (as_registry s))"
  shows "telling s (snd (http_open_handler lc name k req s))"
proof (cases "subdomain_for_forwarding lc (as_hostnames s) (ho_hostname req)")
  case (Inl e)
  then show ?thesis by (simp add: http_open_handler_def telling_send)
next
  case (Inr sub)
  let ?h = "full_hostname (as_hostnames s) (case sub of Some l \<Rightarrow> l | None \<Rightarrow> name)"
  let ?m = "\<lparr>hod_hostname = ?h, hod_local_address = ho_local_address req, hod_error = None\<rparr>"
  show ?thesis
  proof (cases "?h \<in> rg_claimed (as_registry s)")
    case True
    have "telling s (snd (on_registry (claim_http_hostname k ?h) s))"
      using telling_same [of "snd (on_registry (claim_http_hostname k ?h) s)" s s] claim_used [OF ok True, of k] by simp
    then show ?thesis
      using claim_used [OF ok True, of k] by (simp add: http_open_accepted [OF Inr refl] Let_def telling_send)
  next
    case False
    have free: "?h \<notin> c_hostnames (the_client s k)"
      using False k registry_okD(4) [OF ok] by (auto simp: names_of_def)
    have claim: "claim_http_hostname k ?h (as_registry s) = (True, (as_registry s)\<lparr>
        rg_claimed := insert ?h (rg_claimed (as_registry s)),
        rg_heap := (rg_heap (as_registry s))(k := (the_client s k)\<lparr>c_hostnames := insert ?h (c_hostnames (the_client s k))\<rparr>)\<rparr>)"
      using False by (simp add: claim_http_hostname_def claim_insert_def claim_add_def update_client_def add_http_hostname_def)
    have "telling s (snd (send_to k (S_HttpOpened ?m) (snd (on_registry (claim_http_hostname k ?h) s))))"
      by (rule on_registry_telling) (simp_all add: claim opened_told [OF _ free])
    then show ?thesis
      by (simp add: http_open_accepted [OF Inr refl] Let_def claim)
  qed
qed

lemma telling_http_close: "telling s (snd (http_close_handler k req s))"
proof -
  let ?h = "hc_hostname req"
  let ?held = "?h \<in> c_hostnames (the_client s k)"
  let ?m = "\<lparr>hcd_hostname = ?h, hcd_error = (if ?held then None else Some (http_close_error_code HttpCloseError_NotRegistered))\<rparr>"
  have release: "fst (release_http_hostname k ?h (as_registry s)) = ?held"
    "rg_heap (snd (release_http_hostname k ?h (as_registry s))) =
       (rg_heap (as_registry s))(k := (the_client s k)\<lparr>c_hostnames := c_hostnames (the_client s k) - {?h}\<rparr>)"
    "rg_next (snd (release_http_hostname k ?h (as_registry s))) = rg_next (as_registry s)"
    by (auto simp: release_http_hostname_def release_remove_def release_free_def update_client_def
        remove_http_hostname_def split: bool.splits)
  have "telling s (snd (send_to k (S_HttpClosed ?m) (snd (on_registry (release_http_hostname k ?h) s))))"
    by (rule on_registry_telling) (simp_all add: release closed_told del: http_close_error_code.simps)
  then show ?thesis
    by (cases ?held) (simp_all add: http_close_handler_def Let_def case_prod_unfold release)
qed

text \<open>The protocol of a port that a client asks for is a known one.\<close>

definition known_request :: "client_payload \<Rightarrow> bool" where
  "known_request payload \<longleftrightarrow>
     (case payload of Some (C_PortOpen req) \<Rightarrow> port_protocol_try_from (po_protocol req) \<noteq> None | _ \<Rightarrow> True)"

lemma telling_port_open:
  assumes "port_protocol_try_from (po_protocol req) \<noteq> None"
  shows "telling s (snd (port_open_handler lc bind k req s))"
proof -
  have server: "telling s (snd (port_server bind k hostname a s))" for hostname a
    by (simp add: port_server_def split: option.splits)
  show ?thesis
    using assms server
    by (auto simp: port_open_handler_def Let_def case_prod_unfold
        intro!: telling_send telling_after [OF keeps_told_ops(5)] split: sum.splits option.splits)
qed

lemma telling_msg:
  assumes "registry_ok (as_registry s)" "k \<in> set (rg_clients (as_registry s))" "known_request payload"
  shows "telling s (snd (msg lc name bind k payload s))"
  using assms(3) telling_http_open [OF assms(1,2)] telling_http_close telling_port_open
  by (auto simp: msg_def known_request_def http_response_handler_def port_connected_handler_def
      port_receive_handler_def port_close_handler_def split: option.splits client_message.splits)

text \<open>Every client is a program of this protocol: what decodes is a request with a known protocol.\<close>

definition known_clients :: "(bytes \<Rightarrow> client_payload option) \<Rightarrow> bool" where
  "known_clients decode \<longleftrightarrow> (\<forall>bs payload. decode bs = Some payload \<longrightarrow> known_request payload)"

lemma recv_known: "\<lbrakk>client_recv decode f = Inr payload; known_clients decode\<rbrakk> \<Longrightarrow> known_request payload"
  by (auto simp: client_recv_def recv_data_def known_clients_def split: option.splits ws_frame.splits)

lemma telling_turn:
  assumes "registry_ok (as_registry s)" "k \<in> set (rg_clients (as_registry s))" "known_clients decode"
  shows "telling s (snd (session_turn lc decode k a s))"
  using telling_msg [OF assms(1,2)] recv_known [OF _ assms(3)] by (simp add: turn_state split: sum.splits)

lemma telling_session_end: "telling s (session_end k s)"
proof -
  have "rg_heap (snd (deregister k r)) = rg_heap r" "rg_next (snd (deregister k r)) = rg_next r" for r
    by (auto simp: deregister_def deregister_list_def deregister_names_def split: option.splits)
  then show ?thesis
    by (simp add: session_end_def) (simp add: telling_def told_def)
qed

lemma telling_session_start:
  assumes "session_start b who ws_ok s = (r, s')"
  shows "telling s s'"
proof -
  let ?k = "rg_next (as_registry s)"
  let ?sa = "snd (on_registry (register who) s)"
  let ?sb = "snd (on_client ?k (\<lambda>c. ((), c\<lparr>c_ws_open := ws_ok\<rparr>)) ?sa)"
  have fresh: "client_told ((client_new who)\<lparr>c_ws_open := ws_ok\<rparr>)"
    by (simp add: client_told_def client_new_def)
  have "telling s ?sb"
    using fresh by (auto simp: telling_def told_def register_def)
  then have "telling s (snd (send_welcome b ?k ?sb))"
    by (simp add: send_welcome_def welcome_message_def telling_send)
  moreover have "as_registry s' = as_registry (snd (send_welcome b ?k ?sb))"
    using assms by (auto simp: session_start_def Let_def case_prod_unfold register_def split: sum.splits)
  ultimately show ?thesis using telling_same by blast
qed

lemma world_step_telling:
  assumes "world_step lc decode G b w w'" "known_clients decode" "world_ok w"
  shows "telling (fst w) (fst w')"
  using assms(1)
proof (cases rule: world_step.cases)
  case (message k L a s s')
  then have "registry_ok (as_registry s)" "k \<in> set (rg_clients (as_registry s))"
    using assms(3) by (auto simp: world_ok_def)
  then show ?thesis using message telling_turn [OF _ _ assms(2)] by (metis fst_conv snd_conv)
next
  case (session_ends k L a s s')
  then have "registry_ok (as_registry s)" "k \<in> set (rg_clients (as_registry s))"
    using assms(3) by (auto simp: world_ok_def)
  then have "telling s s'" using session_ends telling_turn [OF _ _ assms(2)] by (metis snd_conv)
  then show ?thesis using session_ends telling_trans [OF _ telling_session_end] by simp
next
  case (visit uuid host r s res s' L)
  then show ?thesis using assms(3) telling_visit by (simp add: world_ok_def)
qed (auto intro: telling_session_start telling_task)

section \<open>The client program\<close>

lemma np_forwardings_frames [simp]:
  "nc_http_forwardings (snd (np_send m c)) = nc_http_forwardings c"
  "nc_http_forwardings (snd (origin_insert h a c)) = nc_http_forwardings c"
  "nc_http_forwardings (snd (np_start tc u a c)) = nc_http_forwardings c"
  "nc_http_forwardings (snd (np_port_message u pm c)) = nc_http_forwardings c"
  "nc_http_forwardings (np_pump_end alive p c) = nc_http_forwardings c"
  "nc_http_forwardings (np_put u ch c) = nc_http_forwardings c"
  by (auto simp: np_send_def origin_insert_def np_start_def np_port_writer_register_def np_port_message_def
      np_pump_end_def np_port_writer_remove_def np_put_def split: option.splits poll.splits sum.splits)

lemma log_error_snd [simp]: "snd (log_error r) = snd r" "snd (log_error_poll q) = snd q"
  by (cases r, simp) (cases q rule: log_error_poll.cases; simp)

text \<open>A sound message is handled without a panic, and does to the table of \<open>np\<close> as it promises.\<close>

lemma np_message_sound:
  assumes "sound m (nc_http_forwardings c)"
  shows "\<exists>r c'. np_message env tc m c = Return (r, c') \<and> nc_http_forwardings c' = promise m (nc_http_forwardings c)"
proof -
  have ret: "\<exists>r c'. Return x = Return (r, c') \<and> P c'" if "P (snd x)" for x :: "'x \<times> np_client" and P
    using that by (cases x) simp
  have pair: "\<exists>r c'. x = (r, c') \<and> P c'" if "P (snd x)" for x :: "'x \<times> np_client" and P
    using that by (cases x) simp
  show ?thesis
  proof (cases m)
    case (S_HttpOpened opened)
    then show ?thesis
      using assms by (auto simp: sound_def np_message_def http_register_def http_insert_def intro!: ret split: option.splits)
  next
    case (S_HttpClosed closing)
    then show ?thesis
      using assms by (auto simp: sound_def np_message_def http_deregister_def intro!: ret)
  next
    case (S_HttpRequest q)
    then show ?thesis
      by (auto simp: np_message_def dispatch_request_def Let_def case_prod_unfold intro!: ret)
  next
    case (S_PortOpened opened)
    then show ?thesis
      using assms by (auto simp: sound_def np_message_def port_register_def port_origin_from_raw_def intro!: ret pair split: option.splits)
  next
    case (S_PortConnect connect)
    then show ?thesis
      using assms by (auto simp: sound_def np_message_def dispatch_connect_def port_connect_def port_origin_from_raw_def Let_def
          case_prod_unfold intro!: ret pair split: option.splits)
  qed (auto simp: np_message_def np_port_receive_def np_port_close_def intro!: ret pair)
qed

text \<open>Whatever the table of \<open>np\<close> holds, a message that is sound for some table is handled without a panic.\<close>

lemma np_message_returns:
  assumes "sound m t"
  shows "\<exists>r c'. np_message env tc m c = Return (r, c')"
proof (cases "(\<exists>x. m = S_PortOpened x) \<or> (\<exists>x. m = S_PortConnect x)")
  case True
  then have "sound m (nc_http_forwardings c)" using assms by (auto simp: sound_def)
  then show ?thesis using np_message_sound by blast
next
  case False
  then show ?thesis
    by (cases m) (auto simp: np_message_def split: prod.splits)
qed

section \<open>Server and client program together\<close>

text \<open>
  The state: that of the server, \<open>np\<close>, and how many of the messages for client \<open>k\<close> it has handled.
  \<open>np\<close> sends what it likes (the tunnels it opens, the answers, the data of its ports), its tasks
  take from and release their channels; what of it arrives at the server, and when, is up to the
  steps of the server. \<open>step\<close> is the step relation of the server, \<open>view\<close> the shared state in it.
\<close>

type_synonym 'w tunnel = "'w \<times> np_client \<times> nat"

inductive tunnel_step :: "('w \<Rightarrow> 'w \<Rightarrow> bool) \<Rightarrow> ('w \<Rightarrow> app_state) \<Rightarrow> hyper_env \<Rightarrow> (string \<Rightarrow> string option)
    \<Rightarrow> nat \<Rightarrow> 'w tunnel \<Rightarrow> 'w tunnel \<Rightarrow> bool" for step view env tc k where
  server_acts: "step w w' \<Longrightarrow> tunnel_step step view env tc k (w, c, n) (w', c, n)"
| np_handles: "\<lbrakk>n < length (sent_to (view w) k); np_message env tc (sent_to (view w) k ! n) c = Return (Ready r, c')\<rbrakk>
    \<Longrightarrow> tunnel_step step view env tc k (w, c, n) (w, c', n + 1)"
| np_sends: "tunnel_step step view env tc k (w, c, n) (w, snd (np_send m c), n)"
| np_takes: "np_chan u c = Some ch \<Longrightarrow> tunnel_step step view env tc k (w, c, n) (w, np_put u ch' c, n)"
| np_releases: "tunnel_step step view env tc k (w, c, n) (w, np_pump_end alive p c, n)"

text \<open>\<open>np\<close> has done what the first \<open>n\<close> messages for it say.\<close>

definition following :: "app_state \<Rightarrow> nat \<Rightarrow> np_client \<Rightarrow> nat \<Rightarrow> bool" where
  "following s k c n \<longleftrightarrow> k < rg_next (as_registry s) \<and> n \<le> length (sent_to s k)
     \<and> nc_http_forwardings c = promised (take n (sent_to s k))"

text \<open>The part of it that says nothing about the tables of \<open>np\<close>.\<close>

definition placed :: "app_state \<Rightarrow> nat \<Rightarrow> nat \<Rightarrow> bool" where
  "placed s k n \<longleftrightarrow> k < rg_next (as_registry s) \<and> n \<le> length (sent_to s k)"

text \<open>
  What a server must be for \<open>np\<close> to keep up with it: its steps keep an invariant and only append
  to what they have sent, and under the invariant every message is sound where it stands.
\<close>

locale telling_server =
  fixes step :: "'w \<Rightarrow> 'w \<Rightarrow> bool" and view :: "'w \<Rightarrow> app_state" and good :: "'w \<Rightarrow> bool"
  assumes keeps: "\<lbrakk>step w w'; good w\<rbrakk> \<Longrightarrow> good w'"
    and grows: "\<lbrakk>step w w'; good w\<rbrakk> \<Longrightarrow> rg_next (as_registry (view w)) \<le> rg_next (as_registry (view w'))
      \<and> (\<forall>k < rg_next (as_registry (view w)). prefix (sent_to (view w) k) (sent_to (view w') k))"
    and speaks: "\<lbrakk>good w; n < length (sent_to (view w) k)\<rbrakk>
      \<Longrightarrow> sound (sent_to (view w) k ! n) (promised (take n (sent_to (view w) k)))"
begin

lemma following_step:
  assumes "step w w'" "good w" "following (view w) k c n"
  shows "following (view w') k c n"
proof -
  have "prefix (sent_to (view w) k) (sent_to (view w') k)" "n \<le> length (sent_to (view w) k)"
    using grows [OF assms(1,2)] assms(3) by (simp_all add: following_def)
  from take_prefix [OF this] show ?thesis
    using grows [OF assms(1,2)] assms(3) by (simp add: following_def)
qed

lemma tunnel_step_keeps:
  assumes "tunnel_step step view env tc k t t'" "good (fst t)" "following (view (fst t)) k (fst (snd t)) (snd (snd t))"
  shows "good (fst t') \<and> following (view (fst t')) k (fst (snd t')) (snd (snd t'))"
  using assms(1)
proof (cases rule: tunnel_step.cases)
  case (server_acts w w' c n)
  then show ?thesis using assms(2,3) keeps following_step by auto
next
  case (np_handles n w c r c')
  have "sound (sent_to (view w) k ! n) (nc_http_forwardings c)"
    using speaks [of w n k] np_handles(3) assms(2,3) by (simp add: np_handles(1) following_def)
  from np_message_sound [OF this, of env tc]
  have "nc_http_forwardings c' = promise (sent_to (view w) k ! n) (nc_http_forwardings c)"
    using np_handles(4) by auto
  then show ?thesis
    using assms(2,3) np_handles(3) by (simp add: following_def np_handles(1,2) take_Suc_conv_app_nth)
qed (use assms(2,3) in \<open>auto simp: following_def\<close>)

lemma tunnel_steps_keep:
  assumes "(tunnel_step step view env tc k)\<^sup>*\<^sup>* (w0, c0, n0) (w, c, n)" "good w0" "following (view w0) k c0 n0"
  shows "good w" "following (view w) k c n"
proof -
  have "good (fst t) \<and> following (view (fst t)) k (fst (snd t)) (snd (snd t))"
    if "(tunnel_step step view env tc k)\<^sup>*\<^sup>* (w0, c0, n0) t" for t
    using that
  proof (induction rule: rtranclp_induct)
    case (step u v)
    then show ?case using tunnel_step_keeps by blast
  qed (simp add: assms(2,3))
  from this [OF assms(1)] show "good w" "following (view w) k c n" by simp_all
qed

lemma tunnel_step_placed:
  assumes "tunnel_step step view env tc k u v" "good (fst u)" "placed (view (fst u)) k (snd (snd u))"
  shows "good (fst v) \<and> placed (view (fst v)) k (snd (snd v))"
  using assms(1)
proof (cases rule: tunnel_step.cases)
  case (server_acts w w' c n)
  then have "prefix (sent_to (view w) k) (sent_to (view w') k)" "n \<le> length (sent_to (view w) k)"
    "rg_next (as_registry (view w)) \<le> rg_next (as_registry (view w'))" "k < rg_next (as_registry (view w))"
    using grows [of w w'] assms(2,3) by (simp_all add: placed_def)
  then show ?thesis
    using server_acts assms(2) keeps prefix_length_le [of "sent_to (view w) k" "sent_to (view w') k"]
    by (auto simp: placed_def)
qed (use assms(2,3) in \<open>auto simp: placed_def\<close>)

lemma tunnel_steps_placed:
  assumes "(tunnel_step step view env tc k)\<^sup>*\<^sup>* u v" "good (fst u)" "placed (view (fst u)) k (snd (snd u))"
  shows "good (fst v) \<and> placed (view (fst v)) k (snd (snd v))"
  using assms(1)
proof (induction rule: rtranclp_induct)
  case (step v w)
  then show ?case using tunnel_step_placed by blast
qed (simp add: assms(2,3))

text \<open>Whatever state \<open>np\<close> is in.\<close>

lemma next_message_handled:
  assumes "good w" "n < length (sent_to (view w) k)"
  shows "\<exists>r c'. np_message env tc (sent_to (view w) k ! n) c = Return (r, c')"
  using speaks [OF assms] by (rule np_message_returns)

end

text \<open>The server with handlers that are atomic.\<close>

definition world_good :: "(string \<Rightarrow> string) \<Rightarrow> (bytes \<Rightarrow> client_payload option) \<Rightarrow> world \<Rightarrow> bool" where
  "world_good lc decode w \<longleftrightarrow> lowercases lc \<and> known_clients decode \<and> world_ok w \<and> told (fst w)"

interpretation world_server: telling_server "world_step lc decode G b" fst "world_good lc decode" for lc decode G b
  by unfold_locales
    (auto dest: world_step_telling world_step_ok simp: world_good_def telling_def told_def intro: client_told_fits fits_sound)

section \<open>The two programs agree\<close>

lemma world_steps_telling:
  assumes "(world_step lc decode G b)\<^sup>*\<^sup>* w w'" "lowercases lc" "known_clients decode" "world_ok w" "told (fst w)"
  shows "told (fst w')"
  using assms(1)
proof (induction rule: rtranclp_induct)
  case (step v w')
  have "world_ok v" by (rule world_steps_ok [OF step(1) assms(4)])
  then show ?case using world_step_telling [OF step(2) assms(3)] step.IH by (simp add: telling_def)
qed (rule assms(5))

lemma world_start_ok: "metric_get (st_client_connections st) = 0 \<Longrightarrow> world_ok (app_state_new l h st opts, {})"
  using registry_default_ok by (simp add: world_ok_def app_state_new_def clients_ok_def registry_default_def client_new_ok)

text \<open>A server that started empty and at some point accepts the session of \<open>k\<close>.\<close>

lemma tunnel_start_ok:
  assumes "lowercases lc" "known_clients decode" "metric_get (st_client_connections st) = 0"
    and before: "(world_step lc decode G b)\<^sup>*\<^sup>* (app_state_new l h st opts, {}) (s0, L0)"
    and start: "session_start b who True s0 = (Ok k, s1)"
  shows "world_good lc decode (s1, insert k L0)" "placed (fst (s1, insert k L0)) k 0"
proof -
  note init = world_start_ok [OF assms(3), of l h opts]
  have told: "told (app_state_new l h st opts)"
    by (simp add: told_def app_state_new_def registry_default_def client_new_told)
  have s0: "world_ok (s0, L0)" "told s0"
    using told world_steps_ok [OF before init] world_steps_telling [OF before assms(1,2) init] by simp_all
  have reg: "registry_ok (as_registry s0)" using s0(1) by (simp add: world_ok_def)
  note state = session_start_state [OF reg start]
  have "k \<in> set (rg_clients (as_registry s1))" using state(3,5) by blast
  then have "k < rg_next (as_registry s1)" using registry_okD(2) [OF state(1)] by blast
  moreover have "told s1" using telling_session_start [OF start] s0(2) by (simp add: telling_def)
  moreover have "world_ok (s1, insert k L0)" using session_start_world_ok [OF s0(1) start] by simp
  ultimately show "world_good lc decode (s1, insert k L0)" "placed (fst (s1, insert k L0)) k 0"
    using assms(1,2) by (simp_all add: world_good_def placed_def)
qed

lemma placed_following: "\<lbrakk>placed s k 0; nc_http_forwardings c = Map.empty\<rbrakk> \<Longrightarrow> following s k c 0"
  by (simp add: placed_def following_def)

lemma promised_from:
  "promised ms x = Some a \<Longrightarrow>
     \<exists>m. S_HttpOpened m \<in> set ms \<and> hod_hostname m = x \<and> hod_error m = None \<and> a = from_address (hod_local_address m)"
proof (induction ms rule: rev_induct)
  case (snoc m ms)
  then show ?case by (cases m) (auto split: if_splits)
qed simp

text \<open>
  The registry of the server and the table of \<open>np\<close> agree, whatever the server, its other
  clients, the visitors and \<open>np\<close> do, in any order. As long as the session lasts on an open socket,
  once \<open>np\<close> has handled all that was sent to it, it has a local address for exactly the host names
  that the server routes to it; before that, a visitor's request never reaches \<open>np\<close> ahead of the
  forwarding it needs. The address is the one that the server echoed when it opened the name.
  (The tables of \<open>np\<close> are empty at
  first, as they are in a new process and after \<open>disconnect\<close>. A handler of the server is one step
  here, which is why no request comes too early; \<open>Await_Steps\<close> has what can come in between.)
\<close>

theorem tunnels_agree:
  assumes "lowercases lc" "known_clients decode" "metric_get (st_client_connections st) = 0"
    and "(world_step lc decode G b)\<^sup>*\<^sup>* (app_state_new l h st opts, {}) (s0, L0)"
    and "session_start b who True s0 = (Ok k, s1)" "nc_http_forwardings c0 = Map.empty"
    and "(tunnel_step (world_step lc decode G b) fst env tc k)\<^sup>*\<^sup>* ((s1, insert k L0), c0, 0) ((s, L), c, n)"
  shows "(k \<in> L \<and> c_ws_open (the_client s k) \<and> n = length (sent_to s k) \<longrightarrow>
      (\<forall>x. nc_http_forwardings c x \<noteq> None \<longleftrightarrow> route s x = Some k))
    \<and> (\<forall>q. n < length (sent_to s k) \<and> sent_to s k ! n = S_HttpRequest q \<longrightarrow>
         nc_http_forwardings c (hq_hostname q) \<noteq> None)
    \<and> (\<forall>x a. nc_http_forwardings c x = Some a \<longrightarrow>
         (\<exists>m. S_HttpOpened m \<in> set (take n (sent_to s k)) \<and> hod_hostname m = x \<and> hod_error m = None
            \<and> a = from_address (hod_local_address m)))"
proof -
  note start = tunnel_start_ok [OF assms(1-5)]
  note run = world_server.tunnel_steps_keep [OF assms(7) start(1) placed_following [OF start(2) assms(6)]]
  have world: "world_ok (s, L)" and told: "client_told (the_client s k)"
    and tab: "nc_http_forwardings c = promised (take n (sent_to s k))"
    using run by (simp_all add: world_good_def following_def told_def)
  then have reg: "registry_ok (as_registry s)" by (simp add: world_ok_def)
  have "nc_http_forwardings c x \<noteq> None \<longleftrightarrow> route s x = Some k"
    if "k \<in> L" "c_ws_open (the_client s k)" "n = length (sent_to s k)" for x
  proof -
    have "k \<in> set (rg_clients (as_registry s))" using world that(1) by (auto simp: world_ok_def)
    moreover have "names_of (as_registry s) k = dom (nc_http_forwardings c)"
      using told that(2,3) tab by (simp add: names_of_def client_told_def)
    ultimately show ?thesis using owner_iff [OF reg, of x k] by (auto simp: dom_def)
  qed
  moreover have "nc_http_forwardings c (hq_hostname q) \<noteq> None"
    if "n < length (sent_to s k)" "sent_to s k ! n = S_HttpRequest q" for q
  proof -
    have "fits (sent_to s k ! n) (promised (take n (sent_to s k)))"
      using told that(1) by (simp add: client_told_fits)
    then show ?thesis using that(2) tab by simp
  qed
  ultimately show ?thesis using promised_from unfolding tab by metis
qed

text \<open>
  No message of the server can make \<open>np\<close> panic. In every state that the two reach together, the
  next message is well formed (its protocol of ports is a known one, it opens a name only where
  it is not open, it closes a name exactly where it is open), and \<open>np\<close> handles it to a result.
  What is assumed is that clients ask for ports with a known protocol, as \<open>np\<close> does.
\<close>

theorem np_never_panics:
  assumes "lowercases lc" "known_clients decode" "metric_get (st_client_connections st) = 0"
    and "(world_step lc decode G b)\<^sup>*\<^sup>* (app_state_new l h st opts, {}) (s0, L0)"
    and "session_start b who True s0 = (Ok k, s1)" "nc_http_forwardings c0 = Map.empty"
    and "(tunnel_step (world_step lc decode G b) fst env tc k)\<^sup>*\<^sup>* ((s1, insert k L0), c0, 0) ((s, L), c, n)"
    and "n < length (sent_to s k)"
  shows "fits (sent_to s k ! n) (nc_http_forwardings c)
    \<and> (\<exists>r c'. np_message env tc (sent_to s k ! n) c = Return (r, c'))"
proof -
  note start = tunnel_start_ok [OF assms(1-5)]
  note run = world_server.tunnel_steps_keep [OF assms(7) start(1) placed_following [OF start(2) assms(6)]]
  have "fits (sent_to s k ! n) (nc_http_forwardings c)"
    using run assms(8) by (simp add: world_good_def following_def told_def client_told_fits)
  then show ?thesis
    using world_server.next_message_handled [OF run(1)] assms(8) by simp
qed

text \<open>A program that has opened one forwarding.\<close>

definition sample_fresh_np :: np_client where
  "sample_fresh_np = sample_np\<lparr>nc_http_forwardings := Map.empty\<rparr>"

lemma sample_known: "known_clients no_messages"
  by (auto simp: known_clients_def no_messages_def known_request_def)

lemma sample_tunnel:
  "\<exists>s1 s2 c. session_start sample_build sample_peer True sample_empty = (Ok 0, s1)
     \<and> (tunnel_step (world_step (map ascii_lower) no_messages sample_names sample_build) fst sample_hyper (\<lambda>_. None) 0)\<^sup>*\<^sup>*
         ((s1, {0}), sample_fresh_np, 0) ((s2, {0}), sample_fresh_np, 0)
     \<and> (tunnel_step (world_step (map ascii_lower) no_messages sample_names sample_build) fst sample_hyper (\<lambda>_. None) 0)\<^sup>*\<^sup>*
         ((s1, {0}), sample_fresh_np, 0) ((s2, {0}), c, 1)
     \<and> length (sent_to s2 0) = 1 \<and> c_ws_open (the_client s2 0) \<and> route s2 ''two.np.io'' = Some 0"
proof -
  obtain s1 s2 where st: "session_start sample_build sample_peer True sample_empty = (Ok 0, s1)"
    and step: "world_step (map ascii_lower) no_messages sample_names sample_build (s1, {0}) (s2, {0})"
    and route: "route s2 ''two.np.io'' = Some 0" "c_ws_open (the_client s2 0)"
    and sent: "sent_to s2 0 = [S_HttpOpened \<lparr>hod_hostname = ''two.np.io'', hod_local_address = ho_local_address (ask ''two''),
          hod_error = None\<rparr>]"
    using sample_session by blast
  obtain r c where h: "np_message sample_hyper (\<lambda>_. None) (sent_to s2 0 ! 0) sample_fresh_np = Return (Ready r, c)"
    by (simp add: sent np_message_def http_register_def)
      (metis log_error.simps surj_pair)
  have first: "tunnel_step (world_step (map ascii_lower) no_messages sample_names sample_build) fst sample_hyper (\<lambda>_. None) 0
      ((s1, {0}), sample_fresh_np, 0) ((s2, {0}), sample_fresh_np, 0)"
    by (rule server_acts) (rule step)
  have second: "tunnel_step (world_step (map ascii_lower) no_messages sample_names sample_build) fst sample_hyper (\<lambda>_. None) 0
      ((s2, {0}), sample_fresh_np, 0) ((s2, {0}), c, 0 + 1)"
    using h by (intro np_handles) (simp_all add: sent)
  have once: "(tunnel_step (world_step (map ascii_lower) no_messages sample_names sample_build) fst sample_hyper (\<lambda>_. None) 0)\<^sup>*\<^sup>*
      ((s1, {0}), sample_fresh_np, 0) ((s2, {0}), sample_fresh_np, 0)"
    by (rule r_into_rtranclp) (rule first)
  then have "(tunnel_step (world_step (map ascii_lower) no_messages sample_names sample_build) fst sample_hyper (\<lambda>_. None) 0)\<^sup>*\<^sup>*
      ((s1, {0}), sample_fresh_np, 0) ((s2, {0}), c, 0 + 1)"
    by (rule rtranclp.rtrancl_into_rtrancl) (rule second)
  then show ?thesis using st once route sent by (auto intro!: exI [of _ s1] exI [of _ s2] exI [of _ c])
qed

lemma sample_start:
  "metric_get (st_client_connections stats_default) = 0"
  "(world_step (map ascii_lower) no_messages sample_names sample_build)\<^sup>*\<^sup>*
     (app_state_new sample_listen sample_hostnames stats_default
        \<lparr>opt_client_request_timeout_secs = 30, opt_send_welcome_message = False\<rparr>, {}) (sample_empty, {})"
  "nc_http_forwardings sample_fresh_np = Map.empty"
  by (simp_all add: stats_default_def counted_metric_default_def metric_get_def sample_empty_def sample_fresh_np_def)

theorem tunnels_agree_witness:
  "\<exists>s1 s2 c. session_start sample_build sample_peer True sample_empty = (Ok 0, s1)
     \<and> (tunnel_step (world_step (map ascii_lower) no_messages sample_names sample_build) fst sample_hyper (\<lambda>_. None) 0)\<^sup>*\<^sup>*
         ((s1, {0}), sample_fresh_np, 0) ((s2, {0}), c, 1)
     \<and> nc_http_forwardings c ''two.np.io'' \<noteq> None"
proof -
  obtain s1 s2 c where t: "session_start sample_build sample_peer True sample_empty = (Ok 0, s1)"
    "(tunnel_step (world_step (map ascii_lower) no_messages sample_names sample_build) fst sample_hyper (\<lambda>_. None) 0)\<^sup>*\<^sup>*
         ((s1, {0}), sample_fresh_np, 0) ((s2, {0}), c, 1)"
    "length (sent_to s2 0) = 1" "c_ws_open (the_client s2 0)" "route s2 ''two.np.io'' = Some 0"
    using sample_tunnel by blast
  have "nc_http_forwardings c ''two.np.io'' \<noteq> None"
    using tunnels_agree [where L = "{0}" and n = 1, OF lowercases_ascii sample_known sample_start(1,2) t(1)
        sample_start(3) t(2)] t(3,4,5)
    by auto
  then show ?thesis using t(1,2) by blast
qed

theorem np_never_panics_witness:
  "\<exists>s1 s2. session_start sample_build sample_peer True sample_empty = (Ok 0, s1)
     \<and> (tunnel_step (world_step (map ascii_lower) no_messages sample_names sample_build) fst sample_hyper (\<lambda>_. None) 0)\<^sup>*\<^sup>*
         ((s1, {0}), sample_fresh_np, 0) ((s2, {0}), sample_fresh_np, 0)
     \<and> (\<exists>r c. np_message sample_hyper (\<lambda>_. None) (sent_to s2 0 ! 0) sample_fresh_np = Return (r, c))"
proof -
  obtain s1 s2 where t: "session_start sample_build sample_peer True sample_empty = (Ok 0, s1)"
    "(tunnel_step (world_step (map ascii_lower) no_messages sample_names sample_build) fst sample_hyper (\<lambda>_. None) 0)\<^sup>*\<^sup>*
         ((s1, {0}), sample_fresh_np, 0) ((s2, {0}), sample_fresh_np, 0)"
    "length (sent_to s2 0) = 1"
    using sample_tunnel by blast
  have "\<exists>r c. np_message sample_hyper (\<lambda>_. None) (sent_to s2 0 ! 0) sample_fresh_np = Return (r, c)"
    using np_never_panics [where L = "{0}" and n = 0, OF lowercases_ascii sample_known sample_start(1,2) t(1)
        sample_start(3) t(2)] t(3)
    by auto
  then show ?thesis using t(1,2) by blast
qed

section \<open>A request in the middle of an open\<close>

text \<open>
  C9. Between the claim of a host name and the message that it is open, the handler waits twice
  (for the lock and for the socket), and the name is already routed. The first conjunct splits the handler
  there. A visitor who comes in between is sent to the client ahead of \<open>HttpOpened\<close>; \<open>np\<close>
  handles its messages in order and has no forwarding of that name yet, so the visitor of a
  tunnel that is being opened without an error gets the page of a bad gateway.
\<close>

theorem early_request_refused:
  assumes ok: "registry_ok (as_registry s)" "k \<in> set (rg_clients (as_registry s))" "c_ws_open (the_client s k)"
    and sub: "subdomain_for_forwarding lc (as_hostnames s) (ho_hostname req) = Ok requested"
    and name: "host = full_hostname (as_hostnames s) (case requested of Some h \<Rightarrow> h | None \<Rightarrow> name)"
    and free: "host \<notin> rg_claimed (as_registry s)"
    and np: "nc_connection c = Some cn" "cn_open cn" "nc_http_forwardings c host = None"
  shows "\<exists>s1 s2 rx q c' resp.
      on_registry (claim_http_hostname k host) s = (True, s1)
    \<and> http_open_handler lc name k req s = send_to k (S_HttpOpened
          \<lparr>hod_hostname = host, hod_local_address = ho_local_address req, hod_error = None\<rparr>) (hostnames_inc s1)
    \<and> enqueue_request uuid host r s1 = Return (Ok (k, rx), s2)
    \<and> sent_to (snd (send_to k (S_HttpOpened
          \<lparr>hod_hostname = host, hod_local_address = ho_local_address req, hod_error = None\<rparr>) (hostnames_inc s2))) k
        = sent_to s k @ [S_HttpRequest q, S_HttpOpened
          \<lparr>hod_hostname = host, hod_local_address = ho_local_address req, hod_error = None\<rparr>]
    \<and> np_message env tc (S_HttpRequest q) c = Return (Ready (Ok ()), c')
    \<and> nc_connection c' = Some (cn\<lparr>cn_sent := cn_sent cn @ [C_HttpResponse resp]\<rparr>)
    \<and> resp = \<lparr>hr_uuid = uuid, hr_payload = Some (PayloadError (Some (ForwardingNotRegistered host)))\<rparr>
    \<and> (\<exists>body. forward_reply hn hv host (forward_request (Ok (k, rx)) (Received (Ok resp))) = Return (ErrorPage 502 host body))"
proof -
  note claim = claim_free [OF ok(1,2) free]
  define s1 where "s1 = snd (on_registry (claim_http_hostname k host) s)"
  have s1: "on_registry (claim_http_hostname k host) s = (True, s1)"
    using claim(1) by (simp add: s1_def on_registry_def case_prod_unfold)
  have handler: "http_open_handler lc name k req s = send_to k (S_HttpOpened
          \<lparr>hod_hostname = host, hod_local_address = ho_local_address req, hod_error = None\<rparr>) (hostnames_inc s1)"
    using s1 by (simp add: http_open_handler_def sub name full_hostname_def Let_def)
  have route: "route s1 host = Some k"
    using claim(3) by (simp add: s1_def fun_eq_iff)
  have ws: "c_ws_open (the_client s1 k)" "sent_to s1 k = sent_to s k"
    using ok(3) by (simp_all add: s1_def claim_http_hostname_def claim_insert_def claim_add_def update_client_def
        add_http_hostname_def split: bool.splits)
  let ?q = "http_request_of uuid host r s1"
  let ?sr = "snd (on_client k (register_http_request uuid) s1)"
  define s2 where "s2 = snd (send_to k (S_HttpRequest ?q) ?sr)"
  have enq: "enqueue_request uuid host r s1 = Return (Ok (k, c_next_channel (the_client s1 k)), s2)"
    unfolding s2_def by (rule enqueue_sends [OF route ws(1)])
  have wsr: "c_ws_open (the_client ?sr k)" "sent_to ?sr k = sent_to s k"
    using ws by (simp_all add: register_http_request_def Let_def)
  have s2: "c_ws_open (the_client (hostnames_inc s2) k)" "sent_to (hostnames_inc s2) k = sent_to s k @ [S_HttpRequest ?q]"
    using wsr by (simp_all add: s2_def send_to_def client_send_def)
  let ?resp = "\<lparr>hr_uuid = uuid, hr_payload = Some (PayloadError (Some (ForwardingNotRegistered host)))\<rparr>"
  have answer: "np_message env tc (S_HttpRequest ?q) c = Return (Ready (Ok ()),
      c\<lparr>nc_connection := Some (cn\<lparr>cn_sent := cn_sent cn @ [C_HttpResponse ?resp]\<rparr>)\<rparr>)"
    using np_send_open [OF np(1,2)] np(3)
    by (simp add: np_message_def dispatch_request_def send_request_def http_port_def http_request_of_def Let_def)
  show ?thesis
    using s1 handler enq answer s2 send_to_sent [OF s2(1)]
    by (intro exI [of _ s1] exI [of _ s2] exI [of _ "c_next_channel (the_client s1 k)"] exI [of _ ?q] exI
        [of _ "c\<lparr>nc_connection := Some (cn\<lparr>cn_sent := cn_sent cn @ [C_HttpResponse ?resp]\<rparr>)\<rparr>"] exI [of _ ?resp])
      (simp add: forward_reply_def forward_request_def)
qed

theorem early_request_refused_witness:
  "\<exists>s1 s2 rx q c' resp body.
      on_registry (claim_http_hostname 0 ''two.np.io'') sample_state = (True, s1)
    \<and> enqueue_request ''u1'' ''two.np.io'' sample_incoming s1 = Return (Ok (0, rx), s2)
    \<and> np_message sample_hyper (\<lambda>_. None) (S_HttpRequest q) sample_fresh_np = Return (Ready (Ok ()), c')
    \<and> forward_reply (\<lambda>n. Some n) (\<lambda>v. Some v) ''two.np.io'' (forward_request (Ok (0 :: nat, rx)) (Received (Ok resp)))
        = Return (ErrorPage 502 ''two.np.io'' body)"
proof -
  have free: "''two.np.io'' \<notin> rg_claimed (as_registry sample_state)" "0 \<in> set (rg_clients (as_registry sample_state))"
    using owner_None [OF sample_state_ok(1)] sample_state_ok(2,7) by auto
  have sub: "subdomain_for_forwarding (map ascii_lower) (as_hostnames sample_state) (ho_hostname (ask ''two'')) = Ok (Some ''two'')"
    unfolding sample_state_ok by code_simp
  have name: "''two.np.io'' = full_hostname (as_hostnames sample_state) (case Some ''two'' of Some h \<Rightarrow> h | None \<Rightarrow> ''g-1'')"
    by (simp add: sample_state_ok full_hostname_def sample_domain)
  have np: "nc_connection sample_fresh_np = Some \<lparr>cn_open = True, cn_sent = []\<rparr>" "nc_http_forwardings sample_fresh_np ''two.np.io'' = None"
    by (simp_all add: sample_fresh_np_def sample_np_connection)
  have up: "cn_open \<lparr>cn_open = True, cn_sent = []\<rparr>" by simp
  show ?thesis
    using early_request_refused [OF sample_state_ok(1) free(2) sample_state_ok(4) sub name free(1) np(1) up np(2),
        where uuid = "''u1''" and r = sample_incoming and env = sample_hyper and tc = "\<lambda>_. None"
          and hn = "\<lambda>n. Some n" and hv = "\<lambda>v. Some v"]
    by (elim exE conjE) (intro exI conjI; assumption)
qed

end
