(* ===== verification/Port_Agreement.thy ===== *)
theory Port_Agreement
  imports Tunnel_World
begin

text \<open>
  The TCP ports of a client, as the server and as \<open>np\<close> know them. The server has a listener for
  each; \<open>np\<close> has a table from the origin of a port (protocol, host and number) to the local address.
  The invariant: a listener whose client can be reached has been announced to it, and every
  connection is announced after its port.
\<close>

section \<open>What has been announced\<close>

fun opens :: "server_message \<Rightarrow> address option \<Rightarrow> bool" where
  "opens (S_PortOpened p) a \<longleftrightarrow>
     pod_error p = None \<and> port_protocol_try_from (pod_protocol p) \<noteq> None \<and> pod_remote_address p = a"
| "opens _ a \<longleftrightarrow> False"

definition announced :: "server_message list \<Rightarrow> address option \<Rightarrow> bool" where
  "announced ms a \<longleftrightarrow> (\<exists>m \<in> set ms. opens m a)"

lemma announced_simps [simp]:
  "\<not> announced [] a" "announced (ms @ ms') a \<longleftrightarrow> announced ms a \<or> announced ms' a"
  "announced [m] a \<longleftrightarrow> opens m a"
  by (auto simp: announced_def)

fun after_port :: "server_message \<Rightarrow> server_message list \<Rightarrow> bool" where
  "after_port (S_PortConnect m) ms \<longleftrightarrow>
     port_protocol_try_from (pct_protocol m) \<noteq> None \<and> announced ms (pct_remote_address m)"
| "after_port _ ms \<longleftrightarrow> True"

definition listener_ids :: "app_state \<Rightarrow> (nat \<times> addr) list" where
  "listener_ids s = map (\<lambda>l. (ls_client l, ls_remote_addr l)) (as_listeners s)"

definition ports_told :: "app_state \<Rightarrow> bool" where
  "ports_told s \<longleftrightarrow> (\<forall>k. in_order after_port (sent_to s k))
     \<and> (\<forall>(k, a) \<in> set (listener_ids s). k < rg_next (as_registry s)
          \<and> (c_ws_open (the_client s k) \<longrightarrow> announced (sent_to s k) (Some (to_address a))))"

lemma ports_told_same:
  "\<lbrakk>as_registry s' = as_registry s; listener_ids s' = listener_ids s\<rbrakk> \<Longrightarrow> ports_told s' = ports_told s"
  by (simp add: ports_told_def)

lemma map_update_same: "f y = f (xs ! n) \<Longrightarrow> map f (xs[n := y]) = map f xs"
  by (cases "n < length xs") (simp_all add: map_update list_update_same_conv list_update_beyond)

lemma listener_ids_frames [simp]:
  "listener_ids (set_phase n ph s) = listener_ids s" "listener_ids (snd (on_client k f s)) = listener_ids s"
  "listener_ids (snd (on_registry g s)) = listener_ids s" "listener_ids (snd (send_to k m s)) = listener_ids s"
  "listener_ids (ports_inc s) = listener_ids s" "listener_ids (ports_dec s) = listener_ids s"
  "listener_ids (hostnames_inc s) = listener_ids s" "listener_ids (hostnames_dec s) = listener_ids s"
  "listener_ids (connections_inc s) = listener_ids s" "listener_ids (connections_dec s) = listener_ids s"
  "listener_ids (request_counter s) = listener_ids s"
  by (simp_all add: listener_ids_def set_phase_def map_update_same request_counter_def on_registry_def case_prod_unfold Let_def
      ports_inc_def ports_dec_def hostnames_inc_def hostnames_dec_def connections_inc_def connections_dec_def)

lemma listener_ids_drop:
  "map (\<lambda>l. (ls_client l, ls_remote_addr l)) (fold port_drop ps ls) = map (\<lambda>l. (ls_client l, ls_remote_addr l)) ls"
  by (induction ps arbitrary: ls) (simp_all add: port_drop_def map_update_same split: option.splits)

lemma ports_told_frames [simp]:
  "ports_told (set_phase n ph s) = ports_told s"
  "ports_told (ports_inc s) = ports_told s" "ports_told (ports_dec s) = ports_told s"
  "ports_told (hostnames_inc s) = ports_told s" "ports_told (hostnames_dec s) = ports_told s"
  "ports_told (connections_inc s) = ports_told s" "ports_told (connections_dec s) = ports_told s"
  by (rule ports_told_same; simp | simp add: set_phase_def)+

lemma ports_told_request_counter [simp]: "ports_told (request_counter s) = ports_told s"
  by (simp add: ports_told_def request_counter_def listener_ids_def)

section \<open>Operations on a client\<close>

text \<open>An operation that announces no connection and never opens a socket again.\<close>

definition keeps_ports :: "(client \<Rightarrow> 'a \<times> client) \<Rightarrow> bool" where
  "keeps_ports f \<longleftrightarrow> (\<forall>c. (in_order after_port (c_ws_sent c) \<longrightarrow> in_order after_port (c_ws_sent (snd (f c))))
     \<and> prefix (c_ws_sent c) (c_ws_sent (snd (f c))) \<and> (c_ws_open (snd (f c)) \<longrightarrow> c_ws_open c))"

lemma keeps_ports_frame:
  "\<lbrakk>\<And>c. c_ws_sent (snd (f c)) = c_ws_sent c; \<And>c. c_ws_open (snd (f c)) \<Longrightarrow> c_ws_open c\<rbrakk> \<Longrightarrow> keeps_ports f"
  by (simp add: keeps_ports_def)

lemma keeps_ports_send: "(\<And>ms. after_port m ms) \<Longrightarrow> keeps_ports (client_send m)"
  by (simp add: keeps_ports_def client_send_def)

lemma keeps_ports_ops [simp, intro]:
  "keeps_ports (register_http_request u)" "keeps_ports (send_http_response r)"
  "keeps_ports (register_connect_request u)" "keeps_ports (send_connected_response cr)"
  "keeps_ports (\<lambda>c. ((), register_port p c))" "keeps_ports (port_writer_register u ch)"
  "keeps_ports (port_writer_remove u)" "keeps_ports (port_message u pm)" "keeps_ports (client_port_receive pr)"
  "keeps_ports (client_port_close pc)" "keeps_ports (drop_receiver rx)" "keeps_ports break_socket"
  "keeps_ports (\<lambda>c. ((), client_drop c))" "keeps_ports (add_http_hostname h)" "keeps_ports (remove_http_hostname h)"
  "keeps_ports (\<lambda>c. ((), c\<lparr>c_port_writers := (c_port_writers c)(u \<mapsto> ch)\<rparr>))"
  "keeps_ports (\<lambda>c. ((), c\<lparr>c_connect_channels := (c_connect_channels c)(rx := oneshot_drop_receiver (c_connect_channels c rx))\<rparr>))"
  by (rule keeps_ports_frame;
      auto simp: register_http_request_def send_http_response_def register_connect_request_def
        send_connected_response_def register_port_def port_writer_register_def port_writer_remove_def
        port_message_def client_port_receive_def client_port_close_def drop_receiver_def break_socket_def
        client_drop_def add_http_hostname_def remove_http_hostname_def Let_def
        split: option.splits poll.splits sum.splits if_splits)+

lemma announced_prefix: "\<lbrakk>announced ms a; prefix ms ms'\<rbrakk> \<Longrightarrow> announced ms' a"
  by (auto simp: prefix_def)

lemma ports_told_on_client:
  "\<lbrakk>keeps_ports f; ports_told s\<rbrakk> \<Longrightarrow> ports_told (snd (on_client k f s))"
  unfolding ports_told_def keeps_ports_def using announced_prefix by fastforce

section \<open>Steps of the server\<close>

lemma ports_told_send: "\<lbrakk>\<And>ms. after_port m ms; ports_told s\<rbrakk> \<Longrightarrow> ports_told (snd (send_to k m s))"
  by (simp add: send_to_def keeps_ports_send ports_told_on_client)

text \<open>A connection is announced to the client of a listener.\<close>

lemma ports_told_connect:
  assumes "ports_told s" "(k, a) \<in> set (listener_ids s)"
    and "port_protocol_try_from (pct_protocol m) \<noteq> None" "pct_remote_address m = Some (to_address a)"
  shows "ports_told (snd (send_to k (S_PortConnect m) s))"
  using assms unfolding ports_told_def
  by (fastforce simp: send_to_def client_send_def)

text \<open>A new listener is told to its client, or the client cannot be reached.\<close>

lemma ports_told_opened:
  assumes "ports_told s" "k < rg_next (as_registry s)" "opens (S_PortOpened m) (Some (to_address a))"
    and "as_registry s' = as_registry s" "listener_ids s' = listener_ids s @ [(k, a)]"
  shows "ports_told (snd (send_to k (S_PortOpened m) s'))"
  using assms unfolding ports_told_def
  by (fastforce simp: send_to_def client_send_def simp del: opens.simps)

lemma ports_told_listener:
  assumes step: "listener_step ev n s = Some s'" and told: "ports_told s"
  shows "ports_told s'"
proof -
  have connect: "ports_told (serve_socket_connect n u a s)" if "n < length (as_listeners s)" for u a
  proof -
    let ?l = "as_listeners s ! n"
    let ?k = "ls_client ?l"
    have "(?k, ls_remote_addr ?l) \<in> set (listener_ids s)"
      using that by (auto simp: listener_ids_def)
    then have "ports_told (snd (send_to ?k (S_PortConnect \<lparr>pct_uuid = u, pct_protocol = port_protocol_code Tcp,
        pct_remote_address = Some (to_address (ls_remote_addr ?l)),
        pct_from_address = Some (to_address (from_socket_addr a))\<rparr>) (snd (on_client ?k (register_connect_request u) s))))"
      using told by (intro ports_told_connect [where a = "ls_remote_addr ?l"]) (simp_all add: ports_told_on_client port_protocol_try_from_def)
    then show ?thesis
      using told by (auto simp: serve_socket_connect_def Let_def case_prod_unfold intro!: ports_told_on_client split: sum.splits)
  qed
  have answer: "ports_told t" if "serve_socket_answer n s = Some (b, t)" for b t
    using that told by (auto simp: serve_socket_answer_def Let_def split: listener_phase.splits poll.splits sum.splits
        if_splits prod.splits) (metis keeps_ports_ops(6) ports_told_on_client snd_conv)+
  show ?thesis
    using step told connect answer
    by (auto simp: listener_step_def split: if_splits listener_event.splits listener_phase.splits poll.splits)
qed

lemma ports_told_port_open:
  assumes told: "ports_told s" and k: "k < rg_next (as_registry s)"
    and known: "port_protocol_try_from (po_protocol req) \<noteq> None"
  shows "ports_told (snd (port_open_handler lc bind k req s))"
proof -
  let ?bind = "bind (''0.0.0.0:'' @ show_nat (unat (addr_port (from_address (po_remote_address req)))))"
  show ?thesis
  proof (cases "validate_open lc (as_hostnames s) req")
    case (Inl e)
    then show ?thesis using told by (simp add: port_open_handler_def Let_def ports_told_send)
  next
    case (Inr u)
    show ?thesis
    proof (cases ?bind)
      case None
      then show ?thesis using told Inr by (simp add: port_open_handler_def port_server_def Let_def ports_told_send)
    next
      case (Some p)
      let ?a = "from_host_and_port (hn_tcp_hostname (as_hostnames s)) p"
      let ?port = "\<lparr>p_closer = Some (length (as_listeners s)), p_port = p\<rparr>"
      let ?s0 = "snd (on_client k (\<lambda>c. ((), register_port ?port c)) s)"
      let ?s1 = "snd (on_client k (\<lambda>c. ((), register_port ?port c)) (snd (port_server bind k
          (hn_tcp_hostname (as_hostnames s)) (from_address (po_remote_address req)) s)))"
      have "as_registry ?s1 = as_registry ?s0" "listener_ids ?s1 = listener_ids ?s0 @ [(k, ?a)]"
        using Some by (simp_all add: port_server_def on_client_def case_prod_unfold Let_def listener_ids_def)
      then have "ports_told (snd (send_to k (S_PortOpened \<lparr>pod_protocol = po_protocol req,
          pod_remote_address = Some (to_address ?a), pod_local_address = po_local_address req, pod_error = None\<rparr>) ?s1))"
        using told k known by (intro ports_told_opened [where s = ?s0 and a = ?a]) (simp_all add: ports_told_on_client)
      then show ?thesis
        using Inr Some by (simp add: port_open_handler_def port_server_def Let_def case_prod_unfold)
    qed
  qed
qed

lemma ports_told_heap:
  assumes "ports_told s" "listener_ids s' = listener_ids s" "rg_next (as_registry s') = rg_next (as_registry s)"
    and "\<And>j. c_ws_sent (the_client s' j) = c_ws_sent (the_client s j) \<and> c_ws_open (the_client s' j) = c_ws_open (the_client s j)"
  shows "ports_told s'"
  using assms by (simp add: ports_told_def)

lemma ports_told_names:
  assumes "ports_told s"
  shows "ports_told (snd (on_registry (claim_http_hostname k h) s))" "ports_told (snd (on_registry (release_http_hostname k h) s))"
    "ports_told (snd (on_registry (deregister k) s))"
  using assms
  by (auto intro!: ports_told_heap [OF assms] simp: claim_http_hostname_def claim_insert_def claim_add_def
      release_http_hostname_def release_remove_def release_free_def update_client_def add_http_hostname_def
      remove_http_hostname_def deregister_def deregister_list_def deregister_names_def
      split: bool.splits option.splits if_splits)

lemma ports_told_msg:
  assumes "ports_told s" "k < rg_next (as_registry s)" "known_request payload"
  shows "ports_told (snd (msg lc name bind k payload s))"
proof -
  have "ports_told (snd (http_open_handler lc name k req s))" for req
    using assms(1) ports_told_names(1) [OF assms(1)]
    by (auto simp: http_open_handler_def Let_def case_prod_unfold intro!: ports_told_send split: sum.splits)
  moreover have "ports_told (snd (http_close_handler k req s))" for req
    using ports_told_names(2) [OF assms(1)]
    by (auto simp: http_close_handler_def Let_def case_prod_unfold intro!: ports_told_send)
  ultimately show ?thesis
    using assms ports_told_port_open
    by (auto simp: msg_def known_request_def http_response_handler_def port_connected_handler_def ports_told_on_client
      port_receive_handler_def port_close_handler_def split: option.splits client_message.splits)
qed

lemma ports_told_turn:
  assumes "ports_told s" "k < rg_next (as_registry s)" "known_clients decode"
  shows "ports_told (snd (session_turn lc decode k a s))"
  using assms(1) ports_told_msg [OF assms(1,2)] recv_known [OF _ assms(3)] by (simp add: turn_state split: sum.splits)

lemma ports_told_session_end: "ports_told s \<Longrightarrow> ports_told (session_end k s)"
  using ports_told_names(3) by (simp add: session_end_def)

text \<open>The object of a new client is fresh, and no listener is there for it.\<close>

lemma ports_told_session_start:
  assumes start: "session_start b who ws_ok s = (r, s')" and told: "ports_told s"
  shows "ports_told s'"
proof -
  let ?k = "rg_next (as_registry s)"
  let ?sb = "snd (on_client ?k (\<lambda>c. ((), c\<lparr>c_ws_open := ws_ok\<rparr>)) (snd (on_registry (register who) s)))"
  have "ports_told ?sb"
    using told by (auto simp: ports_told_def register_def client_new_def)
  then have "ports_told (snd (send_welcome b ?k ?sb))"
    by (simp add: send_welcome_def welcome_message_def ports_told_send)
  then show ?thesis
    using start by (auto simp: session_start_def Let_def case_prod_unfold register_def split: sum.splits)
qed

lemma ports_told_visit:
  assumes "enqueue_request uuid host r s = Return (res, s')" "ports_told s"
  shows "ports_told s'"
proof (cases "route s host")
  case None
  then show ?thesis using assms by (simp add: enqueue_request_def)
next
  case (Some k)
  show ?thesis
    using assms by (auto simp: enqueue_known [OF Some] drop_receiver_update Let_def case_prod_unfold ports_told_on_client ports_told_send
        split: sum.splits)
qed

lemma ports_told_task: "\<lbrakk>task_step s s'; ports_told s\<rbrakk> \<Longrightarrow> ports_told s'"
proof (induction rule: task_step.induct)
  case (listener ev n s s')
  then show ?case by (rule ports_told_listener)
next
  case (released k s s')
  have "ports_told (snd (on_client k (\<lambda>c. ((), client_drop c)) s))"
    using released(2) by (simp add: ports_told_on_client)
  moreover have same: "as_registry s' = as_registry (snd (on_client k (\<lambda>c. ((), client_drop c)) s))"
    "listener_ids s' = listener_ids (snd (on_client k (\<lambda>c. ((), client_drop c)) s))"
    using released(1) by (auto simp: release_client_def listener_ids_def listener_ids_drop split: if_splits)
  ultimately show ?case using ports_told_same [OF same] by simp
qed (simp_all add: srv_put_def pump_end_def ports_told_on_client ports_told_send)

lemma world_step_ports:
  assumes step: "world_step lc decode G b w w'" and known: "known_clients decode" and ok: "world_ok w" and told: "ports_told (fst w)"
  shows "ports_told (fst w')"
  using step
proof (cases rule: world_step.cases)
  case (message k L a s s')
  then have "k < rg_next (as_registry s)" using ok registry_okD(2) by (auto simp: world_ok_def)
  then show ?thesis using message told ports_told_turn [OF _ _ known] by (metis fst_conv snd_conv)
next
  case (session_ends k L a s s')
  then have "k < rg_next (as_registry s)" using ok registry_okD(2) by (auto simp: world_ok_def)
  then show ?thesis using session_ends told ports_told_turn [OF _ _ known] ports_told_session_end by (metis fst_conv snd_conv)
next
  case (session_starts who ws_ok s k s' L)
  then show ?thesis using ports_told_session_start told by simp
next
  case (session_fails who ws_ok s e s' L)
  then show ?thesis using ports_told_session_start told by simp
next
  case (task s s' L)
  then show ?thesis using ports_told_task told by simp
next
  case (visit uuid host r s res s' L)
  then show ?thesis using ports_told_visit told by simp
qed

section \<open>The client program\<close>

text \<open>What a message does to the table of origins of \<open>np\<close>: the first local address of an origin stays.\<close>

fun port_promise :: "server_message \<Rightarrow> (string \<rightharpoonup> addr) \<Rightarrow> (string \<rightharpoonup> addr)" where
  "port_promise (S_PortOpened p) t =
     (case port_origin_from_raw (pod_protocol p) (pod_remote_address p) of
        Return origin \<Rightarrow> (if pod_error p = None \<and> t origin = None
           then t(origin \<mapsto> from_address (pod_local_address p)) else t)
      | _ \<Rightarrow> t)"
| "port_promise _ t = t"

lemma np_port_frames [simp]:
  "nc_port_forwardings (snd (np_send m c)) = nc_port_forwardings c"
  "nc_port_forwardings (snd (http_insert h a c)) = nc_port_forwardings c"
  "nc_port_forwardings (snd (np_start tc u a c)) = nc_port_forwardings c"
  "nc_port_forwardings (snd (np_port_message u pm c)) = nc_port_forwardings c"
  "nc_port_forwardings (np_pump_end alive p c) = nc_port_forwardings c"
  "nc_port_forwardings (np_put u ch c) = nc_port_forwardings c"
  by (auto simp: np_send_def http_insert_def np_start_def np_port_writer_register_def np_port_message_def
      np_pump_end_def np_port_writer_remove_def np_put_def split: option.splits poll.splits sum.splits)

lemma log_error_state: "log_error x = (r, c) \<Longrightarrow> c = snd x" "log_error_poll y = (q, c) \<Longrightarrow> c = snd y"
  by (metis log_error_snd(1) snd_conv) (metis log_error_snd(2) snd_conv)

lemma log_error_ready: "log_error x = (Ready (Ok ()), snd x)"
  by (cases x) simp

lemma np_message_ports:
  assumes "np_message env tc m c = Return (r, c')"
  shows "nc_port_forwardings c' = port_promise m (nc_port_forwardings c)"
  using assms
  by (cases m)
    (auto simp: np_message_def http_register_def http_deregister_def port_register_def origin_insert_def dispatch_request_def
        dispatch_connect_def port_connect_def np_port_receive_def np_port_close_def port_origin_from_raw_def
        Let_def case_prod_unfold
        dest!: log_error_state split: option.splits outcome.splits if_splits)

section \<open>The two programs agree on ports\<close>

text \<open>
  \<open>np\<close> has an entry for every port announced in the messages it has handled; an entry is from one
  of these messages, or from the table \<open>t0\<close> that \<open>np\<close> had before.
\<close>

definition ports_known :: "(string \<rightharpoonup> addr) \<Rightarrow> server_message list \<Rightarrow> (string \<rightharpoonup> addr) \<Rightarrow> bool" where
  "ports_known t0 ms t \<longleftrightarrow>
     (\<forall>a. announced ms a \<longrightarrow> t (port_origin Tcp (from_address a)) \<noteq> None)
   \<and> (\<forall>origin a. t origin = Some a \<longrightarrow> t0 origin = Some a \<or> (\<exists>p. S_PortOpened p \<in> set ms \<and> pod_error p = None
        \<and> port_origin_from_raw (pod_protocol p) (pod_remote_address p) = Return origin
        \<and> a = from_address (pod_local_address p)))"

lemma known_origin: "port_protocol_try_from c \<noteq> None \<Longrightarrow> port_origin_from_raw c a = Return (port_origin Tcp (from_address a))"
  by (cases "port_protocol_try_from c") (auto simp: port_origin_from_raw_def port_protocol_try_from_def split: if_splits)

lemma ports_known_step:
  assumes "ports_known t0 ms t"
  shows "ports_known t0 (ms @ [m]) (port_promise m t)"
proof (cases "\<exists>p. m = S_PortOpened p \<and> pod_error p = None \<and> port_protocol_try_from (pod_protocol p) \<noteq> None")
  case True
  then obtain p where p: "m = S_PortOpened p" "pod_error p = None" "port_protocol_try_from (pod_protocol p) \<noteq> None" by blast
  then show ?thesis
    using assms known_origin [OF p(3), of "pod_remote_address p"]
    unfolding ports_known_def by (fastforce split: if_splits)
next
  case False
  then have "port_promise m t = t" "\<not> opens m a" for a
    by (cases m; auto simp: port_origin_from_raw_def split: option.splits)+
  then show ?thesis using assms unfolding ports_known_def by fastforce
qed

definition ports_ok :: "(string \<rightharpoonup> addr) \<Rightarrow> nat \<Rightarrow> world tunnel \<Rightarrow> bool" where
  "ports_ok t0 k t = (case t of ((s, L), c, n) \<Rightarrow>
     ports_told s \<and> ports_known t0 (take n (sent_to s k)) (nc_port_forwardings c))"

lemma tunnel_step_ports:
  assumes step: "tunnel_step (world_step lc decode G b) fst env tc k ((s, L), c, n) t'"
    and good: "world_good lc decode (s, L)" "placed s k n" and ports: "ports_ok t0 k ((s, L), c, n)"
  shows "ports_ok t0 k t'"
  using step
proof (cases rule: tunnel_step.cases)
  case (server_acts w')
  obtain s' L' where w: "w' = (s', L')" by fastforce
  have "prefix (sent_to s k) (sent_to s' k)" "n \<le> length (sent_to s k)"
    using world_server.grows [OF server_acts(2) good(1)] good(2) by (simp_all add: w placed_def)
  note take_prefix [OF this]
  moreover have "ports_told s'"
    using world_step_ports [OF server_acts(2)] good(1) ports by (simp add: ports_ok_def world_good_def w)
  ultimately show ?thesis
    using ports by (simp add: ports_ok_def server_acts w)
next
  case (np_handles r c')
  then show ?thesis
    using ports np_message_ports [OF np_handles(3)] ports_known_step
    by (simp add: ports_ok_def take_Suc_conv_app_nth)
qed (use ports in \<open>simp_all add: ports_ok_def\<close>)

lemma tunnel_steps_ports:
  assumes run: "(tunnel_step (world_step lc decode G b) fst env tc k)\<^sup>*\<^sup>* ((s0, L0), c0, n0) t'"
    and start: "world_good lc decode (s0, L0)" "placed s0 k n0" "ports_ok t0 k ((s0, L0), c0, n0)"
  shows "ports_ok t0 k t'"
  using run
proof (induction rule: rtranclp_induct)
  case (step u v)
  obtain s L c n where u: "u = ((s, L), c, n)" by (cases u) auto
  have "world_good lc decode (s, L)" "placed s k n"
    using world_server.tunnel_steps_placed [OF step(1) [unfolded u]] start(1,2) by simp_all
  then show ?case
    using tunnel_step_ports [OF step(2) [unfolded u]] step.IH u by blast
qed (rule start(3))

lemma world_steps_ports:
  assumes run: "(world_step lc decode G b)\<^sup>*\<^sup>* w w'" and "known_clients decode"
    and start: "world_ok w" "ports_told (fst w)"
  shows "ports_told (fst w')"
  using run
proof (induction rule: rtranclp_induct)
  case (step u v)
  then show ?case using world_step_ports [OF step(2) assms(2)] world_steps_ok [OF step(1) start(1)] by blast
qed (rule start(2))

lemma ports_start:
  assumes "lowercases lc" "known_clients decode" "metric_get (st_client_connections st) = 0"
    and before: "(world_step lc decode G b)\<^sup>*\<^sup>* (app_state_new l h st opts, {}) (s0, L0)"
    and start: "session_start b who True s0 = (Ok k, s1)"
  shows "ports_told s1"
proof -
  have "ports_told (app_state_new l h st opts)"
    by (simp add: ports_told_def listener_ids_def app_state_new_def registry_default_def client_new_def)
  then show ?thesis
    using ports_told_session_start [OF start] world_steps_ports [OF before assms(2) world_start_ok [OF assms(3)]] by simp
qed

lemma port_origin_same:
  "port_origin Tcp a = port_origin Tcp a' \<longleftrightarrow> effective_host a = effective_host a' \<and> addr_port a = addr_port a'"
  using addr_to_string_inject [of a a'] by (auto simp: port_origin_def addr_to_string_effective)

text \<open>
  C7. Server and \<open>np\<close> agree on TCP ports, in any order of what the server, its clients, its visitors
  and \<open>np\<close> do, when every client asks for ports with a known protocol, as \<open>np\<close> does. A connection
  is never announced to \<open>np\<close> before the port it came to: \<open>PortOpened\<close> without an error, with the
  same remote address, is among the messages handled before. When \<open>np\<close> handles the announcement it
  finds a local address and connects there: one that the server echoed in this session when it
  opened a port of the same number and host, or one that \<open>np\<close> had for it before the session. In a
  new process, and after \<open>disconnect\<close>, there is no such entry; \<open>run\<close> comes back without
  \<open>disconnect\<close> after a failed read, and then an old address wins. As long as the socket is open, an
  \<open>np\<close> that has handled all that was sent has an entry for every listener of that client. (A
  handler of the server is one step here; between its awaits a connection can come first, and is
  then refused: see \<open>Early_Connection\<close>.)
\<close>

theorem ports_agree:
  assumes "lowercases lc" "known_clients decode" "metric_get (st_client_connections st) = 0"
    and "(world_step lc decode G b)\<^sup>*\<^sup>* (app_state_new l h st opts, {}) (s0, L0)"
    and "session_start b who True s0 = (Ok k, s1)"
    and run: "(tunnel_step (world_step lc decode G b) fst env tc k)\<^sup>*\<^sup>* ((s1, insert k L0), c0, 0) ((s, L), c, n)"
  shows "(\<forall>m. n < length (sent_to s k) \<and> sent_to s k ! n = S_PortConnect m \<longrightarrow>
      (\<exists>p. S_PortOpened p \<in> set (take n (sent_to s k)) \<and> pod_error p = None
         \<and> pod_remote_address p = pct_remote_address m)
    \<and> (\<exists>a. (\<forall>f. port_connect m f c = Return (f (pct_uuid m) a c))
         \<and> (nc_port_forwardings c0 (port_origin Tcp (from_address (pct_remote_address m))) = Some a
          \<or> (\<exists>p. S_PortOpened p \<in> set (take n (sent_to s k)) \<and> pod_error p = None
               \<and> effective_host (from_address (pod_remote_address p)) = effective_host (from_address (pct_remote_address m))
               \<and> addr_port (from_address (pod_remote_address p)) = addr_port (from_address (pct_remote_address m))
               \<and> a = from_address (pod_local_address p)))))
    \<and> (c_ws_open (the_client s k) \<and> n = length (sent_to s k) \<longrightarrow>
         (\<forall>l \<in> set (as_listeners s). ls_client l = k \<longrightarrow>
            nc_port_forwardings c (port_origin Tcp (ls_remote_addr l)) \<noteq> None))"
proof -
  let ?t0 = "nc_port_forwardings c0"
  note start = tunnel_start_ok [OF assms(1-5), unfolded fst_conv]
  have "ports_ok ?t0 k ((s1, insert k L0), c0, 0)"
    using ports_start [OF assms(1-5)] by (simp add: ports_ok_def ports_known_def)
  from tunnel_steps_ports [OF run start this]
  have told: "ports_told s" and tab: "ports_known ?t0 (take n (sent_to s k)) (nc_port_forwardings c)"
    by (simp_all add: ports_ok_def)
  have "(\<exists>p. S_PortOpened p \<in> set (take n (sent_to s k)) \<and> pod_error p = None
         \<and> pod_remote_address p = pct_remote_address m)
    \<and> (\<exists>a. (\<forall>f. port_connect m f c = Return (f (pct_uuid m) a c))
         \<and> (?t0 (port_origin Tcp (from_address (pct_remote_address m))) = Some a
          \<or> (\<exists>p. S_PortOpened p \<in> set (take n (sent_to s k)) \<and> pod_error p = None
               \<and> effective_host (from_address (pod_remote_address p)) = effective_host (from_address (pct_remote_address m))
               \<and> addr_port (from_address (pod_remote_address p)) = addr_port (from_address (pct_remote_address m))
               \<and> a = from_address (pod_local_address p))))"
    if "n < length (sent_to s k)" "sent_to s k ! n = S_PortConnect m" for m
  proof -
    let ?o = "port_origin Tcp (from_address (pct_remote_address m))"
    have m: "port_protocol_try_from (pct_protocol m) \<noteq> None" "announced (take n (sent_to s k)) (pct_remote_address m)"
      using told that in_orderD [of after_port "sent_to s k" n] by (simp_all add: ports_told_def)
    then obtain q where q: "q \<in> set (take n (sent_to s k))" "opens q (pct_remote_address m)"
      by (auto simp: announced_def)
    obtain a where a: "nc_port_forwardings c ?o = Some a" "?t0 ?o = Some a \<or> (\<exists>p. S_PortOpened p \<in> set (take n (sent_to s k))
        \<and> pod_error p = None \<and> port_origin_from_raw (pod_protocol p) (pod_remote_address p) = Return ?o
        \<and> a = from_address (pod_local_address p))"
      using tab m(2) unfolding ports_known_def by blast
    have same: "port_origin Tcp (from_address (pod_remote_address p)) = ?o"
      if "port_origin_from_raw (pod_protocol p) (pod_remote_address p) = Return ?o" for p
      using that by (auto simp: port_origin_from_raw_def port_protocol_try_from_def split: if_splits)
    have "port_connect m f c = Return (f (pct_uuid m) a c)" for f
      using a(1) known_origin [OF m(1)] by (simp add: port_connect_def)
    moreover have "?t0 ?o = Some a \<or> (\<exists>p. S_PortOpened p \<in> set (take n (sent_to s k)) \<and> pod_error p = None
               \<and> effective_host (from_address (pod_remote_address p)) = effective_host (from_address (pct_remote_address m))
               \<and> addr_port (from_address (pod_remote_address p)) = addr_port (from_address (pct_remote_address m))
               \<and> a = from_address (pod_local_address p))"
      using a(2) same unfolding port_origin_same by blast
    ultimately show ?thesis using q by (cases q) auto
  qed
  moreover have "nc_port_forwardings c (port_origin Tcp (ls_remote_addr l)) \<noteq> None"
    if "c_ws_open (the_client s k)" "n = length (sent_to s k)" "l \<in> set (as_listeners s)" "ls_client l = k" for l
  proof -
    have "(k, ls_remote_addr l) \<in> set (listener_ids s)"
      using that(3,4) by (auto simp: listener_ids_def)
    then have "announced (sent_to s k) (Some (to_address (ls_remote_addr l)))"
      using told that(1) by (auto simp: ports_told_def)
    then show ?thesis
      using tab that(2) by (auto simp: ports_known_def)
  qed
  ultimately show ?thesis by blast
qed

text \<open>A client opens a port, and a visitor connects to it before \<open>np\<close> has read anything.\<close>

definition sample_port_request :: port_open where
  "sample_port_request = \<lparr>po_protocol = port_protocol_code Tcp, po_remote_address = None,
     po_local_address = Some (to_address (from_port 22))\<rparr>"

definition asks_port :: "bytes \<Rightarrow> client_payload option" where
  "asks_port bs = (if bs = [] then Some (Some (C_PortOpen sample_port_request)) else None)"

lemma sample_port_run:
  "\<exists>s1 s3. session_start sample_build sample_peer True sample_empty = (Ok 0, s1)
     \<and> (world_step (map ascii_lower) asks_port sample_names sample_build)\<^sup>*\<^sup>* (s1, {0}) (s3, {0})
     \<and> (\<exists>p m. sent_to s3 0 = [S_PortOpened p, S_PortConnect m] \<and> port_protocol_try_from (pod_protocol p) \<noteq> None)"
proof -
  let ?a = "\<lparr>ar_frame = Some (WsBinary []), ar_name = ''g-1'', ar_bind = \<lambda>_. Some 4022\<rparr>"
  obtain r s1 where st: "session_start sample_build sample_peer True sample_empty = (r, s1)" by fastforce
  have r: "r = Inr 0"
    using session_start_result [of sample_build sample_peer True sample_empty] st
    by (simp add: sample_empty_def app_state_new_def registry_default_def)
  have s1: "as_hostnames s1 = sample_hostnames" "c_ws_open (the_client s1 0)" "sent_to s1 0 = []" "as_listeners s1 = []"
    "0 \<in> set (rg_clients (as_registry s1))"
    using st by (auto simp: session_start_def Let_def case_prod_unfold send_welcome_def register_def
        on_registry_def connections_inc_def sample_empty_def app_state_new_def registry_default_def client_new_def)
  define s2 where "s2 = snd (port_open_handler (map ascii_lower) (ar_bind ?a) 0 sample_port_request s1)"
  have run: "fst (port_open_handler (map ascii_lower) (ar_bind ?a) 0 sample_port_request s1) = Ok ()"
    "\<exists>p. sent_to s2 0 = [S_PortOpened p] \<and> port_protocol_try_from (pod_protocol p) \<noteq> None" "c_ws_open (the_client s2 0)" "0 \<in> set (rg_clients (as_registry s2))"
    "\<exists>cl a. as_listeners s2 = [\<lparr>ls_client = 0, ls_port = 4022, ls_remote_addr = a, ls_closer = cl, ls_phase = Accepting\<rparr>]"
    using s1 by (simp_all add: s2_def port_open_handler_def validate_open_def sample_port_request_def port_server_def Let_def
        send_to_def client_send_def register_port_def on_client_registry port_protocol_try_from_def)
  then obtain p cl a where s2: "sent_to s2 0 = [S_PortOpened p]" "port_protocol_try_from (pod_protocol p) \<noteq> None" "as_listeners s2 = [\<lparr>ls_client = 0, ls_port = 4022,
      ls_remote_addr = a, ls_closer = cl, ls_phase = Accepting\<rparr>]" by blast
  have "session_turn (map ascii_lower) asks_port 0 ?a s1 = (Continue, s2)"
    using run(1) by (simp add: session_turn_def client_recv_def recv_data_def asks_port_def msg_def case_prod_unfold s2_def)
  then have step1: "world_step (map ascii_lower) asks_port sample_names sample_build (s1, {0}) (s2, {0})"
    by (intro message [where a = ?a]) (simp_all add: sample_names_def)
  let ?s3 = "serve_socket_connect 0 ''u1'' sample_peer s2"
  have visiting: "world_step (map ascii_lower) asks_port sample_names sample_build (s2, {0}) (?s3, {0})"
    by (rule task, rule listener [where ev = "Accepted ''u1'' sample_peer" and n = 0]) (simp add: listener_step_def s2)
  have "\<exists>m. sent_to ?s3 0 = [S_PortOpened p, S_PortConnect m]"
    using run(3,4) s2 by (simp add: serve_socket_connect_def client_alive_def Let_def case_prod_unfold register_connect_request_def
        send_to_def client_send_def set_phase_def)
  moreover have "(world_step (map ascii_lower) asks_port sample_names sample_build)\<^sup>*\<^sup>* (s1, {0}) (?s3, {0})"
    using step1 visiting by (rule converse_rtranclp_into_rtranclp [OF _ r_into_rtranclp])
  ultimately show ?thesis using st r s2(2) by blast
qed

lemma world_steps_tunnel:
  "(world_step lc decode G b)\<^sup>*\<^sup>* w w' \<Longrightarrow> (tunnel_step (world_step lc decode G b) fst env tc k)\<^sup>*\<^sup>* (w, c, n) (w', c, n)"
  by (induction rule: rtranclp_induct) (auto intro: rtranclp.rtrancl_into_rtrancl server_acts)

lemma asks_port_known: "known_clients asks_port"
  by (simp add: known_clients_def asks_port_def known_request_def sample_port_request_def port_protocol_try_from_def)

definition sample_idle_np :: np_client where
  "sample_idle_np = sample_fresh_np\<lparr>nc_port_forwardings := Map.empty\<rparr>"

theorem ports_agree_witness:
  "\<exists>s1 s3 c m. session_start sample_build sample_peer True sample_empty = (Ok 0, s1)
     \<and> (tunnel_step (world_step (map ascii_lower) asks_port sample_names sample_build) fst sample_hyper (\<lambda>_. None) 0)\<^sup>*\<^sup>*
         ((s1, {0}), sample_idle_np, 0) ((s3, {0}), c, 1)
     \<and> sent_to s3 0 ! 1 = S_PortConnect m
     \<and> (\<exists>a. port_connect m (np_start (\<lambda>_. None)) c = Return (np_start (\<lambda>_. None) (pct_uuid m) a c))"
proof -
  obtain s1 s3 p m where s: "session_start sample_build sample_peer True sample_empty = (Ok 0, s1)"
    "(world_step (map ascii_lower) asks_port sample_names sample_build)\<^sup>*\<^sup>* (s1, {0}) (s3, {0})"
    "sent_to s3 0 = [S_PortOpened p, S_PortConnect m]" "port_protocol_try_from (pod_protocol p) \<noteq> None"
    using sample_port_run by blast
  have "\<exists>c. np_message sample_hyper (\<lambda>_. None) (S_PortOpened p) sample_idle_np = Return (Ready (Ok ()), c)"
    using s(4) by (cases "pod_error p") (auto simp: np_message_def port_register_def known_origin log_error_ready)
  then obtain r c where h: "np_message sample_hyper (\<lambda>_. None) (S_PortOpened p) sample_idle_np = Return (Ready r, c)" by blast
  have "tunnel_step (world_step (map ascii_lower) asks_port sample_names sample_build) fst sample_hyper (\<lambda>_. None) 0
      ((s3, {0}), sample_idle_np, 0) ((s3, {0}), c, 0 + 1)"
    using h s(3) by (intro np_handles) simp_all
  with world_steps_tunnel [OF s(2), of sample_hyper "\<lambda>_. None" 0 sample_idle_np 0]
  have run: "(tunnel_step (world_step (map ascii_lower) asks_port sample_names sample_build) fst sample_hyper (\<lambda>_. None) 0)\<^sup>*\<^sup>*
         ((s1, {0}), sample_idle_np, 0) ((s3, {0}), c, 1)"
    by (simp add: rtranclp.rtrancl_into_rtrancl)
  have before: "(world_step (map ascii_lower) asks_port sample_names sample_build)\<^sup>*\<^sup>*
     (app_state_new sample_listen sample_hostnames stats_default
        \<lparr>opt_client_request_timeout_secs = 30, opt_send_welcome_message = False\<rparr>, {}) (sample_empty, {})"
    by (simp add: sample_empty_def)
  have "sent_to s3 0 ! 1 = S_PortConnect m" by (simp add: s(3))
  moreover have "\<exists>a. port_connect m (np_start (\<lambda>_. None)) c = Return (np_start (\<lambda>_. None) (pct_uuid m) a c)"
    using ports_agree [where L = "{0}" and n = 1, OF lowercases_ascii asks_port_known sample_start(1) before s(1) run] s(3)
    by auto
  ultimately show ?thesis using s(1) run by blast
qed

end
