(* ===== verification/Await_Steps.thy ===== *)
theory Await_Steps
  imports Tunnel_World
begin

text \<open>
  The server at the granularity of its awaits. In \<open>Server_World\<close> a session handles a message in one
  step; here it stops wherever the code waits for a lock, for the operating system or for its socket,
  and anything may happen in between: the other sessions, the visitors, the tasks. A visitor's request
  stops as well: after the lookup of the host name, and after the registration of the request with the
  client that was found. What a session is in the middle of is its phase. The tasks of ports take the
  steps of \<open>Server_World\<close>.
\<close>

section \<open>Handlers in parts\<close>

datatype task_phase =
    At_Rest
  | Greeting server_message
  | Holding string http_open
  | Giving_Up string
  | Binding port_open "string \<Rightarrow> u16 option"
  | Registering port_open port
  | Telling server_message
  | Ending
  | Departing
  | Departed
  | Stranded

definition opened_message :: "string \<Rightarrow> http_open \<Rightarrow> http_open_error option \<Rightarrow> server_message" where
  "opened_message hostname req e = S_HttpOpened
     \<lparr>hod_hostname = hostname, hod_local_address = ho_local_address req, hod_error = map_option http_open_error_code e\<rparr>"

definition closed_message :: "string \<Rightarrow> http_close_error option \<Rightarrow> server_message" where
  "closed_message hostname e = S_HttpClosed \<lparr>hcd_hostname = hostname, hcd_error = map_option http_close_error_code e\<rparr>"

text \<open>\<open>http::open\<close> up to the lock on the claimed names, and from there to the message.\<close>

definition begin_open ::
  "(string \<Rightarrow> string) \<Rightarrow> string \<Rightarrow> http_open \<Rightarrow> app_state \<Rightarrow> task_phase \<times> app_state" where
  "begin_open lc name req s =
     (case subdomain_for_forwarding lc (as_hostnames s) (ho_hostname req) of
        Inl e \<Rightarrow> (Telling (opened_message (case ho_hostname req of Some h \<Rightarrow> h | None \<Rightarrow> []) req
                   (Some (validation_http_error e))), s)
      | Inr requested \<Rightarrow>
          (let subdomain = (case requested of Some h \<Rightarrow> h | None \<Rightarrow> name);
               domain = hn_domain (as_hostnames s);
               hostname = (if domain = [] then subdomain else subdomain @ dot # domain);
               (inserted, s1) = on_registry (claim_insert hostname) s
           in if inserted then (Holding hostname req, s1)
              else (Telling (opened_message hostname req (Some HttpOpenError_InUse)), s1)))"

definition finish_open :: "nat \<Rightarrow> string \<Rightarrow> http_open \<Rightarrow> app_state \<Rightarrow> task_phase \<times> app_state" where
  "finish_open k hostname req s =
     (Telling (opened_message hostname req None),
      hostnames_inc (snd (on_registry (\<lambda>r. ((), claim_add k hostname r)) s)))"

text \<open>\<open>http::close\<close>.\<close>

definition begin_close :: "nat \<Rightarrow> http_close \<Rightarrow> app_state \<Rightarrow> task_phase \<times> app_state" where
  "begin_close k close s =
     (let (removed, s1) = on_registry (release_remove k (hc_hostname close)) s
      in if removed then (Giving_Up (hc_hostname close), s1)
         else (Telling (closed_message (hc_hostname close) (Some HttpCloseError_NotRegistered)), s1))"

definition finish_close :: "string \<Rightarrow> app_state \<Rightarrow> task_phase \<times> app_state" where
  "finish_close hostname s =
     (Telling (closed_message hostname None),
      hostnames_dec (snd (on_registry (\<lambda>r. ((), release_free hostname r)) s)))"

text \<open>
  \<open>port::open\<close> in three parts: the validation up to the call of \<open>bind\<close>, from its return to the lock
  on the open ports of the client, and from there to the message.
\<close>

definition port_opened_message :: "string \<Rightarrow> port_open \<Rightarrow> port_open_error + u16 \<Rightarrow> server_message" where
  "port_opened_message hostname req result =
     (let p = (case ok_of result of Some p \<Rightarrow> p | None \<Rightarrow> addr_port (from_address (po_remote_address req)))
      in S_PortOpened
           \<lparr>pod_protocol = po_protocol req, pod_remote_address = Some (to_address (from_host_and_port hostname p)),
            pod_local_address = po_local_address req,
            pod_error = map_option port_open_error_code (err_of result)\<rparr>)"

definition begin_port_open ::
  "(string \<Rightarrow> string) \<Rightarrow> (string \<Rightarrow> u16 option) \<Rightarrow> port_open \<Rightarrow> app_state \<Rightarrow> task_phase \<times> app_state" where
  "begin_port_open lc bind req s =
     (case validate_open lc (as_hostnames s) req of
        Inl e \<Rightarrow> (Telling (port_opened_message (hn_tcp_hostname (as_hostnames s)) req (Err e)), s)
      | Inr _ \<Rightarrow> (Binding req bind, s))"

definition finish_bind ::
  "nat \<Rightarrow> port_open \<Rightarrow> (string \<Rightarrow> u16 option) \<Rightarrow> app_state \<Rightarrow> task_phase \<times> app_state" where
  "finish_bind k req bind s =
     (let hostname = hn_tcp_hostname (as_hostnames s)
      in case port_server bind k hostname (from_address (po_remote_address req)) s of
           (Some p, s') \<Rightarrow> (Registering req p, s')
         | (None, s') \<Rightarrow> (Telling (port_opened_message hostname req (Err PortOpenError_InUse)), s'))"

definition finish_register :: "nat \<Rightarrow> port_open \<Rightarrow> port \<Rightarrow> app_state \<Rightarrow> task_phase \<times> app_state" where
  "finish_register k req p s =
     (Telling (port_opened_message (hn_tcp_hostname (as_hostnames s)) req (Ok (p_port p))),
      snd (on_client k (\<lambda>c. ((), register_port p c)) s))"

text \<open>A session starts: it is registered, and stops to send the welcome message if there is one.\<close>

definition session_arrive ::
  "build_info \<Rightarrow> socket_addr \<Rightarrow> bool \<Rightarrow> app_state \<Rightarrow> nat \<times> task_phase \<times> app_state" where
  "session_arrive b who ws_ok s =
     (let (k, s1) = on_registry (register who) s;
          s2 = snd (on_client k (\<lambda>c. ((), c\<lparr>c_ws_open := ws_ok\<rparr>)) s1)
      in if opt_send_welcome_message (as_options s)
         then (k, Greeting (welcome_message b (hn_domain (as_hostnames s))), s2)
         else (k, At_Rest, connections_inc s2))"

text \<open>What a session does with a frame, up to its first wait; \<open>None\<close>: it has to wait for a channel.\<close>

definition session_begin ::
  "(string \<Rightarrow> string) \<Rightarrow> (bytes \<Rightarrow> client_payload option) \<Rightarrow> nat \<Rightarrow> arrival \<Rightarrow> app_state
   \<Rightarrow> (task_phase \<times> app_state) option" where
  "session_begin lc decode k a s =
     (case client_recv decode (ar_frame a) of
        Inl _ \<Rightarrow> Some (Ending, s)
      | Inr (Some (C_HttpOpen req)) \<Rightarrow> Some (begin_open lc (ar_name a) req s)
      | Inr (Some (C_HttpClose close)) \<Rightarrow> Some (begin_close k close s)
      | Inr (Some (C_PortOpen req)) \<Rightarrow> Some (begin_port_open lc (ar_bind a) req s)
      | Inr payload \<Rightarrow>
          (case msg lc (ar_name a) (ar_bind a) k payload s of
             (Ready (Inr _), s') \<Rightarrow> Some (At_Rest, s')
           | (Ready (Inl _), s') \<Rightarrow> Some (Ending, s')
           | (Pending, _) \<Rightarrow> None))"

text \<open>And from one wait to the next.\<close>

fun session_resume :: "nat \<Rightarrow> task_phase \<Rightarrow> app_state \<Rightarrow> (task_phase \<times> app_state) option" where
  "session_resume k (Greeting m) s =
     (case send_to k m s of (Inr _, s') \<Rightarrow> Some (At_Rest, connections_inc s') | (Inl _, s') \<Rightarrow> Some (Stranded, s'))"
| "session_resume k (Holding hostname req) s = Some (finish_open k hostname req s)"
| "session_resume k (Giving_Up hostname) s = Some (finish_close hostname s)"
| "session_resume k (Binding req bind) s = Some (finish_bind k req bind s)"
| "session_resume k (Registering req p) s = Some (finish_register k req p s)"
| "session_resume k (Telling m) s =
     (case send_to k m s of (Inr _, s') \<Rightarrow> Some (At_Rest, s') | (Inl _, s') \<Rightarrow> Some (Ending, s'))"
| "session_resume k Ending s =
     (case on_registry (deregister_list k) s of (True, s') \<Rightarrow> Some (Departing, s') | (False, s') \<Rightarrow> Some (Departed, connections_dec s'))"
| "session_resume k Departing s =
     Some (Departed, connections_dec (snd (on_registry (\<lambda>r. ((), deregister_names k r)) s)))"
| "session_resume k _ s = None"

text \<open>
  \<open>enqueue_request\<close> after its lookup: the registration with the client that was found, and the
  request to it.
\<close>

definition begin_request :: "nat \<Rightarrow> string \<Rightarrow> app_state \<Rightarrow> nat \<times> app_state" where
  "begin_request k uuid s = on_client k (register_http_request uuid) s"

definition finish_request ::
  "nat \<Rightarrow> http_request \<Rightarrow> nat \<Rightarrow> app_state \<Rightarrow> (server_error + nat \<times> nat) \<times> app_state" where
  "finish_request k q rx s =
     (case send_to k (S_HttpRequest q) s of
        (Inl e, s') \<Rightarrow> (Err e, snd (on_client k (drop_receiver rx) s'))
      | (Inr _, s') \<Rightarrow> (Ok (k, rx), s'))"

section \<open>The parts put together\<close>

text \<open>A handler from its first part on, with nothing in between.\<close>

definition resumes_to :: "nat \<Rightarrow> ((task_phase \<times> app_state) \<times> (task_phase \<times> app_state)) set" where
  "resumes_to k = {(u, v). session_resume k (fst u) (snd u) = Some v}"

lemma resumes_once: "session_resume k (fst u) (snd u) = Some v \<Longrightarrow> (u, v) \<in> (resumes_to k)\<^sup>*"
  by (auto simp: resumes_to_def)

lemma open_parts:
  "\<exists>m s'. (begin_open lc name req s, (Telling m, s')) \<in> (resumes_to k)\<^sup>* \<and> http_open_handler lc name k req s = send_to k m s'"
proof (cases "subdomain_for_forwarding lc (as_hostnames s) (ho_hostname req)")
  case (Inl e)
  then show ?thesis
    by (auto simp: begin_open_def http_open_handler_def opened_message_def)
next
  case (Inr requested)
  define h where "h = full_hostname (as_hostnames s) (case requested of Some h \<Rightarrow> h | None \<Rightarrow> name)"
  obtain b r where ins: "claim_insert h (as_registry s) = (b, r)" by fastforce
  show ?thesis
  proof (cases b)
    case True
    have "(begin_open lc name req s, finish_open k h req (s\<lparr>as_registry := r\<rparr>)) \<in> (resumes_to k)\<^sup>*"
      using Inr ins True by (intro resumes_once)
        (auto simp: begin_open_def on_registry_def Let_def h_def full_hostname_def)
    moreover have "http_open_handler lc name k req s = send_to k (opened_message h req None) (snd (finish_open k h req (s\<lparr>as_registry := r\<rparr>)))"
      using Inr ins True by (auto simp: http_open_handler_def opened_message_def finish_open_def on_registry_def
          claim_http_hostname_def Let_def h_def full_hostname_def)
    ultimately show ?thesis unfolding finish_open_def by auto
  next
    case False
    then show ?thesis
      using Inr ins by (auto simp: begin_open_def http_open_handler_def opened_message_def on_registry_def
          claim_http_hostname_def Let_def h_def full_hostname_def)
  qed
qed

lemma close_parts:
  "\<exists>m s'. (begin_close k close s, (Telling m, s')) \<in> (resumes_to k)\<^sup>* \<and> http_close_handler k close s = send_to k m s'"
proof -
  obtain b r where rem: "release_remove k (hc_hostname close) (as_registry s) = (b, r)" by fastforce
  show ?thesis
  proof (cases b)
    case True
    let ?s = "s\<lparr>as_registry := r\<rparr>"
    have "(begin_close k close s, finish_close (hc_hostname close) ?s) \<in> (resumes_to k)\<^sup>*"
      using rem True by (intro resumes_once) (auto simp: begin_close_def on_registry_def Let_def)
    moreover have "http_close_handler k close s = send_to k (closed_message (hc_hostname close) None) (snd (finish_close (hc_hostname close) ?s))"
      using rem True by (auto simp: http_close_handler_def closed_message_def finish_close_def on_registry_def
          release_http_hostname_def Let_def)
    ultimately show ?thesis unfolding finish_close_def by auto
  next
    case False
    then show ?thesis
      using rem by (auto simp: begin_close_def http_close_handler_def closed_message_def on_registry_def
          release_http_hostname_def Let_def)
  qed
qed

lemma port_server_hostnames: "as_hostnames (snd (port_server bind k hostname a s)) = as_hostnames s"
  by (simp add: port_server_def split: option.splits)

lemma port_open_parts:
  "\<exists>m s'. (begin_port_open lc bind req s, (Telling m, s')) \<in> (resumes_to k)\<^sup>*
     \<and> port_open_handler lc bind k req s = send_to k m s'"
proof (cases "validate_open lc (as_hostnames s) req")
  case (Inl e)
  then show ?thesis
    by (auto simp: begin_port_open_def port_open_handler_def port_opened_message_def Let_def)
next
  case (Inr u)
  obtain r s1 where ps: "port_server bind k (hn_tcp_hostname (as_hostnames s)) (from_address (po_remote_address req)) s = (r, s1)"
    by fastforce
  have h: "as_hostnames s1 = as_hostnames s" using port_server_hostnames ps by (metis snd_conv)
  have one: "(begin_port_open lc bind req s, finish_bind k req bind s) \<in> (resumes_to k)\<^sup>*"
    using Inr by (intro resumes_once) (simp add: begin_port_open_def)
  show ?thesis
  proof (cases r)
    case None
    then show ?thesis
      using one Inr ps by (auto simp: finish_bind_def port_open_handler_def port_opened_message_def Let_def)
  next
    case (Some p)
    have "(finish_bind k req bind s, finish_register k req p s1) \<in> (resumes_to k)\<^sup>*"
      using ps Some by (intro resumes_once) (simp add: finish_bind_def)
    with one have "(begin_port_open lc bind req s, finish_register k req p s1) \<in> (resumes_to k)\<^sup>*" by (rule rtrancl_trans)
    then show ?thesis
      using Inr ps Some h by (auto simp: finish_register_def port_open_handler_def port_opened_message_def Let_def)
  qed
qed

lemma request_parts:
  "route s hostname = Some k \<Longrightarrow> enqueue_request uuid hostname r s =
     Return (case begin_request k uuid s of (rx, s1) \<Rightarrow> finish_request k (http_request_of uuid hostname r s) rx s1)"
  by (simp add: enqueue_known begin_request_def finish_request_def drop_receiver_update Let_def case_prod_unfold split: sum.splits)

section \<open>The step relation\<close>

text \<open>
  The state: the shared state, the phase of each session, and the requests of visitors: a lookup that
  has found a client, and a request that is registered with it and about to be sent. (They are kept:
  a request may follow its lookup at any later time.) The lookup asks one client after the other, so
  it finds a client that has the name when it is asked. A session whose welcome message fails is
  \<open>Stranded\<close>: it has ended without leaving the list of clients.
\<close>

datatype visit =
    Found nat string
  | Asking nat http_request nat

type_synonym await_world = "app_state \<times> (nat \<Rightarrow> task_phase) \<times> visit set"

inductive await_step :: "(string \<Rightarrow> string) \<Rightarrow> (bytes \<Rightarrow> client_payload option) \<Rightarrow> build_info
    \<Rightarrow> await_world \<Rightarrow> await_world \<Rightarrow> bool" for lc decode b where
  arrives: "session_arrive b who ws_ok s = (k, p, s') \<Longrightarrow> await_step lc decode b (s, P, V) (s', P(k := p), V)"
| frame: "\<lbrakk>P k = At_Rest; session_begin lc decode k a s = Some (p, s')\<rbrakk> \<Longrightarrow> await_step lc decode b (s, P, V) (s', P(k := p), V)"
| resumes: "session_resume k (P k) s = Some (p, s') \<Longrightarrow> await_step lc decode b (s, P, V) (s', P(k := p), V)"
| looks_up: "\<lbrakk>k \<in> set (rg_clients (as_registry s)); has_http_hostname host (the_client s k)\<rbrakk>
    \<Longrightarrow> await_step lc decode b (s, P, V) (s, P, insert (Found k host) V)"
| registers: "\<lbrakk>Found k host \<in> V; begin_request k uuid s = (rx, s')\<rbrakk>
    \<Longrightarrow> await_step lc decode b (s, P, V) (s', P, insert (Asking k (http_request_of uuid host r s) rx) V)"
| asks: "Asking k q rx \<in> V \<Longrightarrow> await_step lc decode b (s, P, V) (snd (finish_request k q rx s), P, V)"
| beside: "task_step s s' \<Longrightarrow> await_step lc decode b (s, P, V) (s', P, V)"

text \<open>The names that the visitors of a set have found.\<close>

definition found :: "visit set \<Rightarrow> (nat \<times> string) set" where
  "found V = {(k, host). Found k host \<in> V}"

section \<open>What does not concern a session\<close>

text \<open>A message that is sound anywhere and changes no name: a neutral one, or a request for one of \<open>H\<close>.\<close>

definition hush :: "string set \<Rightarrow> server_message \<Rightarrow> bool" where
  "hush H m \<longleftrightarrow> neutral m \<or> (\<exists>q. m = S_HttpRequest q \<and> hq_hostname q \<in> H)"

lemma hush_sound: "hush H m \<Longrightarrow> sound m t \<and> promise m t = t"
  by (auto simp: hush_def neutral_def fits_sound sound_def)

lemma hush_request: "hush H (S_HttpRequest q) \<Longrightarrow> hq_hostname q \<in> H"
  by (auto simp: hush_def neutral_def)

lemma promised_hush: "(\<And>m. m \<in> set ms' \<Longrightarrow> hush H m) \<Longrightarrow> promised (ms @ ms') = promised ms"
proof (induction ms' rule: rev_induct)
  case (snoc m ms')
  then have "promised (ms @ ms') = promised ms" "hush H m" by simp_all
  then show ?case
    by (simp add: hush_sound flip: append_assoc)
qed simp

abbreviation sounds :: "server_message list \<Rightarrow> bool" where
  "sounds \<equiv> in_order (\<lambda>m ms. sound m (promised ms))"

lemma sounds_hush: "\<lbrakk>sounds ms; \<And>m. m \<in> set ms' \<Longrightarrow> hush H m\<rbrakk> \<Longrightarrow> sounds (ms @ ms')"
proof (induction ms' rule: rev_induct)
  case (snoc m ms')
  then have "sounds (ms @ ms')" "hush H m" by simp_all
  then show ?case using hush_sound by (simp flip: append_assoc)
qed simp

text \<open>The names of a client, given what it was told, and what its session may be about to say.\<close>

fun names_at :: "task_phase \<Rightarrow> (string \<rightharpoonup> addr) \<Rightarrow> string set" where
  "names_at (Giving_Up h) t = dom t - {h}"
| "names_at (Telling m) t = dom (promise m t)"
| "names_at _ t = dom t"

fun ready_to_say :: "task_phase \<Rightarrow> (string \<rightharpoonup> addr) \<Rightarrow> bool" where
  "ready_to_say (Giving_Up h) t \<longleftrightarrow> t h \<noteq> None"
| "ready_to_say (Greeting m) t \<longleftrightarrow> neutral m \<and> (\<forall>q. m \<noteq> S_HttpRequest q)"
| "ready_to_say (Binding req bind) t \<longleftrightarrow> port_protocol_try_from (po_protocol req) \<noteq> None"
| "ready_to_say (Registering req p) t \<longleftrightarrow> port_protocol_try_from (po_protocol req) \<noteq> None"
| "ready_to_say (Telling m) t \<longleftrightarrow> sound m t \<and> (\<forall>q. m \<noteq> S_HttpRequest q)"
| "ready_to_say _ t \<longleftrightarrow> True"

definition phase_told :: "task_phase \<Rightarrow> client \<Rightarrow> bool" where
  "phase_told p c \<longleftrightarrow> sounds (c_ws_sent c) \<and> (c_ws_open c \<longrightarrow>
     ready_to_say p (promised (c_ws_sent c)) \<and> c_hostnames c = names_at p (promised (c_ws_sent c)))"

text \<open>A change of a client object that says nothing about names, and asks at most for those in \<open>H\<close>.\<close>

definition calm :: "string set \<Rightarrow> client \<Rightarrow> client \<Rightarrow> bool" where
  "calm H c c' \<longleftrightarrow> c_hostnames c' = c_hostnames c \<and> (c_ws_open c' \<longrightarrow> c_ws_open c)
     \<and> (\<exists>ms. c_ws_sent c' = c_ws_sent c @ ms \<and> (\<forall>m \<in> set ms. hush H m))"

lemma calm_refl [simp]: "calm H c c"
  by (simp add: calm_def)

lemma calm_trans: "\<lbrakk>calm H c c'; calm H c' c''\<rbrakk> \<Longrightarrow> calm H c c''"
  by (auto simp: calm_def)

lemma calm_told: "\<lbrakk>calm H c c'; phase_told p c\<rbrakk> \<Longrightarrow> phase_told p c'"
  by (auto simp: calm_def phase_told_def promised_hush [of _ H] intro!: sounds_hush)

lemma calm_prefix: "calm H c c' \<Longrightarrow> prefix (c_ws_sent c) (c_ws_sent c')"
  by (auto simp: calm_def)

lemma calm_request:
  "\<lbrakk>calm H c c'; S_HttpRequest q \<in> set (c_ws_sent c')\<rbrakk> \<Longrightarrow> S_HttpRequest q \<in> set (c_ws_sent c) \<or> hq_hostname q \<in> H"
  by (auto simp: calm_def dest: hush_request)

text \<open>
  A step that is calm for every client and leaves the lists of the registry as they are; \<open>V\<close> says
  which names each client may be asked for.
\<close>

definition calm_step :: "(nat \<times> string) set \<Rightarrow> app_state \<Rightarrow> app_state \<Rightarrow> bool" where
  "calm_step V s s' \<longleftrightarrow> rg_next (as_registry s') = rg_next (as_registry s)
     \<and> rg_clients (as_registry s') = rg_clients (as_registry s) \<and> rg_claimed (as_registry s') = rg_claimed (as_registry s)
     \<and> (\<forall>k. calm (V `` {k}) (the_client s k) (the_client s' k))"

lemma calm_step_refl [simp]: "calm_step V s s"
  by (simp add: calm_step_def)

lemma calm_step_trans: "\<lbrakk>calm_step V s s'; calm_step V s' s''\<rbrakk> \<Longrightarrow> calm_step V s s''"
  unfolding calm_step_def by (metis calm_trans)

lemma calm_step_same: "as_registry s' = as_registry s'' \<Longrightarrow> calm_step V s s' = calm_step V s s''"
  by (simp add: calm_step_def)

lemma calm_step_frames [simp]:
  "calm_step V s (set_phase n ph s') = calm_step V s s'" "calm_step V s (ports_inc s') = calm_step V s s'"
  "calm_step V s (ports_dec s') = calm_step V s s'" "calm_step V s (s'\<lparr>as_listeners := ls\<rparr>) = calm_step V s s'"
  "calm_step V s (request_counter s') = calm_step V s s'"
  by (rule calm_step_same; simp add: set_phase_def request_counter_def)+

definition calm_op :: "(client \<Rightarrow> 'a \<times> client) \<Rightarrow> bool" where
  "calm_op f \<longleftrightarrow> (\<forall>H c. calm H c (snd (f c)))"

lemma calm_op_send: "neutral m \<Longrightarrow> calm_op (client_send m)"
  by (simp add: calm_op_def calm_def client_send_def hush_def)

lemma calm_ops [simp, intro]:
  "calm_op (register_http_request u)" "calm_op (send_http_response r)"
  "calm_op (register_connect_request u)" "calm_op (send_connected_response cr)"
  "calm_op (\<lambda>c. ((), register_port p c))" "calm_op (port_writer_register u ch)"
  "calm_op (port_writer_remove u)" "calm_op (port_message u pm)" "calm_op (client_port_receive pr)"
  "calm_op (client_port_close pc)" "calm_op (drop_receiver rx)" "calm_op break_socket"
  "calm_op (\<lambda>c. ((), client_drop c))"
  "calm_op (\<lambda>c. ((), c\<lparr>c_port_writers := (c_port_writers c)(u \<mapsto> ch)\<rparr>))"
  "calm_op (\<lambda>c. ((), c\<lparr>c_connect_channels := (c_connect_channels c)(rx := oneshot_drop_receiver (c_connect_channels c rx))\<rparr>))"
  by (auto simp: calm_op_def calm_def register_http_request_def send_http_response_def register_connect_request_def
      send_connected_response_def register_port_def port_writer_register_def port_writer_remove_def
      port_message_def client_port_receive_def client_port_close_def drop_receiver_def break_socket_def
      client_drop_def Let_def split: option.splits poll.splits sum.splits if_splits)

lemma calm_on_client [simp]: "calm_op f \<Longrightarrow> calm_step V s (snd (on_client k f s))"
  by (simp add: calm_step_def calm_op_def on_client_def update_client_def case_prod_unfold Let_def)

lemma calm_after: "\<lbrakk>calm_op f; calm_step V s s'\<rbrakk> \<Longrightarrow> calm_step V s (snd (on_client k f s'))"
  using calm_step_trans calm_on_client by blast

lemma calm_send: "\<lbrakk>neutral m; calm_step V s s'\<rbrakk> \<Longrightarrow> calm_step V s (snd (send_to k m s'))"
  by (simp add: send_to_def calm_op_send calm_after)

lemma calm_listener:
  assumes "listener_step ev n s = Some s'"
  shows "calm_step V s s'"
proof -
  have connect: "calm_step V s (serve_socket_connect n u a s)" for u a
    by (auto simp: serve_socket_connect_def Let_def case_prod_unfold port_protocol_try_from_def
        intro!: calm_after calm_send split: sum.splits)
  have answer: "calm_step V s t" if "serve_socket_answer n s = Some (b, t)" for b t
    using that by (auto simp: serve_socket_answer_def Let_def split: listener_phase.splits poll.splits sum.splits
        if_splits prod.splits) (metis calm_ops(6) calm_on_client snd_conv)+
  show ?thesis
    using assms connect answer
    by (auto simp: listener_step_def split: if_splits listener_event.splits listener_phase.splits poll.splits)
qed

lemma calm_task: "task_step s s' \<Longrightarrow> calm_step V s s'"
proof (induction rule: task_step.induct)
  case (listener ev n s s')
  then show ?case by (rule calm_listener)
next
  case (released k s s')
  then show ?case by (auto simp: release_client_def split: if_splits)
qed (auto simp: srv_put_def pump_end_def intro!: calm_send)

lemma calm_send_request: "(k, hq_hostname q) \<in> V \<Longrightarrow> calm_step V s (snd (send_to k (S_HttpRequest q) s))"
  by (simp add: send_to_def calm_step_def client_send_def calm_def hush_def)

lemma calm_finish_request: "(k, hq_hostname q) \<in> V \<Longrightarrow> calm_step V s (snd (finish_request k q rx s))"
  by (auto simp: finish_request_def case_prod_unfold
      intro!: calm_after calm_step_trans [OF _ calm_send_request] split: sum.splits)

lemma calm_begin_request: "calm_step V s (snd (begin_request k uuid s))"
  by (simp add: begin_request_def)

lemma port_opened_neutral:
  "port_protocol_try_from (po_protocol req) \<noteq> None \<Longrightarrow> neutral (port_opened_message hostname req r) \<and> port_opened_message hostname req r \<noteq> S_HttpRequest q"
  by (simp add: port_opened_message_def Let_def)

lemma calm_bind: "calm_step V s (snd (finish_bind k req bind s))"
  by (auto simp: finish_bind_def port_server_def Let_def split: option.splits)

lemma calm_register: "calm_step V s (snd (finish_register k req p s))"
  by (simp add: finish_register_def)

section \<open>The invariant\<close>

fun registry_phase :: "task_phase \<Rightarrow> phase" where
  "registry_phase (Holding h req) = Claiming h"
| "registry_phase (Giving_Up h) = Releasing h"
| "registry_phase Departing = Leaving"
| "registry_phase Departed = Gone"
| "registry_phase _ = Idle"

fun saying :: "task_phase \<Rightarrow> server_message list" where
  "saying (Telling m) = [m]"
| "saying _ = []"

definition opened_in :: "server_message list \<Rightarrow> string \<Rightarrow> bool" where
  "opened_in ms h \<longleftrightarrow> (\<exists>m. S_HttpOpened m \<in> set ms \<and> hod_error m = None \<and> hod_hostname m = h)"

definition await_ok :: "await_world \<Rightarrow> bool" where
  "await_ok w = (case w of (s, P, V) \<Rightarrow>
     steps_ok (as_registry s, registry_phase \<circ> P)
     \<and> (\<forall>k. P k \<noteq> Departed \<longrightarrow> k < rg_next (as_registry s))
     \<and> (\<forall>k. phase_told (P k) (the_client s k))
     \<and> (\<forall>k q. S_HttpRequest q \<in> set (sent_to s k) \<longrightarrow> (k, hq_hostname q) \<in> found V)
     \<and> (\<forall>k q rx. Asking k q rx \<in> V \<longrightarrow> (k, hq_hostname q) \<in> found V)
     \<and> (\<forall>(k, h) \<in> found V. k < rg_next (as_registry s)
          \<and> (c_ws_open (the_client s k) \<longrightarrow> opened_in (sent_to s k @ saying (P k)) h)))"

lemma opened_in_mono: "\<lbrakk>opened_in ms h; set ms \<subseteq> set ms'\<rbrakk> \<Longrightarrow> opened_in ms' h"
  by (auto simp: opened_in_def)

lemma calm_names: "calm_step V s s' \<Longrightarrow> names_of (as_registry s') = names_of (as_registry s)"
  by (simp add: calm_step_def calm_def names_of_def fun_eq_iff)

lemma calm_step_registry: "\<lbrakk>calm_step V s s'; steps_ok (as_registry s, ph)\<rbrakk> \<Longrightarrow> steps_ok (as_registry s', ph)"
  using refused_ok [of "as_registry s" ph "as_registry s'"] calm_names [of V s s'] by (simp add: calm_step_def)

lemma calm_await_ok:
  assumes "calm_step (found V) s s'" "await_ok (s, P, V)"
  shows "await_ok (s', P, V)"
proof -
  have c: "calm (found V `` {k}) (the_client s k) (the_client s' k)" for k
    using assms(1) by (simp add: calm_step_def)
  then have "opened_in (sent_to s' k @ saying (P k)) h" if "opened_in (sent_to s k @ saying (P k)) h" for k h
    using opened_in_mono [OF that, of "sent_to s' k @ saying (P k)"] set_mono_prefix [OF calm_prefix [OF c]] by auto
  moreover have "c_ws_open (the_client s' k) \<Longrightarrow> c_ws_open (the_client s k)" for k
    using c [of k] by (simp add: calm_def)
  moreover have "phase_told (P k) (the_client s' k)" for k
    using assms(2) calm_told [OF c] by (simp add: await_ok_def)
  moreover have "(k, hq_hostname q) \<in> found V" if "S_HttpRequest q \<in> set (sent_to s' k)" for k q
    using assms(2) calm_request [OF c that] by (auto simp: await_ok_def)
  moreover have "steps_ok (as_registry s', registry_phase \<circ> P)"
    using assms(2) calm_step_registry [OF assms(1)] by (simp add: await_ok_def)
  moreover have "rg_next (as_registry s') = rg_next (as_registry s)"
    using assms(1) by (simp add: calm_step_def)
  ultimately show ?thesis using assms(2) unfolding await_ok_def by fastforce
qed

text \<open>A step of the session of \<open>k\<close>.\<close>

lemma session_await_ok:
  assumes ok: "await_ok (s, P, V)" and k: "P k \<noteq> Departed"
    and reg: "steps_ok (as_registry s', (registry_phase \<circ> P)(k := registry_phase p))"
      "rg_next (as_registry s') = rg_next (as_registry s)"
    and others: "\<And>j. j \<noteq> k \<Longrightarrow> the_client s' j = the_client s j"
    and told: "phase_told p (the_client s' k)"
    and says: "c_ws_open (the_client s' k) \<Longrightarrow> c_ws_open (the_client s k)
        \<and> set (sent_to s k @ saying (P k)) \<subseteq> set (sent_to s' k @ saying p)"
    and asks: "\<And>q. S_HttpRequest q \<in> set (sent_to s' k) \<Longrightarrow> S_HttpRequest q \<in> set (sent_to s k)"
  shows "await_ok (s', P(k := p), V)"
proof -
  have "opened_in (sent_to s' k @ saying p) h" if "(k, h) \<in> found V" "c_ws_open (the_client s' k)" for h
  proof -
    have "opened_in (sent_to s k @ saying (P k)) h"
      using ok says that by (auto simp: await_ok_def)
    then show ?thesis using opened_in_mono says that(2) by blast
  qed
  moreover have "opened_in (sent_to s' j @ saying (P j)) h"
    if "(j, h) \<in> found V" "c_ws_open (the_client s' j)" "j \<noteq> k" for j h
    using ok that others [OF that(3)] by (auto simp: await_ok_def)
  ultimately have "\<forall>(j, h) \<in> found V. c_ws_open (the_client s' j) \<longrightarrow> opened_in (sent_to s' j @ saying ((P(k := p)) j)) h"
    by auto
  moreover have "phase_told ((P(k := p)) j) (the_client s' j)" for j
    using ok told others [of j] by (simp add: await_ok_def)
  moreover have "(j, hq_hostname q) \<in> found V" if "S_HttpRequest q \<in> set (sent_to s' j)" for j q
    using ok asks others [of j] that by (cases "j = k") (auto simp: await_ok_def)
  ultimately show ?thesis
    using ok k reg by (auto simp: await_ok_def fun_upd_comp)
qed

section \<open>Every step keeps the invariant\<close>

text \<open>What a session knows while it is at some phase.\<close>

lemma await_okD:
  assumes "await_ok (s, P, V)" "P k \<noteq> Departed"
  shows "steps_ok (as_registry s, registry_phase \<circ> P)" "k < rg_next (as_registry s)" "phase_told (P k) (the_client s k)"
  using assms by (simp_all add: await_ok_def)

text \<open>A step that only moves on: it changes nothing that is shared.\<close>

lemma await_ok_phase:
  assumes ok: "await_ok (s, P, V)" and k: "P k \<noteq> Departed"
    and "registry_phase p = registry_phase (P k)" "phase_told p (the_client s k)" "saying (P k) = []"
  shows "await_ok (s, P(k := p), V)"
proof (rule session_await_ok [OF ok k])
  show "steps_ok (as_registry s, (registry_phase \<circ> P)(k := registry_phase p))"
    using await_okD(1) [OF assms(1,2)] assms(3) by (simp add: fun_upd_idem)
qed (use assms in auto)

lemma begin_open_ok:
  assumes ok: "await_ok (s, P, V)" and rest: "P k = At_Rest" and part: "begin_open lc name req s = (p, s')"
  shows "await_ok (s', P(k := p), V)"
proof -
  have here: "P k \<noteq> Departed" using rest by simp
  note know = await_okD [OF ok here]
  have told: "phase_told At_Rest (the_client s k)" using know(3) rest by simp
  have refused: "await_ok (s, P(k := Telling (opened_message h req (Some e))), V)" for h e
    by (rule await_ok_phase [OF ok here])
      (use told rest in \<open>auto simp: phase_told_def opened_message_def sound_def\<close>)
  show ?thesis
  proof (cases "subdomain_for_forwarding lc (as_hostnames s) (ho_hostname req)")
    case (Inl e)
    then show ?thesis using part refused by (auto simp: begin_open_def)
  next
    case (Inr requested)
    define h where "h = full_hostname (as_hostnames s) (case requested of Some h \<Rightarrow> h | None \<Rightarrow> name)"
    obtain b r where ins: "claim_insert h (as_registry s) = (b, r)" by fastforce
    show ?thesis
    proof (cases b)
      case False
      then have "r = as_registry s" using ins claim_insert_refused [of h "as_registry s" r] by simp
      then have "s\<lparr>as_registry := r\<rparr> = s" by simp
      then show ?thesis
        using part Inr ins False refused by (auto simp: begin_open_def on_registry_def h_def full_hostname_def Let_def)
    next
      case True
      have p: "p = Holding h req" "s' = s\<lparr>as_registry := r\<rparr>"
        using part Inr ins True by (auto simp: begin_open_def on_registry_def h_def full_hostname_def Let_def)
      note f = claim_insert_fields [OF ins]
      show ?thesis unfolding p
      proof (rule session_await_ok [OF ok here])
        show "steps_ok (as_registry (s\<lparr>as_registry := r\<rparr>), (registry_phase \<circ> P)(k := registry_phase (Holding h req)))"
          using claim_first_ok [OF know(1,2)] ins True rest by simp
        show "phase_told (Holding h req) (the_client (s\<lparr>as_registry := r\<rparr>) k)"
          using told f by (simp add: phase_told_def)
      qed (use f rest in auto)
    qed
  qed
qed

text \<open>The heap after the steps of the registry.\<close>

lemma claim_add_heap: "rg_heap (claim_add k h r) = (rg_heap r)(k := (rg_heap r k)\<lparr>c_hostnames := insert h (c_hostnames (rg_heap r k))\<rparr>)"
  by (simp add: claim_add_def update_client_def add_http_hostname_def)

lemma release_remove_heap:
  "release_remove k h r = (b, r') \<Longrightarrow>
     rg_heap r' = (rg_heap r)(k := (rg_heap r k)\<lparr>c_hostnames := c_hostnames (rg_heap r k) - {h}\<rparr>)"
  by (auto simp: release_remove_def update_client_def remove_http_hostname_def split: if_splits)

lemma other_heaps [simp]:
  "rg_heap (release_free h r) = rg_heap r" "rg_next (release_free h r) = rg_next r"
  "rg_heap (deregister_names k r) = rg_heap r" "rg_next (deregister_names k r) = rg_next r"
  by (simp_all add: release_free_def deregister_names_def)

lemma deregister_list_heap: "deregister_list k r = (b, r') \<Longrightarrow> rg_heap r' = rg_heap r \<and> rg_next r' = rg_next r"
  by (auto simp: deregister_list_def split: option.splits)

lemma deregister_listed: "k \<in> set (rg_clients r) \<Longrightarrow> \<exists>r'. deregister_list k r = (True, r')"
  using position_None [of "\<lambda>item. item = k" "rg_clients r"] by (auto simp: deregister_list_def split: option.splits)

lemma finish_open_ok:
  assumes ok: "await_ok (s, P, V)" and ph: "P k = Holding h req"
  shows "await_ok (snd (finish_open k h req s), P(k := fst (finish_open k h req s)), V)"
proof -
  have here: "P k \<noteq> Departed" using ph by simp
  note know = await_okD [OF ok here]
  have new: "h \<notin> c_hostnames (the_client s k)"
    using steps_okD(5) [OF know(1), of k h] ph by (simp add: names_of_def)
  show ?thesis unfolding finish_open_def fst_conv snd_conv
  proof (rule session_await_ok [OF ok here])
    show "steps_ok (as_registry (hostnames_inc (snd (on_registry (\<lambda>r. ((), claim_add k h r)) s))),
        (registry_phase \<circ> P)(k := registry_phase (Telling (opened_message h req None))))"
      using claim_second_ok [OF know(1,2)] ph by simp
    show "phase_told (Telling (opened_message h req None))
        (the_client (hostnames_inc (snd (on_registry (\<lambda>r. ((), claim_add k h r)) s))) k)"
      using know(3) ph new by (auto simp: phase_told_def opened_message_def sound_def claim_add_heap)
  qed (use ph in \<open>auto simp: claim_add_fields claim_add_heap\<close>)
qed

lemma begin_close_ok:
  assumes ok: "await_ok (s, P, V)" and rest: "P k = At_Rest" and part: "begin_close k close s = (p, s')"
  shows "await_ok (s', P(k := p), V)"
proof -
  let ?h = "hc_hostname close"
  have here: "P k \<noteq> Departed" using rest by simp
  note know = await_okD [OF ok here]
  obtain b r where rem: "release_remove k ?h (as_registry s) = (b, r)" by fastforce
  note f = release_remove_fields [OF rem] and heap = release_remove_heap [OF rem]
  have s': "s' = s\<lparr>as_registry := r\<rparr>"
    and p: "p = (if b then Giving_Up ?h else Telling (closed_message ?h (Some HttpCloseError_NotRegistered)))"
    using part rem by (auto simp: begin_close_def on_registry_def split: if_splits)
  have "phase_told p (rg_heap r k)"
    using know(3) rest f by (auto simp: phase_told_def heap p closed_message_def sound_def names_of_def)
  moreover have "steps_ok (r, (registry_phase \<circ> P)(k := registry_phase p))"
  proof (cases b)
    case True
    then show ?thesis using release_first_ok [OF know(1,2)] rem rest p by simp
  next
    case False
    then show ?thesis
      using refused_ok [OF know(1)] release_remove_refused [of k ?h "as_registry s" r] rem rest p
      by (simp add: fun_upd_idem)
  qed
  ultimately show ?thesis unfolding s'
    by (intro session_await_ok [OF ok here]) (use f rest in \<open>auto simp: heap\<close>)
qed

lemma finish_close_ok:
  assumes ok: "await_ok (s, P, V)" and ph: "P k = Giving_Up h"
  shows "await_ok (snd (finish_close h s), P(k := fst (finish_close h s)), V)"
proof -
  have here: "P k \<noteq> Departed" using ph by simp
  note know = await_okD [OF ok here]
  show ?thesis unfolding finish_close_def fst_conv snd_conv
  proof (rule session_await_ok [OF ok here])
    show "steps_ok (as_registry (hostnames_dec (snd (on_registry (\<lambda>r. ((), release_free h r)) s))),
        (registry_phase \<circ> P)(k := registry_phase (Telling (closed_message h None))))"
      using release_second_ok [OF know(1,2)] ph by simp
    show "phase_told (Telling (closed_message h None))
        (the_client (hostnames_dec (snd (on_registry (\<lambda>r. ((), release_free h r)) s))) k)"
      using know(3) ph by (auto simp: phase_told_def closed_message_def sound_def)
  qed (use ph in auto)
qed

lemma tell_ok:
  assumes ok: "await_ok (s, P, V)" and ph: "P k = Telling m"
    and p: "p = (if c_ws_open (the_client s k) then At_Rest else Ending)"
  shows "await_ok (snd (send_to k m s), P(k := p), V)"
proof (rule session_await_ok [OF ok])
  show here: "P k \<noteq> Departed" using ph by simp
  note know = await_okD [OF ok here]
  show "steps_ok (as_registry (snd (send_to k m s)), (registry_phase \<circ> P)(k := registry_phase p))"
    using refused_ok [OF know(1)] ph p
    by (simp add: fun_upd_idem send_to_def on_client_def update_client_def case_prod_unfold Let_def client_send_def
        names_of_def fun_eq_iff)
  show "phase_told p (the_client (snd (send_to k m s)) k)"
    using know(3) ph p by (auto simp: phase_told_def send_to_def client_send_def)
  show "S_HttpRequest q \<in> set (sent_to s k)" if "S_HttpRequest q \<in> set (sent_to (snd (send_to k m s)) k)" for q
    using that know(3) ph by (auto simp: phase_told_def send_to_def client_send_def split: if_splits)
qed (use ph p in \<open>auto simp: send_to_def client_send_def split: if_splits\<close>)

lemma msg_calm:
  "(case payload of Some (C_HttpOpen _) \<Rightarrow> False | Some (C_HttpClose _) \<Rightarrow> False | Some (C_PortOpen _) \<Rightarrow> False | _ \<Rightarrow> True)
   \<Longrightarrow> calm_step V s (snd (msg lc name bind k payload s))"
  by (auto simp: msg_def http_response_handler_def port_connected_handler_def port_receive_handler_def
      port_close_handler_def split: option.splits client_message.splits)

lemma session_begin_ok:
  assumes ok: "await_ok (s, P, V)" and rest: "P k = At_Rest" and known: "known_clients decode"
    and part: "session_begin lc decode k a s = Some (p, s')"
  shows "await_ok (s', P(k := p), V)"
proof -
  have moves: "await_ok (t, P(k := q), V)" if "calm_step (found V) s t" "q = At_Rest \<or> q = Ending" for t q
    using that rest await_okD(3) [OF calm_await_ok [OF that(1) ok], of k]
    by (intro await_ok_phase [OF calm_await_ok [OF that(1) ok]]) (auto simp: phase_told_def)
  show ?thesis
  proof (cases "client_recv decode (ar_frame a)")
    case (Inl e)
    then show ?thesis using part moves [of s Ending] by (simp add: session_begin_def)
  next
    case (Inr payload)
    have rest_ok: "await_ok (s', P(k := p), V)"
      if "(case payload of Some (C_HttpOpen _) \<Rightarrow> False | Some (C_HttpClose _) \<Rightarrow> False | Some (C_PortOpen _) \<Rightarrow> False | _ \<Rightarrow> True)"
        "(case msg lc (ar_name a) (ar_bind a) k payload s of
               (Ready (Inr _), s') \<Rightarrow> Some (At_Rest, s') | (Ready (Inl _), s') \<Rightarrow> Some (Ending, s') | (Pending, _) \<Rightarrow> None)
           = Some (p, s')"
      using that(2) moves msg_calm [OF that(1), of "found V" s lc "ar_name a" "ar_bind a" k]
      by (auto split: prod.splits poll.splits sum.splits)
    show ?thesis
    proof (cases "\<exists>req. payload = Some (C_PortOpen req)")
      case True
      then obtain req where req: "payload = Some (C_PortOpen req)" by blast
      then have protocol: "port_protocol_try_from (po_protocol req) \<noteq> None"
        using recv_known [OF Inr known] by (simp add: known_request_def)
      have "begin_port_open lc (ar_bind a) req s = (p, s')"
        using part Inr req by (simp add: session_begin_def)
      then have s': "s' = s" and ready: "p = Binding req (ar_bind a) \<or> (\<exists>h e. p = Telling (port_opened_message h req e))"
        by (auto simp: begin_port_open_def split: sum.splits)
      have told: "phase_told At_Rest (the_client s k)" using await_okD(3) [OF ok, of k] rest by simp
      then have "phase_told p (the_client s k)"
        using ready protocol port_opened_neutral [OF protocol]
        by (auto simp: phase_told_def neutral_def fits_sound)
      moreover have "registry_phase p = registry_phase (P k)" "saying (P k) = []" using ready rest by auto
      ultimately show ?thesis unfolding s' using rest by (intro await_ok_phase [OF ok]) simp_all
    next
      case False
      then show ?thesis
        using part Inr rest_ok begin_open_ok [OF ok rest] begin_close_ok [OF ok rest]
        by (auto simp: session_begin_def split: option.splits client_message.splits)
    qed
  qed
qed

lemma ending_ok:
  assumes ok: "await_ok (s, P, V)" and ph: "P k = Ending" and part: "on_registry (deregister_list k) s = (True, s')"
  shows "await_ok (s', P(k := Departing), V)"
proof -
  have here: "P k \<noteq> Departed" using ph by simp
  note know = await_okD [OF ok here]
  obtain r where r: "deregister_list k (as_registry s) = (True, r)" "s' = s\<lparr>as_registry := r\<rparr>"
    using part by (auto simp: on_registry_def split: prod.splits)
  note heap = deregister_list_heap [OF r(1)]
  have "steps_ok (r, (registry_phase \<circ> P)(k := Leaving))"
    using leave_first_ok [OF know(1,2) _ r(1)] ph by simp
  then show ?thesis unfolding r(2)
    by (intro session_await_ok [OF ok here]) (use know(3) ph heap in \<open>auto simp: phase_told_def\<close>)
qed

lemma departing_ok:
  assumes ok: "await_ok (s, P, V)" and ph: "P k = Departing"
  shows "await_ok (connections_dec (snd (on_registry (\<lambda>r. ((), deregister_names k r)) s)), P(k := Departed), V)"
proof -
  have here: "P k \<noteq> Departed" using ph by simp
  note know = await_okD [OF ok here]
  have "steps_ok (deregister_names k (as_registry s), (registry_phase \<circ> P)(k := Gone))"
    using leave_second_ok [OF know(1,2)] ph by simp
  then show ?thesis
    by (intro session_await_ok [OF ok here]) (use know(3) ph in \<open>auto simp: phase_told_def\<close>)
qed

text \<open>A step that moves on and is calm.\<close>

lemma await_ok_calm_phase:
  assumes "await_ok (s, P, V)" "calm_step (found V) s s'" "P k \<noteq> Departed"
    and "registry_phase p = registry_phase (P k)" "saying (P k) = []" "phase_told p (the_client s' k)"
  shows "await_ok (s', P(k := p), V)"
  by (rule await_ok_phase [OF calm_await_ok [OF assms(2,1)] assms(3,4,6,5)])

lemma greeting_ok:
  assumes ok: "await_ok (s, P, V)" and ph: "P k = Greeting m" and p: "p = At_Rest \<or> p = Stranded"
  shows "await_ok (snd (send_to k m s), P(k := p), V)"
proof -
  have m: "neutral m \<or> \<not> c_ws_open (the_client s k)"
    using await_okD(3) [OF ok, of k] ph by (auto simp: phase_told_def)
  have calm: "calm_step (found V) s (snd (send_to k m s))"
  proof (cases "c_ws_open (the_client s k)")
    case True
    then show ?thesis using m by (simp add: calm_send)
  next
    case False
    then show ?thesis by (simp add: calm_step_def send_to_def client_send_def)
  qed
  show ?thesis
    by (rule await_ok_calm_phase [OF ok calm])
      (use p ph await_okD(3) [OF calm_await_ok [OF calm ok], of k] in \<open>auto simp: phase_told_def\<close>)
qed

lemma port_phase_ok:
  assumes ok: "await_ok (s, P, V)" and ph: "P k = Binding req bind \<or> P k = Registering req q"
    and calm: "calm_step (found V) s s'"
    and p: "(\<exists>q. p = Registering req q) \<or> (\<exists>h r. p = Telling (port_opened_message h req r))"
  shows "await_ok (s', P(k := p), V)"
proof (rule await_ok_calm_phase [OF ok calm])
  have told: "phase_told (P k) (the_client s' k)"
    using await_okD(3) [OF calm_await_ok [OF calm ok], of k] ph by auto
  show "phase_told p (the_client s' k)"
  proof (cases "c_ws_open (the_client s' k)")
    case True
    then have "port_protocol_try_from (po_protocol req) \<noteq> None" using told ph by (auto simp: phase_told_def)
    then show ?thesis
      using told ph p port_opened_neutral [of req] by (auto simp: phase_told_def neutral_def fits_sound)
  next
    case False
    then show ?thesis using told by (simp add: phase_told_def)
  qed
qed (use ph p in auto)

lemma session_resume_ok:
  assumes ok: "await_ok (s, P, V)" and part: "session_resume k (P k) s = Some (p, s')"
  shows "await_ok (s', P(k := p), V)"
proof (cases "P k")
  case (Holding h req)
  then show ?thesis using part finish_open_ok [OF ok Holding] by simp
next
  case (Giving_Up h)
  then show ?thesis using part finish_close_ok [OF ok Giving_Up] by simp
next
  case (Greeting m)
  have "p = At_Rest \<or> p = Stranded" "as_registry s' = as_registry (snd (send_to k m s))"
    using part Greeting by (auto split: prod.splits sum.splits)
  then show ?thesis using greeting_ok [OF ok Greeting] by (simp add: await_ok_def)
next
  case (Binding req bind)
  have "(p, s') = finish_bind k req bind s" using part Binding by simp
  then show ?thesis
    using Binding calm_bind [of "found V" s k req bind] by (intro port_phase_ok [OF ok])
      (auto simp: finish_bind_def Let_def split: prod.splits option.splits)
next
  case (Registering req q)
  have "(p, s') = finish_register k req q s" using part Registering by simp
  then show ?thesis
    using Registering calm_register [of "found V" s k req q] by (intro port_phase_ok [OF ok]) (auto simp: finish_register_def)
next
  case (Telling m)
  have "p = (if c_ws_open (the_client s k) then At_Rest else Ending)" "s' = snd (send_to k m s)"
    using part Telling send_to_result [of k m s] by (auto split: prod.splits sum.splits if_splits)
  then show ?thesis using tell_ok [OF ok Telling] by simp
next
  case Ending
  then have "k \<in> set (rg_clients (as_registry s))"
    using steps_okD(2) [of "as_registry s" "registry_phase \<circ> P" k] await_okD [OF ok, of k] by simp
  from deregister_listed [OF this] show ?thesis
    using part Ending ending_ok [OF ok Ending] by (auto simp: on_registry_def)
next
  case Departing
  then show ?thesis using part departing_ok [OF ok Departing] by simp
qed (use part in simp_all)

lemma arrives_ok:
  assumes ok: "await_ok (s, P, V)" and start: "session_arrive b who ws_ok s = (k, p, s')"
  shows "await_ok (s', P(k := p), V)"
proof -
  have k_def: "k = rg_next (as_registry s)"
    using start by (auto simp: session_arrive_def Let_def case_prod_unfold register_def split: if_splits)
  have p: "registry_phase p = Idle" "\<And>t. names_at p t = dom t" "\<And>t. ready_to_say p t" "p \<noteq> Departed" "saying p = []"
    using start by (auto simp: session_arrive_def Let_def case_prod_unfold welcome_message_def split: if_splits)
  define sb where "sb = snd (on_client k (\<lambda>c. ((), c\<lparr>c_ws_open := ws_ok\<rparr>)) (snd (on_registry (register who) s)))"
  have heap: "the_client sb = (the_client s)(k := (client_new who)\<lparr>c_ws_open := ws_ok\<rparr>)"
    and nx: "rg_next (as_registry sb) = Suc k"
    by (simp_all add: sb_def k_def register_def fun_eq_iff)
  have "steps_ok (snd (register who (as_registry s)), (registry_phase \<circ> P)(k := Idle))"
    using ok connect_ok [of "as_registry s" "registry_phase \<circ> P" who k] by (simp add: await_ok_def register_def k_def)
  from refused_ok [OF this, of "as_registry sb"]
  have "steps_ok (as_registry sb, registry_phase \<circ> P(k := p))"
    using p(1) by (simp add: sb_def k_def fun_upd_comp register_def on_client_def update_client_def names_of_def fun_eq_iff)
  moreover have "phase_told ((P(k := p)) j) (the_client sb j)" for j
    using ok p by (auto simp: await_ok_def heap phase_told_def client_new_def)
  moreover have "(j, hq_hostname q) \<in> found V" if "S_HttpRequest q \<in> set (sent_to sb j)" for j q
    using that ok unfolding heap by (cases "j = k") (auto simp: await_ok_def client_new_def)
  moreover have "j < Suc k" if "(P(k := p)) j \<noteq> Departed" for j
    using that ok by (cases "j = k") (auto simp: await_ok_def less_SucI k_def)
  moreover have "j < Suc k \<and> (c_ws_open (the_client sb j) \<longrightarrow> opened_in (sent_to sb j @ saying ((P(k := p)) j)) h)"
    if "(j, h) \<in> found V" for j h
  proof -
    have "j < k" using that ok by (auto simp: await_ok_def k_def)
    then show ?thesis using that ok unfolding heap by (auto simp: await_ok_def)
  qed
  moreover have "\<forall>k q rx. Asking k q rx \<in> V \<longrightarrow> (k, hq_hostname q) \<in> found V" using ok by (simp add: await_ok_def)
  ultimately have "await_ok (sb, P(k := p), V)"
    unfolding await_ok_def prod.case nx by blast
  moreover have "as_registry s' = as_registry sb"
    using start by (auto simp: session_arrive_def Let_def case_prod_unfold register_def sb_def k_def split: if_splits)
  ultimately show ?thesis by (simp add: await_ok_def)
qed

lemma names_at_opened: "h \<in> names_at p (promised ms) \<Longrightarrow> opened_in (ms @ saying p) h"
proof -
  have said: "opened_in ms' h" if "h \<in> dom (promised ms')" for ms'
    using that promised_from by (fastforce simp: opened_in_def)
  assume "h \<in> names_at p (promised ms)"
  then show ?thesis using said [of ms] said [of "ms @ saying p"] by (cases p) auto
qed

lemma looks_up_ok:
  assumes ok: "await_ok (s, P, V)" and k: "k \<in> set (rg_clients (as_registry s))" "host \<in> c_hostnames (the_client s k)"
  shows "await_ok (s, P, insert (Found k host) V)"
proof -
  have steps: "steps_ok (as_registry s, registry_phase \<circ> P)" using ok by (simp add: await_ok_def)
  have "k < rg_next (as_registry s)" using k steps_okD(2) [OF steps] by blast
  moreover have "found (insert (Found k host) V) = insert (k, host) (found V)" by (auto simp: found_def)
  moreover have "opened_in (sent_to s k @ saying (P k)) host" if "c_ws_open (the_client s k)"
    using ok that k(2) names_at_opened by (simp add: await_ok_def phase_told_def)
  ultimately show ?thesis using ok by (simp add: await_ok_def)
qed

lemma registers_ok:
  assumes ok: "await_ok (s, P, V)" and found: "Found k host \<in> V" and q: "hq_hostname q = host"
  shows "await_ok (snd (begin_request k uuid s), P, insert (Asking k q rx) V)"
proof -
  have same: "found (insert (Asking k q rx) V) = found V" by (auto simp: found_def)
  have "await_ok (snd (begin_request k uuid s), P, V)" by (rule calm_await_ok [OF calm_begin_request ok])
  then show ?thesis using found q unfolding await_ok_def prod.case same by (auto simp: found_def)
qed

lemma await_step_ok:
  assumes "await_step lc decode b w w'" "known_clients decode" "await_ok w"
  shows "await_ok w'"
  using assms(1)
proof (cases rule: await_step.cases)
  case (arrives who ws_ok s k p s' P V)
  then show ?thesis using assms(3) arrives_ok by blast
next
  case (frame P k a s p s' V)
  then show ?thesis using assms(3) session_begin_ok [OF _ _ assms(2)] by simp
next
  case (resumes k P s p s' V)
  then show ?thesis using assms(3) session_resume_ok by simp
next
  case (looks_up k s host P V)
  then show ?thesis using assms(3) looks_up_ok [of s P V k host] by (simp add: has_http_hostname_def)
next
  case (registers k host V uuid s rx s' P r)
  have s': "s' = snd (begin_request k uuid s)" using registers(4) by simp
  have "hq_hostname (http_request_of uuid host r s) = host" by (simp add: http_request_of_def)
  from registers_ok [OF _ registers(3) this] show ?thesis using assms(3) by (simp add: registers(1,2) s')
next
  case (asks k q rx V s P)
  have "(k, hq_hostname q) \<in> found V" using assms(3) asks(3) unfolding asks(1) await_ok_def prod.case by blast
  then show ?thesis using asks assms(3) calm_await_ok [OF calm_finish_request] by simp
next
  case (beside s s' P V)
  then show ?thesis using assms(3) calm_await_ok calm_task by blast
qed

section \<open>What was sent stays sent\<close>

definition grown :: "app_state \<Rightarrow> app_state \<Rightarrow> bool" where
  "grown s s' \<longleftrightarrow> rg_next (as_registry s) \<le> rg_next (as_registry s')
     \<and> (\<forall>k < rg_next (as_registry s). prefix (sent_to s k) (sent_to s' k))"

lemma calm_grown: "calm_step V s s' \<Longrightarrow> grown s s'"
  by (simp add: grown_def calm_step_def) (meson calm_prefix)

lemma session_begin_grown:
  assumes "session_begin lc decode k a s = Some (p, s')"
  shows "grown s s'"
proof (cases "client_recv decode (ar_frame a)")
  case (Inr payload)
  have grown_open: "grown s t" if "begin_open lc name req s = (q, t)" for name req q t
    using that by (auto simp: begin_open_def grown_def on_registry_def claim_insert_def Let_def split: sum.splits if_splits)
  have grown_close: "grown s t" if "begin_close k close s = (q, t)" for close q t
    using that release_remove_heap release_remove_fields
    by (auto simp: begin_close_def grown_def on_registry_def split: prod.splits if_splits)
  have grown_port: "grown s t" if "begin_port_open lc bind req s = (q, t)" for bind req q t
    using that by (auto simp: begin_port_open_def grown_def split: sum.splits)
  have grown_rest: "grown s t"
    if "(case payload of Some (C_HttpOpen _) \<Rightarrow> False | Some (C_HttpClose _) \<Rightarrow> False | Some (C_PortOpen _) \<Rightarrow> False | _ \<Rightarrow> True)"
      "msg lc name bind k payload s = (q, t)" for name bind q t
    using msg_calm [OF that(1), of "{}" s lc name bind k] that(2) calm_grown by simp
  show ?thesis
    using assms Inr grown_open grown_close grown_port grown_rest
    by (auto simp: session_begin_def split: option.splits client_message.splits prod.splits poll.splits sum.splits)
qed (use assms in \<open>simp add: session_begin_def grown_def\<close>)

lemma send_grown: "grown s (snd (send_to k m s))"
  by (simp add: grown_def send_to_def client_send_def)

lemma session_resume_grown: "session_resume k p s = Some (p', s') \<Longrightarrow> grown s s'"
proof (cases p)
  case (Telling m)
  assume "session_resume k p s = Some (p', s')"
  then show ?thesis using Telling send_grown [of s k m] by (auto split: prod.splits sum.splits)
next
  case (Greeting m)
  assume "session_resume k p s = Some (p', s')"
  then show ?thesis using Greeting send_grown [of s k m] by (auto simp: grown_def split: prod.splits sum.splits)
next
  case (Binding req bind)
  assume "session_resume k p s = Some (p', s')"
  then show ?thesis using Binding calm_grown [OF calm_bind, of s k req bind] by simp
next
  case (Registering req q)
  assume "session_resume k p s = Some (p', s')"
  then show ?thesis using Registering calm_grown [OF calm_register, of s k req q] by simp
next
  case Ending
  assume "session_resume k p s = Some (p', s')"
  then show ?thesis
    using Ending deregister_list_heap by (auto simp: grown_def on_registry_def split: prod.splits bool.splits)
qed (auto simp: finish_open_def finish_close_def grown_def claim_add_fields claim_add_heap)

lemma session_arrive_grown: "session_arrive b who ws_ok s = (k, p, s') \<Longrightarrow> grown s s'"
  by (auto simp: grown_def session_arrive_def Let_def case_prod_unfold register_def split: if_splits)

lemma begin_request_grown: "begin_request k uuid s = (rx, s') \<Longrightarrow> grown s s'"
  using calm_grown [OF calm_begin_request [of "{}" s k uuid]] by simp

lemma finish_request_grown: "grown s (snd (finish_request k q rx s))"
  using calm_grown [OF calm_finish_request [of k q UNIV]] by simp

lemma await_step_grown:
  assumes "await_step lc decode b w w'"
  shows "grown (fst w) (fst w')"
  using assms
  by (cases rule: await_step.cases)
    (auto intro: session_arrive_grown session_begin_grown session_resume_grown begin_request_grown finish_request_grown
      calm_grown [OF calm_task] simp: grown_def [of x x for x])

text \<open>So a server of this granularity is one that \<open>np\<close> can keep up with.\<close>

definition await_good :: "(bytes \<Rightarrow> client_payload option) \<Rightarrow> await_world \<Rightarrow> bool" where
  "await_good decode w \<longleftrightarrow> known_clients decode \<and> await_ok w"

lemma await_ok_sounds: "await_ok w \<Longrightarrow> sounds (sent_to (fst w) k)"
  by (auto simp: await_ok_def phase_told_def)

interpretation await_server: telling_server "await_step lc decode b" fst "await_good decode" for lc decode b
  by unfold_locales
    (auto dest: await_step_ok await_step_grown in_orderD [OF await_ok_sounds] simp: await_good_def grown_def)

section \<open>The two programs agree at every wait\<close>

abbreviation nobody :: "nat \<Rightarrow> task_phase" where
  "nobody \<equiv> \<lambda>_. Departed"

lemma await_start_ok: "await_ok (app_state_new l h st opts, nobody, {})"
  using refused_ok [OF steps_init_ok [unfolded tasks_init_def], of registry_default]
  by (simp add: await_ok_def app_state_new_def registry_default_def phase_told_def client_new_def comp_def
      steps_ok_def held_def names_of_def found_def)

lemma await_tunnel_start:
  assumes "known_clients decode"
    and before: "(await_step lc decode b)\<^sup>*\<^sup>* (app_state_new l h st opts, nobody, {}) (s0, P0, V0)"
    and start: "session_arrive b who ws_ok s0 = (k, p, s1)"
  shows "await_good decode (s1, P0(k := p), V0)" "placed (fst (s1, P0(k := p), V0)) k 0"
proof -
  have "await_ok w" if "(await_step lc decode b)\<^sup>*\<^sup>* (app_state_new l h st opts, nobody, {}) w" for w
    using that
  proof (induction rule: rtranclp_induct)
    case (step u v)
    then show ?case using await_step_ok assms(1) by blast
  qed (rule await_start_ok)
  note ok0 = this [OF before]
  have ok: "await_ok (s1, P0(k := p), V0)"
    by (rule arrives_ok [OF ok0 start])
  have "k < rg_next (as_registry s1)"
    using start by (auto simp: session_arrive_def Let_def case_prod_unfold register_def split: if_splits)
  then show "await_good decode (s1, P0(k := p), V0)" "placed (fst (s1, P0(k := p), V0)) k 0"
    using ok assms(1) by (simp_all add: await_good_def placed_def)
qed

text \<open>
  C5. The server and \<open>np\<close> agree even when the handlers stop where they wait: a session after its
  registration, in the middle of claiming, releasing or leaving, before and after \<open>bind\<close>, before each message; a
  visitor's request after its lookup and after its registration; with other sessions, visitors and tasks
  in between, in any order. Assumed: clients ask for ports with a known protocol, and \<open>np\<close>'s
  table of host names is empty when the session starts, as in a new process and after \<open>disconnect\<close>
  (not when \<open>run\<close> reconnects after a failed read, which keeps the table). When the session of \<open>k\<close>
  waits for its next frame on an open socket, and \<open>np\<close> has handled all that was sent to it, \<open>np\<close> has a
  local address for exactly the names that the server routes to it, the address the server
  echoed. And a request that reaches \<open>np\<close> while the socket is open is for a name that the server opens for it:
  \<open>HttpOpened\<close> is among the messages, or is the one that the session is about to send.
\<close>

theorem await_agree:
  assumes "known_clients decode"
    and "(await_step lc decode b)\<^sup>*\<^sup>* (app_state_new l h st opts, nobody, {}) (s0, P0, V0)"
    and "session_arrive b who ws_ok s0 = (k, p, s1)" "nc_http_forwardings c0 = Map.empty"
    and "(tunnel_step (await_step lc decode b) fst env tc k)\<^sup>*\<^sup>* ((s1, P0(k := p), V0), c0, 0) ((s, P, V), c, n)"
  shows "(P k = At_Rest \<and> c_ws_open (the_client s k) \<and> n = length (sent_to s k) \<longrightarrow>
      (\<forall>x. nc_http_forwardings c x \<noteq> None \<longleftrightarrow> route s x = Some k))
    \<and> (\<forall>q. S_HttpRequest q \<in> set (sent_to s k) \<and> c_ws_open (the_client s k) \<longrightarrow>
         (\<exists>m. hod_hostname m = hq_hostname q \<and> hod_error m = None
            \<and> (S_HttpOpened m \<in> set (sent_to s k) \<or> P k = Telling (S_HttpOpened m))))
    \<and> (\<forall>x a. nc_http_forwardings c x = Some a \<longrightarrow>
         (\<exists>m. S_HttpOpened m \<in> set (take n (sent_to s k)) \<and> hod_hostname m = x \<and> hod_error m = None
            \<and> a = from_address (hod_local_address m)))"
proof -
  note start = await_tunnel_start [OF assms(1-3)]
  note run = await_server.tunnel_steps_keep [OF assms(5) start(1) placed_following [OF start(2) assms(4)]]
  have ok: "await_ok (s, P, V)" using run(1) by (simp add: await_good_def)
  then have steps: "steps_ok (as_registry s, registry_phase \<circ> P)" by (simp add: await_ok_def)
  have "nc_http_forwardings c x \<noteq> None \<longleftrightarrow> route s x = Some k"
    if "P k = At_Rest" "c_ws_open (the_client s k)" "n = length (sent_to s k)" for x
  proof -
    have "k < rg_next (as_registry s)" "names_of (as_registry s) k = dom (nc_http_forwardings c)"
      using await_okD [OF ok, of k] that run(2) by (simp_all add: names_of_def phase_told_def following_def)
    then show ?thesis
      using steps_owner [OF steps, of x k] steps_okD(2) [OF steps, of k] that(1) by (auto simp: dom_def)
  qed
  moreover have "\<exists>m. hod_hostname m = hq_hostname q \<and> hod_error m = None
      \<and> (S_HttpOpened m \<in> set (sent_to s k) \<or> P k = Telling (S_HttpOpened m))"
    if "S_HttpRequest q \<in> set (sent_to s k)" "c_ws_open (the_client s k)" for q
  proof -
    have "opened_in (sent_to s k @ saying (P k)) (hq_hostname q)"
      using ok that by (fastforce simp: await_ok_def)
    then show ?thesis by (cases "P k") (auto simp: opened_in_def)
  qed
  moreover have "nc_http_forwardings c = promised (take n (sent_to s k))"
    using run(2) by (simp add: following_def)
  ultimately show ?thesis using promised_from by auto
qed

text \<open>
  C6. No message of the server can make \<open>np\<close> panic, wherever the sessions and the visitors of the server
  wait, and whatever is in \<open>np\<close>'s tables when the session starts (so also when it reconnects without
  \<open>disconnect\<close>): in every state that the two reach together \<open>np\<close> handles the next message to a result. What is
  assumed is that clients ask for ports with a known protocol, as \<open>np\<close> does. If \<open>np\<close>'s table of host
  names is empty when the session starts, each message is moreover a request, or well formed: its
  protocol of ports is a known one, it opens a name only where it is not open, it closes a name
  exactly where it is open.
\<close>

theorem await_never_panics:
  assumes "known_clients decode"
    and "(await_step lc decode b)\<^sup>*\<^sup>* (app_state_new l h st opts, nobody, {}) (s0, P0, V0)"
    and "session_arrive b who ws_ok s0 = (k, p, s1)"
    and "(tunnel_step (await_step lc decode b) fst env tc k)\<^sup>*\<^sup>* ((s1, P0(k := p), V0), c0, 0) ((s, P, V), c, n)"
    and "n < length (sent_to s k)"
  shows "(\<exists>r c'. np_message env tc (sent_to s k ! n) c = Return (r, c'))
    \<and> (nc_http_forwardings c0 = Map.empty \<longrightarrow>
         (\<exists>q. sent_to s k ! n = S_HttpRequest q) \<or> fits (sent_to s k ! n) (nc_http_forwardings c))"
proof -
  note start = await_tunnel_start [OF assms(1-3)]
  have "await_good decode (s, P, V)"
    using await_server.tunnel_steps_placed [OF assms(4)] start by simp
  from await_server.next_message_handled [OF this] assms(5)
  have "\<exists>r c'. np_message env tc (sent_to s k ! n) c = Return (r, c')" by simp
  moreover have "sound (sent_to s k ! n) (nc_http_forwardings c)" if "nc_http_forwardings c0 = Map.empty"
  proof -
    note run = await_server.tunnel_steps_keep [OF assms(4) start(1) placed_following [OF start(2) that]]
    show ?thesis
      using await_server.speaks [OF run(1), of n k] run(2) assms(5) by (simp add: following_def)
  qed
  ultimately show ?thesis by (auto simp: sound_def)
qed

text \<open>A session that is about to say that a name is open, and a visitor who came a moment before.\<close>

lemma sample_arrive:
  "\<exists>s1. session_arrive sample_build sample_peer True sample_empty = (0, At_Rest, s1) \<and> rg_clients (as_registry s1) = [0]
     \<and> rg_claimed (as_registry s1) = {} \<and> as_hostnames s1 = sample_hostnames \<and> c_ws_open (the_client s1 0)
     \<and> sent_to s1 0 = [] \<and> c_next_channel (the_client s1 0) = 0"
  by (simp add: session_arrive_def Let_def case_prod_unfold register_def sample_empty_def app_state_new_def
      registry_default_def client_new_def)

lemma sample_race:
  "\<exists>s1 s2 V q. session_arrive sample_build sample_peer True sample_empty = (0, At_Rest, s1)
     \<and> (await_step (map ascii_lower) no_messages sample_build)\<^sup>*\<^sup>* (s1, nobody(0 := At_Rest), {})
         (s2, nobody(0 := Telling (opened_message ''two.np.io'' (ask ''two'') None)), V)
     \<and> sent_to s2 0 = [S_HttpRequest q] \<and> hq_hostname q = ''two.np.io'' \<and> c_ws_open (the_client s2 0)"
proof -
  let ?lc = "map ascii_lower" and ?h = "''two.np.io''" and ?P = "nobody(0 := At_Rest)"
  let ?a = "\<lparr>ar_frame = Some (WsBinary []), ar_name = ''g-1'', ar_bind = \<lambda>_. None\<rparr>"
  let ?m = "Telling (opened_message ?h (ask ''two'') None)"
  obtain s1 where st: "session_arrive sample_build sample_peer True sample_empty = (0, At_Rest, s1)"
    and s1: "rg_clients (as_registry s1) = [0]" "rg_claimed (as_registry s1) = {}" "as_hostnames s1 = sample_hostnames"
      "c_ws_open (the_client s1 0)" "sent_to s1 0 = []" "c_next_channel (the_client s1 0) = 0"
    using sample_arrive by blast
  have sub: "subdomain_for_forwarding ?lc sample_hostnames (ho_hostname (ask ''two'')) = Ok (Some ''two'')"
    by code_simp
  define sa where "sa = snd (on_registry (claim_insert ?h) s1)"
  have "full_hostname sample_hostnames ''two'' = ?h"
    by (simp add: full_hostname_def sample_domain)
  then have "session_begin ?lc no_messages 0 ?a s1 = Some (Holding ?h (ask ''two''), sa)"
    by (simp add: session_begin_def client_recv_def recv_data_def no_messages_def begin_open_def s1 sub sa_def
        claim_insert_def on_registry_def full_hostname_def Let_def)
  then have one: "await_step ?lc no_messages sample_build (s1, ?P, {}) (sa, nobody(0 := Holding ?h (ask ''two'')), {})"
    using frame [of ?P 0 ?lc no_messages ?a s1 _ sa sample_build "{}"] by simp
  define sb where "sb = snd (finish_open 0 ?h (ask ''two'') sa)"
  have two: "await_step ?lc no_messages sample_build (sa, nobody(0 := Holding ?h (ask ''two'')), {}) (sb, nobody(0 := ?m), {})"
    using resumes [of 0 "nobody(0 := Holding ?h (ask ''two''))" sa ?m sb] by (simp add: sb_def finish_open_def)
  have sb: "rg_clients (as_registry sb) = [0]" "has_http_hostname ?h (the_client sb 0)" "c_ws_open (the_client sb 0)"
    "sent_to sb 0 = []"
    using s1 by (simp_all add: sb_def sa_def finish_open_def claim_insert_def claim_add_fields claim_add_heap
        has_http_hostname_def)
  have three: "await_step ?lc no_messages sample_build (sb, nobody(0 := ?m), {}) (sb, nobody(0 := ?m), {Found 0 ?h})"
    by (rule looks_up) (simp_all add: sb)
  define q where "q = http_request_of ''u1'' ?h sample_incoming sb"
  obtain rx sc where sc: "begin_request 0 ''u1'' sb = (rx, sc)" by fastforce
  have four: "await_step ?lc no_messages sample_build (sb, nobody(0 := ?m), {Found 0 ?h}) (sc, nobody(0 := ?m), {Asking 0 q rx, Found 0 ?h})"
    unfolding q_def by (rule registers) (simp_all add: sc)
  define sd where "sd = snd (finish_request 0 q rx sc)"
  have five: "await_step ?lc no_messages sample_build (sc, nobody(0 := ?m), {Asking 0 q rx, Found 0 ?h})
      (sd, nobody(0 := ?m), {Asking 0 q rx, Found 0 ?h})"
    unfolding sd_def by (rule asks) simp
  have "(await_step ?lc no_messages sample_build)\<^sup>*\<^sup>* (s1, ?P, {}) (sd, nobody(0 := ?m), {Asking 0 q rx, Found 0 ?h})"
    using one two three four five by (meson converse_rtranclp_into_rtranclp r_into_rtranclp)
  moreover have "c_ws_open (the_client sc 0)" "sent_to sc 0 = []"
    using sb(3,4) arg_cong [OF sc, of snd] by (auto simp: begin_request_def register_http_request_def Let_def)
  then have "sent_to sd 0 = [S_HttpRequest q]" "c_ws_open (the_client sd 0)"
    by (simp_all add: sd_def finish_request_def case_prod_unfold send_to_def client_send_def split: sum.splits)
  ultimately show ?thesis using st by (auto simp: q_def http_request_of_def)
qed

lemma sample_race_tunnel:
  "\<exists>s1 s2 P V q. session_arrive sample_build sample_peer True sample_empty = (0, At_Rest, s1)
     \<and> (tunnel_step (await_step (map ascii_lower) no_messages sample_build) fst sample_hyper (\<lambda>_. None) 0)\<^sup>*\<^sup>*
         ((s1, nobody(0 := At_Rest), {}), sample_fresh_np, 0) ((s2, P, V), sample_fresh_np, 0)
     \<and> P 0 = Telling (opened_message ''two.np.io'' (ask ''two'') None)
     \<and> sent_to s2 0 = [S_HttpRequest q] \<and> hq_hostname q = ''two.np.io'' \<and> c_ws_open (the_client s2 0)"
proof -
  obtain s1 s2 q P V where st: "session_arrive sample_build sample_peer True sample_empty = (0, At_Rest, s1)"
    and steps: "(await_step (map ascii_lower) no_messages sample_build)\<^sup>*\<^sup>* (s1, nobody(0 := At_Rest), {}) (s2, P, V)"
    and P: "P 0 = Telling (opened_message ''two.np.io'' (ask ''two'') None)"
    and sent: "sent_to s2 0 = [S_HttpRequest q]" "hq_hostname q = ''two.np.io''" "c_ws_open (the_client s2 0)"
    using sample_race by fastforce
  have "(tunnel_step (await_step (map ascii_lower) no_messages sample_build) fst sample_hyper (\<lambda>_. None) 0)\<^sup>*\<^sup>*
         ((s1, nobody(0 := At_Rest), {}), sample_fresh_np, 0) ((s2, P, V), sample_fresh_np, 0)"
    using steps
  proof (induction rule: rtranclp_induct)
    case (step u v)
    then show ?case by (meson server_acts rtranclp.rtrancl_into_rtrancl)
  qed (rule rtranclp.rtrancl_refl)
  then show ?thesis using st P sent by blast
qed

lemma sample_await_start:
  "(await_step (map ascii_lower) no_messages sample_build)\<^sup>*\<^sup>* (app_state_new sample_listen sample_hostnames stats_default
        \<lparr>opt_client_request_timeout_secs = 30, opt_send_welcome_message = False\<rparr>, nobody, {}) (sample_empty, nobody, {})"
  by (simp add: sample_empty_def)

theorem await_agree_witness:
  "\<exists>s1 s P V q m. session_arrive sample_build sample_peer True sample_empty = (0, At_Rest, s1)
     \<and> (tunnel_step (await_step (map ascii_lower) no_messages sample_build) fst sample_hyper (\<lambda>_. None) 0)\<^sup>*\<^sup>*
         ((s1, nobody(0 := At_Rest), {}), sample_fresh_np, 0) ((s, P, V), sample_fresh_np, 0)
     \<and> sent_to s 0 = [S_HttpRequest q] \<and> hod_hostname m = hq_hostname q \<and> P 0 = Telling (S_HttpOpened m)"
proof -
  obtain s1 s2 P V q where st: "session_arrive sample_build sample_peer True sample_empty = (0, At_Rest, s1)"
    and tunnel: "(tunnel_step (await_step (map ascii_lower) no_messages sample_build) fst sample_hyper (\<lambda>_. None) 0)\<^sup>*\<^sup>*
         ((s1, nobody(0 := At_Rest), {}), sample_fresh_np, 0) ((s2, P, V), sample_fresh_np, 0)"
    and sent: "sent_to s2 0 = [S_HttpRequest q]" "c_ws_open (the_client s2 0)"
    using sample_race_tunnel by fastforce
  have "\<exists>m. hod_hostname m = hq_hostname q \<and> P 0 = Telling (S_HttpOpened m)"
    using await_agree [OF sample_known sample_await_start st sample_start(3) tunnel] sent by auto
  then show ?thesis using st tunnel sent(1) by blast
qed

theorem await_never_panics_witness:
  "\<exists>s1 s P V q r c'. session_arrive sample_build sample_peer True sample_empty = (0, At_Rest, s1)
     \<and> (tunnel_step (await_step (map ascii_lower) no_messages sample_build) fst sample_hyper (\<lambda>_. None) 0)\<^sup>*\<^sup>*
         ((s1, nobody(0 := At_Rest), {}), sample_fresh_np, 0) ((s, P, V), sample_fresh_np, 0)
     \<and> sent_to s 0 = [S_HttpRequest q] \<and> nc_http_forwardings sample_fresh_np (hq_hostname q) = None
     \<and> np_message sample_hyper (\<lambda>_. None) (S_HttpRequest q) sample_fresh_np = Return (r, c')"
proof -
  obtain s1 s2 P V q where st: "session_arrive sample_build sample_peer True sample_empty = (0, At_Rest, s1)"
    and tunnel: "(tunnel_step (await_step (map ascii_lower) no_messages sample_build) fst sample_hyper (\<lambda>_. None) 0)\<^sup>*\<^sup>*
         ((s1, nobody(0 := At_Rest), {}), sample_fresh_np, 0) ((s2, P, V), sample_fresh_np, 0)"
    and sent: "sent_to s2 0 = [S_HttpRequest q]"
    using sample_race_tunnel by fastforce
  have "\<exists>r c'. np_message sample_hyper (\<lambda>_. None) (S_HttpRequest q) sample_fresh_np = Return (r, c')"
    using await_never_panics [OF sample_known sample_await_start st tunnel] sent by simp
  then show ?thesis using st tunnel sent by (auto simp: sample_fresh_np_def)
qed

end
