(* ===== verification/Early_Connection.thy ===== *)
theory Early_Connection
  imports Await_Steps Port_Agreement
begin

text \<open>
  A visitor of a TCP port in the middle of its opening. The listener accepts from the moment it is
  bound, but the client learns of the port only by the message that the handler sends afterwards.
\<close>

section \<open>What opening a port leaves behind\<close>

abbreviation bind_address :: "port_open \<Rightarrow> string" where
  "bind_address req \<equiv> ''0.0.0.0:'' @ show_nat (unat (addr_port (from_address (po_remote_address req))))"

abbreviation new_listener :: "nat \<Rightarrow> app_state \<Rightarrow> u16 \<Rightarrow> listener" where
  "new_listener k s p \<equiv> \<lparr>ls_client = k, ls_port = p,
     ls_remote_addr = from_host_and_port (hn_tcp_hostname (as_hostnames s)) p, ls_closer = Waiting, ls_phase = Accepting\<rparr>"

lemma finish_bind_state:
  assumes "bind (bind_address req) = Some p"
  obtains s1 where "finish_bind k req bind s = (Registering req \<lparr>p_closer = Some (length (as_listeners s)), p_port = p\<rparr>, s1)"
    "as_listeners s1 = as_listeners s @ [new_listener k s p]" "as_registry s1 = as_registry s" "as_hostnames s1 = as_hostnames s"
  using assms by (auto simp: finish_bind_def port_server_def Let_def)

text \<open>A visitor who comes before the message is sent: right after the port is bound.\<close>

lemma early_accept:
  assumes s1: "as_listeners s1 = as_listeners s @ [new_listener k s p]" "as_registry s1 = as_registry s"
    and opened: "port_opened_message (hn_tcp_hostname (as_hostnames s)) req (Ok p) = S_PortOpened opened"
    and k: "k \<in> set (rg_clients (as_registry s))" "c_ws_open (the_client s k)" "client_ok (the_client s k)"
  obtains s2 m s3 where "listener_step (Accepted uuid who) (length (as_listeners s)) s1 = Some s2"
    "send_to k (S_PortOpened opened) (snd (on_client k (\<lambda>c. ((), register_port port c)) s2)) = (Ok (), s3)"
    "sent_to s3 k = sent_to s k @ [S_PortConnect m, S_PortOpened opened]"
    "pct_uuid m = uuid" "port_origin_from_raw (pct_protocol m) (pct_remote_address m) =
       Return (port_origin Tcp (from_address (pod_remote_address opened)))"
    "c_connect_requests (the_client s3 k) uuid = Some (c_next_channel (the_client s k))"
    "c_connect_channels (the_client s3 k) (c_next_channel (the_client s k)) = Waiting"
    "c_port_writers (the_client s3 k) = c_port_writers (the_client s k)"
    "ls_client (as_listeners s3 ! length (as_listeners s)) = k"
    "ls_phase (as_listeners s3 ! length (as_listeners s)) = Connecting uuid (c_next_channel (the_client s k))"
proof -
  let ?n = "length (as_listeners s)" and ?rx = "c_next_channel (the_client s k)"
  have at: "?n < length (as_listeners s1)" "ls_phase (as_listeners s1 ! ?n) = Accepting" "k = ls_client (as_listeners s1 ! ?n)"
      "client_alive k s1" and ws: "c_ws_open (the_client s1 k)"
    using k(1,2) by (simp_all add: s1 client_alive_def)
  obtain s2 m where s2: "listener_step (Accepted uuid who) ?n s1 = Some s2"
      "as_listeners s2 = (as_listeners s1)[?n := (as_listeners s1 ! ?n)\<lparr>ls_phase := Connecting uuid ?rx\<rparr>]"
      "the_client s2 k = (snd (register_connect_request uuid (the_client s1 k)))\<lparr>c_ws_sent := sent_to s k @ [S_PortConnect m]\<rparr>"
    and m: "pct_uuid m = uuid" "pct_protocol m = 0"
      "pct_remote_address m = Some (to_address (ls_remote_addr (as_listeners s1 ! ?n)))"
    using accept_state [OF at ws, of uuid] unfolding s1(2) by metis
  have k2: "c_ws_open (the_client s2 k)" "sent_to s2 k = sent_to s k @ [S_PortConnect m]"
    using k(2) by (simp_all add: s2(3) s1(2) register_connect_request_def Let_def)
  have remote: "pod_remote_address opened = Some (to_address (from_host_and_port (hn_tcp_hostname (as_hostnames s)) p))"
    using opened by (auto simp: port_opened_message_def)
  have "c_connect_requests (the_client s k) uuid \<noteq> Some ?rx"
    using k(3) by (auto simp: client_ok_def table_ok_def)
  then show ?thesis
    using k2 m remote
    by (intro that [OF s2(1), of "snd (send_to k (S_PortOpened opened) (snd (on_client k (\<lambda>c. ((), register_port port c)) s2)))" m])
      (auto simp: send_to_def client_send_def s2(2,3) s1 register_port_def register_connect_request_def Let_def
        port_origin_from_raw_def port_protocol_try_from_def prod_eq_iff split: option.splits)
qed

text \<open>An answer with an error drops the visitor.\<close>

lemma refusal_drops:
  assumes "c_connect_requests (the_client s k) (pc_uuid answer) = Some rx" "c_connect_channels (the_client s k) rx = Waiting"
    and "ls_client (as_listeners s ! n) = k" "ls_phase (as_listeners s ! n) = Connecting uuid rx" "pc_error answer \<noteq> None"
  shows "\<exists>s'. port_connected_handler k answer s = (Ok (), s')
    \<and> serve_socket_answer n s' = Some (False, set_phase n Accepting s')
    \<and> c_port_writers (the_client (set_phase n Accepting s') k) = c_port_writers (the_client s k)"
proof (intro exI conjI)
  let ?s' = "snd (port_connected_handler k answer s)"
  show "port_connected_handler k answer s = (Ok (), ?s')"
    using assms(1,2) by (simp add: port_connected_handler_def send_connected_response_def prod_eq_iff)
  show "serve_socket_answer n ?s' = Some (False, set_phase n Accepting ?s')"
    using assms by (auto simp: port_connected_handler_def send_connected_response_def serve_socket_answer_def Let_def)
  show "c_port_writers (the_client (set_phase n Accepting ?s') k) = c_port_writers (the_client s k)"
    using assms(1,2) by (simp add: port_connected_handler_def send_connected_response_def)
qed

section \<open>The race\<close>

text \<open>
  C10. Between binding the port and the message that it is open, the handler of \<open>PortOpen\<close> waits for
  the lock on the client's ports and for its
  socket, and the listener already accepts. A visitor who comes in between is announced to
  the client ahead of \<open>PortOpened\<close>; \<open>np\<close> handles its messages in order, knows no such port yet and
  says so, and the server drops the visitor without a byte, although the port opens without an error.
\<close>

theorem early_connection_refused:
  fixes a :: arrival
  assumes rest: "P k = At_Rest" and frame: "client_recv decode (ar_frame a) = Ok (Some (C_PortOpen req))"
    and valid: "validate_open lc (as_hostnames s) req = Ok ()"
    and bound: "ar_bind a (''0.0.0.0:'' @ show_nat (unat (addr_port (from_address (po_remote_address req))))) = Some p"
    and opened: "port_opened_message (hn_tcp_hostname (as_hostnames s)) req (Ok p) = S_PortOpened opened"
    and k: "k \<in> set (rg_clients (as_registry s))" "c_ws_open (the_client s k)" "client_ok (the_client s k)"
    and np: "nc_connection c = Some cn" "cn_open cn"
      "nc_port_forwardings c (port_origin Tcp (from_address (pod_remote_address opened))) = None"
  shows "\<exists>s3 connect c' answer s4 s5.
      (await_step lc decode b)\<^sup>*\<^sup>* (s, P, V) (s3, P(k := At_Rest), V)
    \<and> sent_to s3 k = sent_to s k @ [S_PortConnect connect, S_PortOpened opened] \<and> pct_uuid connect = uuid
    \<and> pod_error opened = None
    \<and> np_message env tc (S_PortConnect connect) c = Return (Ready (Ok ()), c')
    \<and> nc_connection c' = Some (cn\<lparr>cn_sent := cn_sent cn @ [C_PortConnected answer]\<rparr>)
    \<and> pc_uuid answer = uuid \<and> pc_error answer = Some (display_np_error
          (PortOriginNotRegistered (port_origin Tcp (from_address (pod_remote_address opened)))))
    \<and> port_connected_handler k answer s3 = (Ok (), s4)
    \<and> serve_socket_answer (length (as_listeners s)) s4 = Some (False, s5)
    \<and> c_port_writers (the_client s5 k) = c_port_writers (the_client s k)"
proof -
  let ?n = "length (as_listeners s)" and ?origin = "port_origin Tcp (from_address (pod_remote_address opened))"
  let ?port = "\<lparr>p_closer = Some (length (as_listeners s)), p_port = p\<rparr>"
  let ?B = "P(k := Binding req (ar_bind a))" and ?R = "P(k := Registering req ?port)" and ?T = "P(k := Telling (S_PortOpened opened))"
  obtain s1 where s1: "finish_bind k req (ar_bind a) s = (Registering req ?port, s1)"
    "as_listeners s1 = as_listeners s @ [new_listener k s p]" "as_registry s1 = as_registry s" "as_hostnames s1 = as_hostnames s"
    using finish_bind_state [where bind = "ar_bind a" and req = req, OF bound] by blast
  obtain s2 m s3 where s2: "listener_step (Accepted uuid who) ?n s1 = Some s2"
    and s3: "send_to k (S_PortOpened opened) (snd (on_client k (\<lambda>c. ((), register_port ?port c)) s2)) = (Ok (), s3)"
      "sent_to s3 k = sent_to s k @ [S_PortConnect m, S_PortOpened opened]"
    and m: "pct_uuid m = uuid" "port_origin_from_raw (pct_protocol m) (pct_remote_address m) = Return ?origin"
    and t: "c_connect_requests (the_client s3 k) uuid = Some (c_next_channel (the_client s k))"
      "c_connect_channels (the_client s3 k) (c_next_channel (the_client s k)) = Waiting"
      "ls_client (as_listeners s3 ! ?n) = k"
      "ls_phase (as_listeners s3 ! ?n) = Connecting uuid (c_next_channel (the_client s k))"
    and w: "c_port_writers (the_client s3 k) = c_port_writers (the_client s k)"
    by (rule early_accept [OF s1(2,3) opened k, where uuid = uuid and port = ?port])
  have hosts: "as_hostnames s2 = as_hostnames s" using quiet_listener [OF s2] s1(4) by (simp add: quiet_def)
  have one: "await_step lc decode b (s, P, V) (s, ?B, V)"
    by (rule await_step.frame [where P = P and k = k, OF rest, where a = a])
      (simp add: session_begin_def frame begin_port_open_def valid)
  have two: "await_step lc decode b (s, ?B, V) (s1, ?R, V)"
    using resumes [of k ?B s "Registering req ?port" s1 lc decode b V] by (simp add: s1(1))
  have three: "await_step lc decode b (s1, ?R, V) (s2, ?R, V)"
    by (rule beside, rule listener, rule s2)
  have four: "await_step lc decode b (s2, ?R, V) (snd (on_client k (\<lambda>c. ((), register_port ?port c)) s2), ?T, V)"
    using resumes [of k ?R s2 "Telling (S_PortOpened opened)" _ lc decode b V] by (simp add: finish_register_def hosts opened)
  have "await_step lc decode b (snd (on_client k (\<lambda>c. ((), register_port ?port c)) s2), ?T, V) (s3, ?T(k := At_Rest), V)"
    by (rule resumes) (simp add: s3)
  then have run: "(await_step lc decode b)\<^sup>*\<^sup>* (s, P, V) (s3, P(k := At_Rest), V)"
    using one two three four by (simp add: converse_rtranclp_into_rtranclp)
  let ?answer = "\<lparr>pc_uuid = uuid, pc_error = Some (display_np_error (PortOriginNotRegistered ?origin))\<rparr>"
  have answer: "np_message env tc (S_PortConnect m) c = Return (Ready (Ok ()),
      c\<lparr>nc_connection := Some (cn\<lparr>cn_sent := cn_sent cn @ [C_PortConnected ?answer]\<rparr>)\<rparr>)"
    using np_send_open [OF np(1,2)] np(3) m by (simp add: np_message_def dispatch_connect_def port_connect_def)
  have "pc_error ?answer \<noteq> None" "pod_error opened = None" using opened by (auto simp: port_opened_message_def)
  with refusal_drops [OF _ t(2-4), of ?answer] t(1) w
  obtain s4 where s4: "port_connected_handler k ?answer s3 = (Ok (), s4)" "serve_socket_answer ?n s4 = Some (False, set_phase ?n Accepting s4)"
    "c_port_writers (the_client (set_phase ?n Accepting s4) k) = c_port_writers (the_client s k)" "pod_error opened = None" by auto
  show ?thesis
    using run s3(2) m(1) answer s4 by (intro exI conjI) (assumption | simp)+
qed

text \<open>A client that opens a port, and a visitor who is quicker than the confirmation.\<close>

definition sample_port_arrival :: arrival where
  "sample_port_arrival = \<lparr>ar_frame = Some (WsBinary []), ar_name = ''g-1'', ar_bind = \<lambda>_. Some 4022\<rparr>"

theorem early_connection_refused_witness:
  "\<exists>s3 connect opened c' answer s4 s5.
      (await_step (map ascii_lower) asks_port sample_build)\<^sup>*\<^sup>* (sample_state, \<lambda>_. At_Rest, {}) (s3, \<lambda>_. At_Rest, {})
    \<and> sent_to s3 0 = [S_PortConnect connect, S_PortOpened opened] \<and> pod_error opened = None
    \<and> np_message sample_hyper (\<lambda>_. None) (S_PortConnect connect) sample_fresh_np = Return (Ready (Ok ()), c')
    \<and> port_connected_handler 0 answer s3 = (Ok (), s4)
    \<and> serve_socket_answer 0 s4 = Some (False, s5) \<and> c_port_writers (the_client s5 0) = Map.empty"
proof -
  have c: "the_client sample_state 0 = (client_new sample_peer)\<lparr>c_hostnames := {''one.np.io''}\<rparr>"
    by (simp add: sample_state_def app_state_new_def claim_http_hostname_def claim_insert_def claim_add_def
      update_client_def add_http_hostname_def register_def registry_default_def client_new_def)
  have none: "as_listeners sample_state = []"
    by (simp add: sample_state_def app_state_new_def)
  have b: "validate_open (map ascii_lower) (as_hostnames sample_state) sample_port_request = Ok ()"
      "ar_bind sample_port_arrival (bind_address sample_port_request) = Some 4022"
    by (simp_all add: sample_port_arrival_def sample_port_request_def validate_open_def)
  obtain opened where o: "port_opened_message (hn_tcp_hostname (as_hostnames sample_state)) sample_port_request (Ok 4022) = S_PortOpened opened"
    by (simp add: port_opened_message_def)
  have f: "client_recv asks_port (ar_frame sample_port_arrival) = Ok (Some (C_PortOpen sample_port_request))"
    by (simp add: sample_port_arrival_def client_recv_def recv_data_def asks_port_def)
  have k: "0 \<in> set (rg_clients (as_registry sample_state))" "c_ws_open (the_client sample_state 0)" "client_ok (the_client sample_state 0)"
    using sample_state_ok(2,4) by (auto simp: c client_ok_def table_ok_def client_new_def)
  have np: "nc_connection sample_fresh_np = Some \<lparr>cn_open = True, cn_sent = []\<rparr>" "nc_port_forwardings sample_fresh_np x = None" for x
    by (simp_all add: sample_fresh_np_def sample_np_connection sample_np_def np_client_new_def)
  have up: "cn_open \<lparr>cn_open = True, cn_sent = []\<rparr>" by simp
  have same: "(\<lambda>_. At_Rest)(0 := At_Rest) = (\<lambda>_ :: nat. At_Rest)" by (simp add: fun_eq_iff)
  have sent: "sent_to sample_state 0 = []" "c_port_writers (the_client sample_state 0) = Map.empty"
    by (simp_all add: c client_new_def)
  show ?thesis
    using early_connection_refused [where P = "\<lambda>_. At_Rest" and V = "{}" and b = sample_build and env = sample_hyper
        and tc = "\<lambda>_. None" and uuid = "''u1''", OF refl f b o k np(1) up np(2)]
    unfolding same sent none append_Nil list.size(3) by blast
qed

end
