(* ===== verification/Lock_Order.thy ===== *)
theory Lock_Order
  imports Nport_Prelude
begin

text \<open>
  The locks of the server and of \<open>np\<close>, and what waiting for them depends on. Every operation is
  reduced to the locks it takes and gives back and its waits for the network, in the order of the
  code; Tokio's locks have one queue each, first in first out for readers and writers alike. The
  locks are ranked, and an operation that holds one asks only for higher ones; a wait for the
  network, which may never end, happens under the locks of the web socket only. (The guard of
  \<open>port_message\<close>, which waits for a channel rather than for a lock, is the subject of \<open>Port_Lock\<close>.)
\<close>

section \<open>Tasks that take locks\<close>

datatype mode = Shared | Exclusive

datatype 'l instr = Acquire 'l mode | Release 'l | Io

text \<open>A task: the locks it holds and what is left of it. The state: the tasks, and the queue of each lock.\<close>

type_synonym 'l task = "('l \<rightharpoonup> mode) \<times> 'l instr list"
type_synonym 'l sync = "(nat \<Rightarrow> 'l task) \<times> ('l \<Rightarrow> nat list)"

definition compatible :: "(nat \<Rightarrow> 'l task) \<Rightarrow> nat \<Rightarrow> 'l \<Rightarrow> mode \<Rightarrow> bool" where
  "compatible T i l m \<longleftrightarrow>
     (\<forall>j. j \<noteq> i \<longrightarrow> (case fst (T j) l of None \<Rightarrow> True | Some m' \<Rightarrow> m = Shared \<and> m' = Shared))"

text \<open>The steps on the locks, and those where the network lets a task go on.\<close>

inductive local_step :: "'l sync \<Rightarrow> 'l sync \<Rightarrow> bool" where
  queues: "\<lbrakk>T i = (h, Acquire l m # p); i \<notin> set (Q l)\<rbrakk> \<Longrightarrow> local_step (T, Q) (T, Q(l := Q l @ [i]))"
| granted: "\<lbrakk>Q l = i # q; T i = (h, Acquire l m # p); compatible T i l m\<rbrakk>
    \<Longrightarrow> local_step (T, Q) (T(i := (h(l \<mapsto> m), p)), Q(l := q))"
| releases: "T i = (h, Release l # p) \<Longrightarrow> local_step (T, Q) (T(i := (h(l := None), p)), Q)"

inductive sync_step :: "'l sync \<Rightarrow> 'l sync \<Rightarrow> bool" where
  locally: "local_step s s' \<Longrightarrow> sync_step s s'"
| talks: "T i = (h, Io # p) \<Longrightarrow> sync_step (T, Q) (T(i := (h, p)), Q)"

text \<open>A list of tasks, each with its operations one after the other, and all locks free.\<close>

definition work :: "('op \<Rightarrow> 'l instr list) \<Rightarrow> 'op list list \<Rightarrow> nat \<Rightarrow> 'l instr list" where
  "work program ops i = (if i < length ops then concat (map program (ops ! i)) else [])"

definition sync_start :: "('op \<Rightarrow> 'l instr list) \<Rightarrow> 'op list list \<Rightarrow> 'l sync" where
  "sync_start program ops = (\<lambda>i. (Map.empty, work program ops i), \<lambda>_. [])"

definition all_done :: "'l sync \<Rightarrow> bool" where
  "all_done s \<longleftrightarrow> (\<forall>i. snd (fst s i) = [])"

definition exclusion :: "'l sync \<Rightarrow> bool" where
  "exclusion s \<longleftrightarrow> (\<forall>i j l m m'. i \<noteq> j \<and> fst (fst s i) l = Some m \<and> fst (fst s j) l = Some m'
     \<longrightarrow> m = Shared \<and> m' = Shared)"

text \<open>A task that waits for the network, or in the queue of a lock which such a task has.\<close>

inductive held_up :: "'l sync \<Rightarrow> nat \<Rightarrow> bool" for s where
  at_io: "snd (fst s i) = Io # p \<Longrightarrow> held_up s i"
| behind: "\<lbrakk>snd (fst s i) = Acquire l m # p; i \<in> set (snd s l); fst (fst s k) l \<noteq> None; held_up s k\<rbrakk>
    \<Longrightarrow> held_up s i"

text \<open>A task that waits for the network or for one of the locks \<open>net\<close>.\<close>

definition waits_for_net :: "('l \<Rightarrow> bool) \<Rightarrow> 'l sync \<Rightarrow> nat \<Rightarrow> bool" where
  "waits_for_net net s i \<longleftrightarrow>
     (case snd (fst s i) of Io # p \<Rightarrow> True | Acquire l m # p \<Rightarrow> net l | _ \<Rightarrow> False)"

section \<open>Locks taken in order\<close>

text \<open>\<open>net\<close> are the locks that are held while waiting for the network; they are not asked for under others.\<close>

fun orderly :: "('l \<Rightarrow> nat) \<Rightarrow> ('l \<Rightarrow> bool) \<Rightarrow> 'l set \<Rightarrow> 'l instr list \<Rightarrow> bool" where
  "orderly rank net H [] \<longleftrightarrow> H = {}"
| "orderly rank net H (Acquire l m # p) \<longleftrightarrow>
     (\<forall>h \<in> H. rank h < rank l \<and> (net l \<longrightarrow> net h)) \<and> orderly rank net (insert l H) p"
| "orderly rank net H (Release l # p) \<longleftrightarrow> l \<in> H \<and> orderly rank net (H - {l}) p"
| "orderly rank net H (Io # p) \<longleftrightarrow> (\<forall>h \<in> H. net h) \<and> orderly rank net H p"

lemma orderly_append: "\<lbrakk>orderly rank net H p; orderly rank net {} q\<rbrakk> \<Longrightarrow> orderly rank net H (p @ q)"
  by (induction rank net H p rule: orderly.induct) auto

lemma orderly_concat: "(\<And>p. p \<in> set ps \<Longrightarrow> orderly rank net {} p) \<Longrightarrow> orderly rank net {} (concat ps)"
  by (induction ps) (simp_all add: orderly_append)

definition sync_ok :: "('l \<Rightarrow> nat) \<Rightarrow> ('l \<Rightarrow> bool) \<Rightarrow> nat \<Rightarrow> 'l sync \<Rightarrow> bool" where
  "sync_ok rank net n s \<longleftrightarrow>
     (\<forall>i. orderly rank net (dom (fst (fst s i))) (snd (fst s i)))
     \<and> (\<forall>i \<ge> n. snd (fst s i) = [])
     \<and> (\<forall>l. distinct (snd s l) \<and> (\<forall>i \<in> set (snd s l). \<exists>m p. snd (fst s i) = Acquire l m # p))
     \<and> exclusion s"

lemma exclusion_free: "\<lbrakk>exclusion (T, Q); compatible T i l m\<rbrakk> \<Longrightarrow> exclusion (T(i := ((fst (T i))(l \<mapsto> m), p)), Q')"
  unfolding exclusion_def compatible_def by (auto split: option.splits)

lemma exclusion_less:
  "\<lbrakk>exclusion s; \<And>j l m. fst (fst s' j) l = Some m \<Longrightarrow> fst (fst s j) l = Some m\<rbrakk> \<Longrightarrow> exclusion s'"
  unfolding exclusion_def by meson

lemma local_step_ok: "\<lbrakk>local_step s s'; sync_ok rank net n s\<rbrakk> \<Longrightarrow> sync_ok rank net n s'"
proof (induction rule: local_step.induct)
  case (queues T i h l m p Q)
  then show ?case by (auto simp: sync_ok_def exclusion_def)
next
  case (granted Q l i q T h m p)
  have "orderly rank net (insert l (dom h)) p"
    using granted(2,4) by (auto simp: sync_ok_def dest: spec [of _ i])
  moreover have "exclusion (T(i := (h(l \<mapsto> m), p)), Q(l := q))"
    using exclusion_free [of T Q i l m p "Q(l := q)"] granted(2,3,4) by (simp add: sync_ok_def)
  moreover have "i \<notin> set (Q l')" if "l' \<noteq> l" for l'
    using granted(2,4) that by (force simp: sync_ok_def)
  moreover have "distinct (i # q)"
    using granted(1,4) by (metis snd_conv sync_ok_def)
  ultimately show ?case
    using granted(1,2,4) unfolding sync_ok_def by (auto simp: less_le_not_le)
next
  case (releases T i h l p Q)
  have "orderly rank net (dom h - {l}) p"
    using releases by (auto simp: sync_ok_def dest: spec [of _ i])
  moreover have "i \<notin> set (Q l')" for l'
    using releases by (force simp: sync_ok_def)
  moreover have "exclusion (T(i := (h(l := None), p)), Q)"
    by (rule exclusion_less [of "(T, Q)"]) (use releases in \<open>auto simp: sync_ok_def split: if_splits\<close>)
  ultimately show ?case
    using releases unfolding sync_ok_def by (auto simp: less_le_not_le)
qed

lemma sync_step_ok: "\<lbrakk>sync_step s s'; sync_ok rank net n s\<rbrakk> \<Longrightarrow> sync_ok rank net n s'"
proof (induction rule: sync_step.induct)
  case (talks T i h p Q)
  have "orderly rank net (dom h) p"
    using talks by (auto simp: sync_ok_def dest: spec [of _ i])
  moreover have "i \<notin> set (Q l')" for l'
    using talks by (force simp: sync_ok_def)
  moreover have "exclusion (T(i := (h, p)), Q)"
    by (rule exclusion_less [of "(T, Q)"]) (use talks in \<open>auto simp: sync_ok_def split: if_splits\<close>)
  ultimately show ?case
    using talks unfolding sync_ok_def by (auto simp: less_le_not_le)
qed (rule local_step_ok)

section \<open>Only the network holds tasks up\<close>

lemma stuck_waits:
  assumes stuck: "\<And>s'. \<not> local_step s s'" and busy: "snd (fst s i) \<noteq> []"
  shows "(\<exists>p. snd (fst s i) = Io # p) \<or> (\<exists>l m p. snd (fst s i) = Acquire l m # p \<and> i \<in> set (snd s l))"
proof -
  obtain T Q where s: "s = (T, Q)" by fastforce
  obtain c p where c: "T i = (fst (T i), c # p)"
    using busy s by (cases "snd (T i)") (auto, metis prod.collapse)
  show ?thesis
  proof (cases c)
    case (Acquire l m)
    then show ?thesis using c stuck s queues [of T i "fst (T i)" l m p Q] by (metis fst_conv snd_conv)
  next
    case (Release l)
    then show ?thesis using c stuck s releases [of T i "fst (T i)" l p Q] by blast
  next
    case Io
    then show ?thesis using c s by (metis fst_conv snd_conv)
  qed
qed

text \<open>Somebody holds the lock that is waited for, and is not done.\<close>

lemma stuck_holder:
  assumes ok: "sync_ok rank net n s" and stuck: "\<And>s'. \<not> local_step s s'" and i: "i \<in> set (snd s l)"
  shows "\<exists>k. fst (fst s k) l \<noteq> None \<and> snd (fst s k) \<noteq> []"
proof -
  obtain T Q where s: "s = (T, Q)" by fastforce
  obtain j q where j: "Q l = j # q" using i s by (cases "Q l") auto
  then obtain m p where j': "T j = (fst (T j), Acquire l m # p)"
    using ok s by (auto simp: sync_ok_def) (metis list.set_intros(1) prod.collapse)
  have "\<not> compatible T j l m"
    using stuck s granted [of Q l j q T "fst (T j)" m p] j j' by blast
  then obtain k where k: "fst (T k) l \<noteq> None" by (auto simp: compatible_def split: option.splits)
  moreover have "orderly rank net (dom (fst (T k))) (snd (T k))"
    using ok s by (auto simp: sync_ok_def)
  then have "snd (T k) \<noteq> []" using k by (auto simp: dom_def)
  ultimately show ?thesis using s by auto
qed

lemma queued_asks: "\<lbrakk>sync_ok rank net n s; i \<in> set (snd s l)\<rbrakk> \<Longrightarrow> \<exists>m p. snd (fst s i) = Acquire l m # p"
  by (auto simp: sync_ok_def)

definition top_rank :: "('l \<Rightarrow> nat) \<Rightarrow> 'l sync \<Rightarrow> nat \<Rightarrow> nat" where
  "top_rank rank s n = Max (insert 0 ((\<lambda>i. case snd (fst s i) of Acquire l m # p \<Rightarrow> rank l | _ \<Rightarrow> 0) ` {..<n}))"

lemma asks_below_top:
  assumes "sync_ok rank net n s" "snd (fst s i) = Acquire l m # p"
  shows "rank l \<le> top_rank rank s n"
proof -
  have "i < n" using assms by (auto simp: sync_ok_def) (metis list.distinct(1) not_less)
  then show ?thesis unfolding top_rank_def using assms(2) by (intro Max_ge) (auto simp: image_iff intro!: exI [of _ i] bexI [of _ i])
qed

lemma stuck_held_up:
  assumes ok: "sync_ok rank net n s" and stuck: "\<And>s'. \<not> local_step s s'"
  shows "snd (fst s i) = Acquire l m # p \<Longrightarrow> held_up s i \<and> net l"
proof (induction "top_rank rank s n - rank l" arbitrary: i l m p rule: less_induct)
  case less
  have i: "i \<in> set (snd s l)" using stuck_waits [OF stuck, of i] less.prems by auto
  obtain k where k: "fst (fst s k) l \<noteq> None" "snd (fst s k) \<noteq> []" using stuck_holder [OF ok stuck i] by blast
  have ord: "l \<in> dom (fst (fst s k))" "orderly rank net (dom (fst (fst s k))) (snd (fst s k))"
    using k ok by (auto simp: sync_ok_def)
  have "held_up s k \<and> net l"
    using stuck_waits [OF stuck k(2)]
  proof
    assume "\<exists>p. snd (fst s k) = Io # p"
    then show ?thesis using ord at_io by (metis orderly.simps(4))
  next
    assume "\<exists>l m p. snd (fst s k) = Acquire l m # p \<and> k \<in> set (snd s l)"
    then obtain l' m' p' where k': "snd (fst s k) = Acquire l' m' # p'" by blast
    then have "rank l < rank l'" "net l' \<longrightarrow> net l" using ord by auto
    moreover have "rank l' \<le> top_rank rank s n" using asks_below_top [OF ok k'] .
    ultimately show ?thesis using less.hyps [OF _ k'] by simp
  qed
  then show ?case using behind [OF less.prems i k(1)] by blast
qed

lemma stuck_by_net:
  assumes "sync_ok rank net n s" "\<And>s'. \<not> local_step s s'" "snd (fst s i) \<noteq> []"
  shows "held_up s i \<and> waits_for_net net s i"
proof -
  have "(\<exists>p. snd (fst s i) = Io # p) \<or> (\<exists>l m p. snd (fst s i) = Acquire l m # p)"
    using stuck_waits [OF assms(2,3)] by blast
  then show ?thesis
    using stuck_held_up [OF assms(1,2)] by (auto simp: waits_for_net_def intro: at_io)
qed

lemma held_up_step: "held_up s i \<Longrightarrow> \<exists>s'. sync_step s s'"
proof (induction rule: held_up.induct)
  case (at_io i p)
  obtain T Q where s: "s = (T, Q)" by fastforce
  then show ?case using talks [of T i "fst (T i)" p Q] at_io by (metis fst_conv prod.collapse)
qed

lemma stuck_done:
  assumes "sync_ok rank net n s" "\<And>s'. \<not> sync_step s s'"
  shows "all_done s"
  using stuck_by_net [OF assms(1)] assms(2) locally held_up_step unfolding all_done_def by blast

text \<open>What is left to do gets less with every step.\<close>

definition waiting :: "'l sync \<Rightarrow> nat \<Rightarrow> bool" where
  "waiting s i \<longleftrightarrow> (case snd (fst s i) of Acquire l m # p \<Rightarrow> i \<in> set (snd s l) | _ \<Rightarrow> False)"

definition left :: "'l sync \<Rightarrow> nat \<Rightarrow> nat" where
  "left s i = 2 * length (snd (fst s i)) + (if waiting s i then 0 else 1)"

lemma busy_index: "\<lbrakk>sync_ok rank net n (T, Q); snd (T i) \<noteq> []\<rbrakk> \<Longrightarrow> i < n"
  by (auto simp: sync_ok_def) (metis not_less)

lemma left_local_step:
  assumes "local_step s s'" "sync_ok rank net n s"
  shows "\<exists>i < n. left s' i < left s i \<and> (\<forall>j. j \<noteq> i \<longrightarrow> left s' j = left s j)"
  using assms
proof (induction rule: local_step.induct)
  case (queues T i h l m p Q)
  then have "i < n" using busy_index [of rank net n T Q i] by simp
  then show ?case
    using queues by (intro exI [of _ i]) (auto simp: left_def waiting_def split: list.splits instr.splits)
next
  case (granted Q l i q T h m p)
  then have "i < n" using busy_index [of rank net n T Q i] by simp
  moreover have "i \<notin> set q" using granted(1,4) by (metis distinct.simps(2) snd_conv sync_ok_def)
  ultimately show ?case
    using granted(1,2) by (intro exI [of _ i]) (auto simp: left_def waiting_def split: list.splits instr.splits)
next
  case (releases T i h l p Q)
  then have "i < n" using busy_index [of rank net n T Q i] by simp
  then show ?case
    using releases by (intro exI [of _ i]) (auto simp: left_def waiting_def split: list.splits instr.splits)
qed

lemma left_step:
  assumes "sync_step s s'" "sync_ok rank net n s"
  shows "\<exists>i < n. left s' i < left s i \<and> (\<forall>j. j \<noteq> i \<longrightarrow> left s' j = left s j)"
  using assms
proof (induction rule: sync_step.induct)
  case (talks T i h p Q)
  then have "i < n" using busy_index [of rank net n T Q i] by simp
  then show ?case
    using talks by (intro exI [of _ i]) (auto simp: left_def waiting_def split: list.splits instr.splits)
qed (rule left_local_step)

lemma left_sum: "\<lbrakk>sync_step s s'; sync_ok rank net n s\<rbrakk> \<Longrightarrow> sum (left s') {..<n} < sum (left s) {..<n}"
proof -
  assume "sync_step s s'" "sync_ok rank net n s"
  from left_step [OF this] obtain i where i: "i < n" "left s' i < left s i" "\<And>j. j \<noteq> i \<Longrightarrow> left s' j = left s j"
    by blast
  have "left s' j \<le> left s j" for j
    using i(2,3) by (cases "j = i") auto
  then show ?thesis
    by (intro sum_strict_mono_ex1) (use i(1,2) in auto)
qed

lemma sync_steps_ok:
  assumes "(sync_step ^^ m) s t" "sync_ok rank net n s"
  shows "sync_ok rank net n t \<and> sum (left t) {..<n} + m \<le> sum (left s) {..<n}"
  using assms(1)
proof (induction m arbitrary: t)
  case (Suc m)
  then obtain u where u: "(sync_step ^^ m) s u" "sync_step u t" by auto
  have "sync_ok rank net n u" "sum (left u) {..<n} + m \<le> sum (left s) {..<n}"
    using Suc.IH [OF u(1)] by simp_all
  then show ?case
    using left_sum [OF u(2), of rank net n] sync_step_ok [OF u(2), of rank net n] by simp
qed (simp add: assms(2))

text \<open>A program whose operations take their locks in the order of a rank, alone or many at a time.\<close>

locale lock_order =
  fixes rank :: "'l \<Rightarrow> nat" and net :: "'l \<Rightarrow> bool" and program :: "'op \<Rightarrow> 'l instr list"
  assumes in_rank_order: "orderly rank net {} (program op)"
begin

lemma start_ok: "sync_ok rank net (length ops) (sync_start program ops)"
proof -
  have "orderly rank net {} (work program ops i)" for i
    using in_rank_order by (auto simp: work_def intro!: orderly_concat)
  then show ?thesis
    by (auto simp: sync_ok_def sync_start_def exclusion_def work_def)
qed

lemma finishes:
  assumes "(sync_step ^^ m) (sync_start program ops) s"
  shows "exclusion s" "(\<forall>s'. \<not> sync_step s s') \<longleftrightarrow> all_done s"
    "m \<le> (\<Sum>i < length ops. 2 * length (work program ops i) + 1)"
    "(\<forall>s'. \<not> local_step s s') \<Longrightarrow> snd (fst s i) \<noteq> [] \<Longrightarrow> held_up s i \<and> waits_for_net net s i"
proof -
  note run = sync_steps_ok [OF assms start_ok]
  then show "exclusion s" by (simp add: sync_ok_def)
  show "held_up s i \<and> waits_for_net net s i" if "\<forall>s'. \<not> local_step s s'" "snd (fst s i) \<noteq> []"
    using stuck_by_net run that by blast
  have "\<not> sync_step s s'" if "all_done s" for s'
    using that by (auto simp: all_done_def elim!: sync_step.cases local_step.cases) (metis list.distinct(1) snd_conv)+
  then show "(\<forall>s'. \<not> sync_step s s') \<longleftrightarrow> all_done s"
    using stuck_done run by blast
  have "left (sync_start program ops) i \<le> 2 * length (work program ops i) + 1" for i
    by (simp add: left_def sync_start_def)
  then have "sum (left (sync_start program ops)) {..<length ops} \<le> (\<Sum>i < length ops. 2 * length (work program ops i) + 1)"
    by (rule sum_mono)
  then show "m \<le> (\<Sum>i < length ops. 2 * length (work program ops i) + 1)"
    using run by linarith
qed

end

section \<open>The locks of the server\<close>

datatype server_lock =
    Clients_Lock
  | Claimed_Lock
  | Hostnames_Lock nat
  | Ws_Sender_Lock nat
  | Ws_Receiver_Lock nat
  | Http_Requests_Lock nat
  | Connect_Requests_Lock nat
  | Open_Ports_Lock nat
  | Port_Writers_Lock nat

fun server_rank :: "server_lock \<Rightarrow> nat" where
  "server_rank Clients_Lock = 0"
| "server_rank Claimed_Lock = 1"
| "server_rank _ = 2"

text \<open>The locks of the two halves of the web socket, which are held while it is waited for.\<close>

fun server_net :: "server_lock \<Rightarrow> bool" where
  "server_net (Ws_Sender_Lock k) = True"
| "server_net (Ws_Receiver_Lock k) = True"
| "server_net _ = False"

abbreviation briefly :: "'l \<Rightarrow> mode \<Rightarrow> 'l instr list" where
  "briefly l m \<equiv> [Acquire l m, Release l]"

text \<open>
  \<open>registry.rs\<close>. The flags are the outcomes the code branches on: whether the client is on the list,
  whether the name was free, whether the client held it. \<open>Lookup_Op\<close> has the clients it looks at,
  up to the one that holds the name; the list stays locked meanwhile.
\<close>

datatype registry_op =
    Register_Op
  | Deregister_Op nat bool
  | Claim_Op nat bool
  | Release_Op nat bool
  | Lookup_Op "nat list"

fun registry_locks :: "registry_op \<Rightarrow> server_lock instr list" where
  "registry_locks Register_Op = briefly Clients_Lock Exclusive"
| "registry_locks (Deregister_Op k found) =
     Acquire Clients_Lock Exclusive #
       (if found then Acquire Claimed_Lock Exclusive # briefly (Hostnames_Lock k) Shared @ [Release Claimed_Lock] else [])
     @ [Release Clients_Lock]"
| "registry_locks (Claim_Op k free) =
     briefly Claimed_Lock Exclusive @ (if free then briefly (Hostnames_Lock k) Exclusive else [])"
| "registry_locks (Release_Op k held) =
     briefly (Hostnames_Lock k) Exclusive @ (if held then briefly Claimed_Lock Exclusive else [])"
| "registry_locks (Lookup_Op ks) =
     Acquire Clients_Lock Shared # concat (map (\<lambda>k. briefly (Hostnames_Lock k) Shared) ks) @ [Release Clients_Lock]"

text \<open>
  \<open>client.rs\<close>, without \<open>port_message\<close>. \<open>recv_data\<close> and \<open>send\<close> wait for the web socket while they hold its
  half.
\<close>

datatype client_op =
    Request_Register_Op
  | Response_Send_Op
  | Connect_Register_Op
  | Connected_Send_Op
  | Port_Register_Op
  | Recv_Op
  | Writer_Register_Op
  | Writer_Remove_Op
  | Send_Op

fun client_locks :: "nat \<Rightarrow> client_op \<Rightarrow> server_lock instr list" where
  "client_locks k Request_Register_Op = briefly (Http_Requests_Lock k) Exclusive"
| "client_locks k Response_Send_Op = briefly (Http_Requests_Lock k) Exclusive"
| "client_locks k Connect_Register_Op = briefly (Connect_Requests_Lock k) Exclusive"
| "client_locks k Connected_Send_Op = briefly (Connect_Requests_Lock k) Exclusive"
| "client_locks k Port_Register_Op = briefly (Open_Ports_Lock k) Exclusive"
| "client_locks k Recv_Op = [Acquire (Ws_Receiver_Lock k) Exclusive, Io, Release (Ws_Receiver_Lock k)]"
| "client_locks k Writer_Register_Op = briefly (Port_Writers_Lock k) Exclusive"
| "client_locks k Writer_Remove_Op = briefly (Port_Writers_Lock k) Exclusive"
| "client_locks k Send_Op = [Acquire (Ws_Sender_Lock k) Exclusive, Io, Release (Ws_Sender_Lock k)]"

datatype server_op = On_Registry registry_op | On_Client nat client_op

fun server_locks :: "server_op \<Rightarrow> server_lock instr list" where
  "server_locks (On_Registry r) = registry_locks r"
| "server_locks (On_Client k c) = client_locks k c"

section \<open>The locks of \<open>np\<close>\<close>

datatype np_lock =
    Connection_Lock
  | Sender_Lock
  | Receiver_Lock
  | Http_Forwardings_Lock
  | Port_Forwardings_Lock
  | Np_Writers_Lock

fun np_rank :: "np_lock \<Rightarrow> nat" where
  "np_rank Connection_Lock = 0"
| "np_rank _ = 1"

fun np_net :: "np_lock \<Rightarrow> bool" where
  "np_net Connection_Lock = True"
| "np_net Sender_Lock = True"
| "np_net Receiver_Lock = True"
| "np_net _ = False"

text \<open>
  \<open>np/src/client.rs\<close>. The flags: whether there is a connection, whether the message has no error, whether
  the origin is known (then the task of the connection registers its writer). \<open>send\<close> and \<open>recv\<close> wait
  for the web socket under its half and the connection; \<open>connect\<close> connects before it takes the lock.
\<close>

datatype np_op =
    Np_Connect_Op
  | Np_Disconnect_Op
  | Np_Http_Register_Op bool
  | Np_Http_Deregister_Op
  | Np_Http_Port_Op
  | Np_Port_Register_Op bool
  | Np_Writer_Register_Op
  | Np_Writer_Remove_Op
  | Np_Port_Connect_Op bool
  | Np_Send_Op bool
  | Np_Recv_Op bool
  | Np_Http_List_Op
  | Np_Port_List_Op

fun np_locks :: "np_op \<Rightarrow> np_lock instr list" where
  "np_locks Np_Connect_Op = briefly Connection_Lock Exclusive"
| "np_locks Np_Disconnect_Op = briefly Connection_Lock Exclusive @ briefly Http_Forwardings_Lock Exclusive
     @ briefly Port_Forwardings_Lock Exclusive @ briefly Np_Writers_Lock Exclusive"
| "np_locks (Np_Http_Register_Op good) = (if good then briefly Http_Forwardings_Lock Exclusive else [])"
| "np_locks Np_Http_Deregister_Op = briefly Http_Forwardings_Lock Exclusive"
| "np_locks Np_Http_Port_Op = briefly Http_Forwardings_Lock Shared"
| "np_locks (Np_Port_Register_Op good) = (if good then briefly Port_Forwardings_Lock Exclusive else [])"
| "np_locks Np_Writer_Register_Op = briefly Np_Writers_Lock Exclusive"
| "np_locks Np_Writer_Remove_Op = briefly Np_Writers_Lock Exclusive"
| "np_locks (Np_Port_Connect_Op known) =
     briefly Port_Forwardings_Lock Shared @ (if known then briefly Np_Writers_Lock Exclusive else [])"
| "np_locks (Np_Send_Op up) =
     Acquire Connection_Lock Shared # (if up then [Acquire Sender_Lock Exclusive, Io, Release Sender_Lock] else []) @ [Release Connection_Lock]"
| "np_locks (Np_Recv_Op up) =
     Acquire Connection_Lock Shared # (if up then [Acquire Receiver_Lock Exclusive, Io, Release Receiver_Lock] else []) @ [Release Connection_Lock]"
| "np_locks Np_Http_List_Op = briefly Http_Forwardings_Lock Shared"
| "np_locks Np_Port_List_Op = briefly Port_Forwardings_Lock Shared"

section \<open>Both take their locks in order\<close>

lemma orderly_lookup: "orderly server_rank server_net {Clients_Lock}
    (concat (map (\<lambda>k. briefly (Hostnames_Lock k) Shared) ks) @ [Release Clients_Lock])"
  by (induction ks) (simp_all add: insert_Diff_if)

interpretation server_sync: lock_order server_rank server_net server_locks
proof
  fix op
  have "orderly server_rank server_net {} (registry_locks r)" for r
    using orderly_lookup by (cases r) (simp_all add: insert_Diff_if)
  moreover have "orderly server_rank server_net {} (client_locks k c)" for k c
    by (cases c) simp_all
  ultimately show "orderly server_rank server_net {} (server_locks op)" by (cases op) simp_all
qed

interpretation np_sync: lock_order np_rank np_net np_locks
proof
  fix op
  show "orderly np_rank np_net {} (np_locks op)" by (cases op) (simp_all add: insert_Diff_if)
qed

text \<open>
  C23. Locks do not block each other, on the server and in \<open>np\<close>; only the network can. Let any number
  of tasks run any operations on the registry, on any client objects, or on the client of \<open>np\<close>
  (all but \<open>port_message\<close>), with Tokio's fair queues. A lock that one task has for writing is held by
  nobody else. As long as some task is not done some step is possible, if only that the network
  lets a task go on, and a run has no more steps than twice the instructions of its tasks and
  one for each: if every wait for the network ends, every task is done. If no step on the locks is
  possible, because the network stalls, each task that is not done waits for the network or in
  the queue of a lock whose owner does, in the end, and the lock is one of a web socket (for \<open>np\<close>
  also that of its connection). So a peer that stalls never holds up an operation on the
  registry, on the tables of requests, ports and writers, or on the forwardings.
\<close>

theorem locks_never_deadlock:
  "(\<forall>m s. (sync_step ^^ m) (sync_start server_locks ops) s \<longrightarrow>
      exclusion s \<and> ((\<forall>s'. \<not> sync_step s s') \<longleftrightarrow> all_done s)
      \<and> m \<le> (\<Sum>i < length ops. 2 * length (work server_locks ops i) + 1)
      \<and> ((\<forall>s'. \<not> local_step s s') \<longrightarrow>
           (\<forall>i. snd (fst s i) \<noteq> [] \<longrightarrow> held_up s i \<and> waits_for_net server_net s i)))
   \<and> (\<forall>m s. (sync_step ^^ m) (sync_start np_locks nops) s \<longrightarrow>
      exclusion s \<and> ((\<forall>s'. \<not> sync_step s s') \<longleftrightarrow> all_done s)
      \<and> m \<le> (\<Sum>i < length nops. 2 * length (work np_locks nops i) + 1)
      \<and> ((\<forall>s'. \<not> local_step s s') \<longrightarrow>
           (\<forall>i. snd (fst s i) \<noteq> [] \<longrightarrow> held_up s i \<and> waits_for_net np_net s i)))"
proof (intro conjI allI impI)
  fix m s assume run: "(sync_step ^^ m) (sync_start server_locks ops) s"
  note ends = server_sync.finishes [OF run]
  show "exclusion s" "(\<forall>s'. \<not> sync_step s s') = all_done s"
    "m \<le> (\<Sum>i < length ops. 2 * length (work server_locks ops i) + 1)" by (fact ends)+
  show "held_up s i" "waits_for_net server_net s i" if "\<forall>s'. \<not> local_step s s'" "snd (fst s i) \<noteq> []" for i
    using ends(4) [OF that] by blast+
next
  fix m s assume run: "(sync_step ^^ m) (sync_start np_locks nops) s"
  note ends = np_sync.finishes [OF run]
  show "exclusion s" "(\<forall>s'. \<not> sync_step s s') = all_done s"
    "m \<le> (\<Sum>i < length nops. 2 * length (work np_locks nops i) + 1)" by (fact ends)+
  show "held_up s i" "waits_for_net np_net s i" if "\<forall>s'. \<not> local_step s s'" "snd (fst s i) \<noteq> []" for i
    using ends(4) [OF that] by blast+
qed

text \<open>A client that leaves while a request looks for the owner of its name.\<close>

theorem locks_never_deadlock_witness:
  "\<exists>s. (sync_step ^^ 1) (sync_start server_locks [[On_Registry (Deregister_Op 0 True)], [On_Registry (Lookup_Op [0, 1])]]) s
     \<and> (\<exists>s'. local_step s s')"
proof -
  let ?ops = "[[On_Registry (Deregister_Op 0 True)], [On_Registry (Lookup_Op [0, 1])]]"
  let ?s = "(fst (sync_start server_locks ?ops), (snd (sync_start server_locks ?ops))(Clients_Lock := [0]))"
  have "local_step (sync_start server_locks ?ops) ?s"
    using queues [of "fst (sync_start server_locks ?ops)" 0 Map.empty Clients_Lock Exclusive _ "snd (sync_start server_locks ?ops)"]
    by (simp add: sync_start_def work_def)
  then have one: "(sync_step ^^ 1) (sync_start server_locks ?ops) ?s"
    unfolding relpowp_1 by (rule locally)
  have zero: "snd (fst ?s 0) \<noteq> []" "\<not> waits_for_net server_net ?s 0"
    by (simp_all add: sync_start_def work_def waits_for_net_def)
  have "\<exists>s'. local_step ?s s'"
    using locks_never_deadlock [of ?ops "[]"] one zero by blast
  with one show ?thesis by blast
qed

end
