(* ===== verification/Reconnect.thy ===== *)
theory Reconnect
  imports Np_Run Port_Props Session_Props
begin

text \<open>
  What is left of the old connection when \<open>np\<close> reconnects. \<open>Client::disconnect\<close> clears the tables,
  but \<open>run\<close> calls it only after a failed attempt: when reading fails it goes straight on to
  \<open>connect\<close>, with the tables of the old session and with its copying tasks still running.
\<close>

section \<open>A round that connects\<close>

text \<open>A request to open a tunnel.\<close>

definition tunnel_request :: "client_message \<Rightarrow> bool" where
  "tunnel_request m \<longleftrightarrow> (\<exists>r. m = C_HttpOpen r) \<or> (\<exists>r. m = C_PortOpen r)"

lemma open_tunnel_sends:
  "nc_connection c = Some \<lparr>cn_open = True, cn_sent = ms\<rparr> \<Longrightarrow>
     \<exists>m. tunnel_request m \<and> open_tunnel t c = (Ok (), c\<lparr>nc_connection := Some \<lparr>cn_open = True, cn_sent = ms @ [m]\<rparr>\<rparr>)"
  by (auto simp: tunnel_request_def open_tunnel_def np_http_open_def np_tcp_open_def np_port_open_def np_send_def split: tunnel.split)

lemma open_tunnels_send:
  "nc_connection c = Some \<lparr>cn_open = True, cn_sent = ms\<rparr> \<Longrightarrow>
     \<exists>ms'. length ms' = length ts \<and> list_all tunnel_request ms'
       \<and> open_tunnels ts c n = ([], Some (c\<lparr>nc_connection := Some \<lparr>cn_open = True, cn_sent = ms @ ms'\<rparr>\<rparr>, n))"
proof (induction ts arbitrary: c ms)
  case Nil
  then show ?case by simp
next
  case (Cons t ts)
  obtain m where m: "tunnel_request m" "open_tunnel t c = (Ok (), c\<lparr>nc_connection := Some \<lparr>cn_open = True, cn_sent = ms @ [m]\<rparr>\<rparr>)"
    using open_tunnel_sends [OF Cons.prems] by blast
  obtain ms' where "length ms' = length ts" "list_all tunnel_request ms'"
    "open_tunnels ts (c\<lparr>nc_connection := Some \<lparr>cn_open = True, cn_sent = ms @ [m]\<rparr>\<rparr>) n
      = ([], Some (c\<lparr>nc_connection := Some \<lparr>cn_open = True, cn_sent = (ms @ [m]) @ ms'\<rparr>\<rparr>, n))"
    using Cons.IH [of "c\<lparr>nc_connection := Some \<lparr>cn_open = True, cn_sent = ms @ [m]\<rparr>\<rparr>" "ms @ [m]"] by auto
  then show ?case using m by (intro exI [of _ "m # ms'"]) simp
qed

section \<open>The new session, up to the stray message\<close>

text \<open>What the session of \<open>k\<close> is like while it opens tunnels: on an open socket, with no writer.\<close>

definition opening_tunnels :: "nat \<Rightarrow> app_state \<Rightarrow> bool" where
  "opening_tunnels k s \<longleftrightarrow> c_ws_open (the_client s k) \<and> c_port_writers (the_client s k) = Map.empty"

lemma send_keeps_opening: "opening_tunnels k s \<Longrightarrow> fst (send_to k m s) = Ok () \<and> opening_tunnels k (snd (send_to k m s))"
  by (simp add: opening_tunnels_def send_to_def client_send_def)

lemma http_open_keeps_opening:
  assumes "opening_tunnels k s"
  shows "fst (http_open_handler lc name k req s) = Ok () \<and> opening_tunnels k (snd (http_open_handler lc name k req s))"
proof -
  have claim: "opening_tunnels k (snd (on_registry (claim_http_hostname k h) s))" for h
    using assms by (auto simp: opening_tunnels_def claim_http_hostname_def claim_insert_def claim_add_def update_client_def
        add_http_hostname_def split: bool.splits)
  then have "opening_tunnels k (hostnames_inc (snd (on_registry (claim_http_hostname k h) s)))" for h
    by (simp add: opening_tunnels_def)
  then show ?thesis
    using assms claim by (auto simp: http_open_handler_def Let_def case_prod_unfold send_keeps_opening split: sum.splits)
qed

lemma port_open_keeps_opening:
  assumes "opening_tunnels k s"
  shows "fst (port_open_handler lc bind k req s) = Ok () \<and> opening_tunnels k (snd (port_open_handler lc bind k req s))"
proof -
  have server: "opening_tunnels k (snd (port_server bind k h a s))" for h a
    using assms by (simp add: opening_tunnels_def port_server_def split: option.splits)
  then have "opening_tunnels k (snd (on_client k (\<lambda>c. ((), register_port p c)) (snd (port_server bind k h a s))))" for p h a
    by (simp add: opening_tunnels_def register_port_def)
  then show ?thesis
    using assms server
    by (auto simp: port_open_handler_def Let_def case_prod_unfold send_keeps_opening split: sum.splits option.splits)
qed

lemma tunnel_turn:
  assumes "opening_tunnels k s" "client_recv decode (ar_frame a) = Ok (Some m)" "tunnel_request m"
  shows "\<exists>s'. session_turn lc decode k a s = (Continue, s') \<and> opening_tunnels k s'"
  using assms http_open_keeps_opening [OF assms(1)] port_open_keeps_opening [OF assms(1)]
  by (auto simp: tunnel_request_def session_turn_def msg_def case_prod_unfold)

lemma tunnel_turns:
  assumes "opening_tunnels k s" "list_all2 (\<lambda>a m. client_recv decode (ar_frame a) = Ok (Some m)) arr ms" "list_all tunnel_request ms"
  shows "\<exists>s'. opening_tunnels k s' \<and> session_loop lc decode k arr s = (False, s')
    \<and> (\<forall>a. session_loop lc decode k (arr @ [a]) s = session_loop lc decode k [a] s')"
  using assms(2,1,3)
proof (induction arr ms arbitrary: s rule: list_all2_induct)
  case (Cons a arr m ms)
  obtain s1 where s1: "session_turn lc decode k a s = (Continue, s1)" "opening_tunnels k s1"
    using tunnel_turn [OF Cons.prems(1) Cons.hyps(1)] Cons.prems(2) by auto
  then show ?case using Cons.IH [OF s1(2)] Cons.prems(2) by auto
qed simp

text \<open>A session that has ended: its client is off the list, and no name is routed to it.\<close>

lemma session_end_gone:
  assumes "registry_ok (as_registry s)" "k \<in> set (rg_clients (as_registry s))"
  shows "k \<notin> set (rg_clients (as_registry (session_end k s)))" "route (session_end k s) h \<noteq> Some k"
proof -
  note leave = deregister_live [OF assms]
  show gone: "k \<notin> set (rg_clients (as_registry (session_end k s)))"
    using leave(4) by (simp add: session_end_def)
  have "registry_ok (as_registry (session_end k s))"
    using leave(2) by (simp add: session_end_def)
  from owner_iff [OF this, of h k] show "route (session_end k s) h \<noteq> Some k" using gone by blast
qed

section \<open>The end of a session and the next one\<close>

text \<open>
  C8. A connection that \<open>np\<close> loses while a visitor is connected costs it the next session as well.
  Reading fails; \<open>np\<close> connects again and asks for its tunnels, on the tables of the old session; the
  copying task of the visitor's connection is still running, and what it reads from the local
  service (data, or the end that is sure to come) it sends on the new connection, after those requests. The server
  starts a session for it, handles the requests for the tunnels, and goes on to wait; the stray message is for
  a connection it does not know in this session, so it ends the session: the client is off the list and none of its host names is routed any more.
\<close>

theorem stale_task_ends_new_session:
  assumes lost: "np_recv dec f c = Err e" and task: "np_running p"
    and reg: "registry_ok (as_registry s)" and k: "k = rg_next (as_registry s)"
  shows "read_loop dec env tc (f # fs) c = Return (True, c)
    \<and> (\<exists>c' ms m. open_tunnels tunnels (snd (np_connect (\<lambda>_. None) os (se_hostname st) (se_secure st) c)) 0
          = ([], Some (c', 0))
        \<and> nc_http_forwardings c' = nc_http_forwardings c \<and> nc_port_forwardings c' = nc_port_forwardings c
        \<and> nc_port_writers c' = nc_port_writers c
        \<and> nc_connection c' = Some \<lparr>cn_open = True, cn_sent = ms\<rparr> \<and> length ms = length tunnels
        \<and> np_sent (np_pump_step True True (FromSocket (ReadOk bs)) p) = np_sent p @ [m]
        \<and> nc_connection (snd (np_send m c')) = Some \<lparr>cn_open = True, cn_sent = ms @ [m]\<rparr>
        \<and> (\<forall>arr a. list_all2 (\<lambda>a m. client_recv decode (ar_frame a) = Ok (Some m)) arr ms
              \<and> client_recv decode (ar_frame a) = Ok (Some m) \<longrightarrow>
             (\<exists>s2 s3. handle_socket lc decode b who True arr s = (False, s2) \<and> k \<in> set (rg_clients (as_registry s2))
                \<and> handle_socket lc decode b who True (arr @ [a]) s = (True, s3) \<and> k \<notin> set (rg_clients (as_registry s3))
                \<and> (\<forall>h. get_by_http_hostname h (as_registry s3) \<noteq> Some k))))"
proof -
  let ?c = "snd (np_connect (\<lambda>_. None) os (se_hostname st) (se_secure st) c)"
  let ?m = "if bs = [] then C_PortClose \<lparr>pcl_uuid = np_uuid p\<rparr> else C_PortReceive \<lparr>pr_uuid = np_uuid p, pr_data = bs\<rparr>"
  have conn: "?c = c\<lparr>nc_connection := Some \<lparr>cn_open = True, cn_sent = []\<rparr>\<rparr>"
    by (simp add: np_connect_def)
  then obtain ms where ms: "length ms = length tunnels" "list_all tunnel_request ms"
    "open_tunnels tunnels ?c 0 = ([], Some (c\<lparr>nc_connection := Some \<lparr>cn_open = True, cn_sent = ms\<rparr>\<rparr>, 0))"
    using open_tunnels_send [of ?c "[]" tunnels 0] by auto
  have sends: "np_sent (np_pump_step True True (FromSocket (ReadOk bs)) p) = np_sent p @ [?m]"
    using task by (simp add: np_pump_step_def np_pump_break_def Let_def)
  obtain r s1 where st: "session_start b who True s = (r, s1)" by fastforce
  then have r: "r = Ok k" using session_start_result [of b who True s] k by simp
  have s1: "opening_tunnels k s1"
    using st k by (auto simp: opening_tunnels_def session_start_def Let_def case_prod_unfold send_welcome_def register_def
        client_new_def send_to_def client_send_def split: sum.splits if_splits)
  note start = session_start_state [OF reg st]
  have on: "k \<in> set (rg_clients (as_registry s1))" using start(3) k by simp
  have stays: "registry_ok (as_registry t) \<and> k \<in> set (rg_clients (as_registry t))"
    if "session_loop lc decode k arr s1 = (d, t)" for arr d t
    using loop_local [OF on, of lc decode arr] that start(1) on by (simp add: local_to_def)
  have ends: "\<exists>s2 s3. handle_socket lc decode b who True arr s = (False, s2) \<and> k \<in> set (rg_clients (as_registry s2))
      \<and> handle_socket lc decode b who True (arr @ [a]) s = (True, s3) \<and> k \<notin> set (rg_clients (as_registry s3))
      \<and> (\<forall>h. route s3 h \<noteq> Some k)"
    if arr: "list_all2 (\<lambda>a m. client_recv decode (ar_frame a) = Ok (Some m)) arr ms"
      "client_recv decode (ar_frame a) = Ok (Some ?m)" for arr a
  proof -
    obtain s2 where s2: "opening_tunnels k s2" "session_loop lc decode k arr s1 = (False, s2)"
      "session_loop lc decode k (arr @ [a]) s1 = session_loop lc decode k [a] s2"
      using tunnel_turns [OF s1 arr(1) ms(2)] by blast
    have none: "c_port_writers (the_client s2 k) (np_uuid p) = None" using s2(1) by (simp add: opening_tunnels_def)
    have "fst (session_turn lc decode k a s2) = Break"
      by (rule stray_port_data_ends_session [where bs = bs, OF none arr(2)]) auto
    then obtain t where t: "session_loop lc decode k (arr @ [a]) s1 = (True, t)"
      unfolding s2(3) by (cases "session_turn lc decode k a s2") auto
    show ?thesis
      using st r s2(2) t stays [OF s2(2)] stays [OF t] session_end_gone [of t k]
      by (intro exI [of _ s2] exI [of _ "session_end k t"]) (simp add: handle_socket_def)
  qed
  show ?thesis
    using lost ms(1,3) sends ends
    by (intro conjI exI [of _ "c\<lparr>nc_connection := Some \<lparr>cn_open = True, cn_sent = ms\<rparr>\<rparr>"] exI [of _ ms] exI [of _ ?m])
      (simp_all add: np_send_def)
qed

text \<open>A tunnel for one host name, and the end of a connection of the session before.\<close>

definition sample_last_word :: client_message where
  "sample_last_word = C_PortClose \<lparr>pcl_uuid = ''u1''\<rparr>"

definition sample_opening :: client_message where
  "sample_opening = C_HttpOpen \<lparr>ho_hostname = Some ''two'', ho_local_address = Some (to_address (from_port 3000))\<rparr>"

definition sample_words :: "bytes \<Rightarrow> client_payload option" where
  "sample_words bs = Some (Some (if bs = [] then sample_last_word else sample_opening))"

abbreviation sample_word :: "bytes \<Rightarrow> arrival" where
  "sample_word bs \<equiv> \<lparr>ar_frame = Some (WsBinary bs), ar_name = ''g-1'', ar_bind = \<lambda>_. None\<rparr>"

theorem stale_task_ends_new_session_witness:
  "\<exists>c' s2 s3. open_tunnels [HttpTunnel (Some ''two'') (from_port 3000)]
        (snd (np_connect (\<lambda>_. None) ''linux'' (se_hostname sample_settings) (se_secure sample_settings) sample_np)) 0 = ([], Some (c', 0))
     \<and> nc_connection c' = Some \<lparr>cn_open = True, cn_sent = [sample_opening]\<rparr>
     \<and> np_sent (np_pump_step True True (FromSocket (ReadOk [])) (np_pump_new ''u1'')) = [sample_last_word]
     \<and> handle_socket (map ascii_lower) sample_words sample_build sample_peer True [sample_word [1]] sample_state = (False, s2)
     \<and> 2 \<in> set (rg_clients (as_registry s2))
     \<and> handle_socket (map ascii_lower) sample_words sample_build sample_peer True [sample_word [1], sample_word []] sample_state = (True, s3)
     \<and> 2 \<notin> set (rg_clients (as_registry s3)) \<and> get_by_http_hostname ''two.np.io'' (as_registry s3) \<noteq> Some 2"
proof -
  have k: "(2 :: nat) = rg_next (as_registry sample_state)"
    by (simp add: sample_state_def app_state_new_def registry_default_def register_def claim_http_hostname_def
        claim_insert_def claim_add_def update_client_def add_http_hostname_def)
  obtain e where e: "np_recv (\<lambda>_. Inl []) None sample_np = Err e"
    by (cases "nc_connection sample_np") (auto simp: np_recv_def)
  have p: "np_running (np_pump_new ''u1'')" "np_sent (np_pump_new ''u1'') = []"
    "np_sent (np_pump_step True True (FromSocket (ReadOk [])) (np_pump_new ''u1'')) = [sample_last_word]"
    by (simp_all add: np_pump_new_def np_pump_step_def np_pump_break_def sample_last_word_def)
  let ?cc = "snd (np_connect (\<lambda>_. None) ''linux'' (se_hostname sample_settings) (se_secure sample_settings) sample_np)"
  obtain c1 where c1: "open_tunnels [HttpTunnel (Some ''two'') (from_port 3000)] ?cc 0 = ([], Some (c1, 0))"
    "nc_connection c1 = Some \<lparr>cn_open = True, cn_sent = [sample_opening]\<rparr>"
    by (simp add: np_connect_def open_tunnel_def np_http_open_def np_send_def sample_opening_def)
  have f: "client_recv sample_words (ar_frame (sample_word [1])) = Ok (Some sample_opening)"
    "client_recv sample_words (ar_frame (sample_word [])) = Ok (Some sample_last_word)"
    by (simp_all add: client_recv_def recv_data_def sample_words_def)
  from stale_task_ends_new_session [OF e p(1) sample_state_ok(1) k, where bs = "[]" and lc = "map ascii_lower"
        and tunnels = "[HttpTunnel (Some ''two'') (from_port 3000)]" and os = "''linux''" and st = sample_settings
        and decode = sample_words and b = sample_build and who = sample_peer
        and env = sample_hyper and tc = "\<lambda>_. None" and fs = "[]", THEN conjunct2] p(2,3)
  have "\<exists>s2 s3. handle_socket (map ascii_lower) sample_words sample_build sample_peer True [sample_word [1]] sample_state = (False, s2)
     \<and> 2 \<in> set (rg_clients (as_registry s2))
     \<and> handle_socket (map ascii_lower) sample_words sample_build sample_peer True ([sample_word [1]] @ [sample_word []]) sample_state = (True, s3)
     \<and> 2 \<notin> set (rg_clients (as_registry s3)) \<and> (\<forall>h. route s3 h \<noteq> Some 2)"
    using c1 f by (elim exE conjE) (drule spec [where x = "[sample_word [1]]"], drule spec [where x = "sample_word []"], simp)
  then show ?thesis using c1 p(3) by auto
qed

end
