(* ===== verification/Pages.thy ===== *)
theory Pages
  imports Router Http_Forwarding
begin

text \<open>
  The pages that the server makes itself: \<open>nport-server/src/server/templates.rs\<close>, \<open>error.rs\<close>,
  \<open>handlers/site.rs\<close>, and the end of \<open>forward\<close> in \<open>handlers/websockets.rs\<close>.

  The engine is the crate \<open>tera\<close>, the record \<open>tera_env\<close>: whether the source of a template parses,
  and what a template renders to in a context. \<open>StatusCode\<close>'s \<open>Display\<close> is \<open>te_status\<close>. The
  sources of the templates are files of the repository, named here by their names.
\<close>

section \<open>Templates\<close>

datatype context_value = Text string | Number i64

type_synonym tera_context = "(string \<times> context_value) list"

record tera_env =
  te_parses :: "string \<Rightarrow> bool"
  te_render :: "string \<Rightarrow> tera_context \<Rightarrow> string option"
  te_status :: "u16 \<Rightarrow> string"

datatype page_error = Anyhow_Error | Template_Error

definition add_template :: "tera_env \<Rightarrow> string \<Rightarrow> string list \<Rightarrow> page_error + string list" where
  "add_template te name tera = (if te_parses te name then Ok (tera @ [name]) else Err Template_Error)"

definition templates_new :: "tera_env \<Rightarrow> page_error + string list" where
  "templates_new te =
     (case add_template te ''base.html'' [] of Inl e \<Rightarrow> Err e | Inr tera \<Rightarrow>
     (case add_template te ''index.html'' tera of Inl e \<Rightarrow> Err e | Inr tera \<Rightarrow>
     (case add_template te ''error.html'' tera of Inl e \<Rightarrow> Err e | Inr tera \<Rightarrow>
      add_template te ''stats.html'' tera)))"

text \<open>A template that was never added is an error of \<open>Tera::render\<close>.\<close>

definition templates_render :: "tera_env \<Rightarrow> string list \<Rightarrow> string \<Rightarrow> tera_context \<Rightarrow> page_error + string" where
  "templates_render te tera name c =
     (if name \<in> set tera then
        (case te_render te name c of Some html \<Rightarrow> Ok html | None \<Rightarrow> Err Template_Error)
      else Err Template_Error)"

record renderer =
  rn_templates :: "string list"
  rn_template_name :: string
  rn_status_code :: "u16 option"
  rn_context :: "tera_context option"

definition renderer_new :: "string list \<Rightarrow> string \<Rightarrow> renderer" where
  "renderer_new tera name =
     \<lparr>rn_templates = tera, rn_template_name = name, rn_status_code = None, rn_context = None\<rparr>"

definition with_status :: "u16 \<Rightarrow> renderer \<Rightarrow> renderer" where
  "with_status code r = r\<lparr>rn_status_code := Some code\<rparr>"

definition with_context :: "tera_context \<Rightarrow> renderer \<Rightarrow> renderer" where
  "with_context c r = r\<lparr>rn_context := Some c\<rparr>"

definition render_response :: "tera_env \<Rightarrow> renderer \<Rightarrow> page_error + u16 \<times> string" where
  "render_response te r =
     (case templates_render te (rn_templates r) (rn_template_name r)
        (case rn_context r of Some c \<Rightarrow> c | None \<Rightarrow> []) of
        Inl e \<Rightarrow> Err e
      | Inr html \<Rightarrow> Ok (case rn_status_code r of Some code \<Rightarrow> code | None \<Rightarrow> 200, html))"

section \<open>Responses\<close>

datatype page = Html u16 string | Plain u16 string

definition error_into_response :: "page_error \<Rightarrow> page" where
  "error_into_response e = Plain 500 ''Internal Server Error''"

definition into_page :: "page_error + u16 \<times> string \<Rightarrow> page" where
  "into_page r = (case r of Inl e \<Rightarrow> error_into_response e | Inr (code, html) \<Rightarrow> Html code html)"

definition home_page :: "tera_env \<Rightarrow> string list \<Rightarrow> page" where
  "home_page te tera = into_page (render_response te (renderer_new tera ''index.html''))"

definition stats_response :: "tera_env \<Rightarrow> string list \<Rightarrow> app_state \<Rightarrow> page" where
  "stats_response te tera s =
     (let data = stats_page s;
          c = [(''client_count'', Number (sc_client_count data)),
               (''http_hostname_count'', Number (sc_http_hostname_count data)),
               (''tcp_port_count'', Number (sc_tcp_port_count data))]
      in into_page (render_response te (with_context c (renderer_new tera ''stats.html''))))"

definition error_context :: "tera_env \<Rightarrow> u16 \<Rightarrow> string \<Rightarrow> string \<Rightarrow> tera_context" where
  "error_context te code hostname error =
     [(''hostname'', Text hostname), (''error'', Text error), (''http_error'', Text (te_status te code))]"

definition error_page :: "tera_env \<Rightarrow> string list \<Rightarrow> u16 \<Rightarrow> string \<Rightarrow> string \<Rightarrow> page" where
  "error_page te tera code hostname error =
     into_page (render_response te
       (with_context (error_context te code hostname error) (with_status code (renderer_new tera ''error.html''))))"

text \<open>What \<open>forward\<close> gives the visitor: the response of the client, or a page.\<close>

datatype answer = Proxied u16 "(string \<times> bytes) list" bytes | Page page

definition forward_answer ::
  "tera_env \<Rightarrow> string list \<Rightarrow> (string \<Rightarrow> string option) \<Rightarrow> (bytes \<Rightarrow> bytes option) \<Rightarrow> string
   \<Rightarrow> server_error + 'rx \<Rightarrow> wait \<Rightarrow> answer outcome" where
  "forward_answer te tera header_name header_value hostname rx w =
     bind_outcome (forward_reply header_name header_value hostname (forward_request rx w)) (\<lambda>r.
       Return (case r of
           Forwarded code headers body \<Rightarrow> Proxied code headers body
         | ErrorPage code host error \<Rightarrow> Page (error_page te tera code host error)))"

section \<open>Every visitor gets an answer\<close>

lemma templates_new_Ok:
  "templates_new te = Ok tera \<Longrightarrow> tera = [''base.html'', ''index.html'', ''error.html'', ''stats.html'']"
  by (auto simp: templates_new_def add_template_def split: if_splits)

lemma render_response_known:
  assumes "templates_new te = Ok tera" "name \<in> {''index.html'', ''error.html'', ''stats.html''}"
    "rn_templates r = tera" "rn_template_name r = name"
  shows "into_page (render_response te r) =
    (case te_render te name (case rn_context r of Some c \<Rightarrow> c | None \<Rightarrow> []) of
       None \<Rightarrow> Plain 500 ''Internal Server Error''
     | Some html \<Rightarrow> Html (case rn_status_code r of Some code \<Rightarrow> code | None \<Rightarrow> 200) html)"
proof -
  have "name \<in> set tera" using templates_new_Ok [OF assms(1)] assms(2) by auto
  then show ?thesis
    using assms(3,4)
    by (simp add: render_response_def templates_render_def into_page_def error_into_response_def split: option.splits)
qed

definition accepted_status :: "http_response_data \<Rightarrow> bool" where
  "accepted_status d \<longleftrightarrow> 100 \<le> unat (hd_status_code d) mod 65536 \<and> unat (hd_status_code d) mod 65536 < 1000"

definition wait_status :: "server_error + 'rx \<Rightarrow> wait \<Rightarrow> u16" where
  "wait_status rx w = (case rx of Inl _ \<Rightarrow> 404 | Inr _ \<Rightarrow> (case w of TimedOut \<Rightarrow> 504
     | Received (Inl _) \<Rightarrow> 500 | Received (Inr r) \<Rightarrow> if hr_payload r = None then 500 else 502))"

text \<open>The text of the error that a visitor is shown.\<close>

definition wait_error :: "server_error + 'rx \<Rightarrow> wait \<Rightarrow> string" where
  "wait_error rx w = (case rx of
       Inl _ \<Rightarrow> ''no client registered for this domain''
     | Inr _ \<Rightarrow> (case w of
           TimedOut \<Rightarrow> ''timeout awaiting HTTP response''
         | Received (Inl _) \<Rightarrow> ''error receiving HTTP response: channel closed''
         | Received (Inr r) \<Rightarrow> (case hr_payload r of
               Some (PayloadError e) \<Rightarrow> ''error from client: '' @ display_http_response_error e
             | _ \<Rightarrow> ''empty response from client'')))"

lemma failed_reply:
  assumes "\<not> (\<exists>u d. is_ok rx \<and> w = Received (Ok \<lparr>hr_uuid = u, hr_payload = Some (PayloadData d)\<rparr>))"
  shows "forward_reply hn hv host (forward_request rx w) = Return (ErrorPage (wait_status rx w) host (wait_error rx w))"
proof (cases rx)
  case (Inr x)
  then have "hr_payload r = None \<or> (\<exists>e. hr_payload r = Some (PayloadError e))" if "w = Received (Ok r)" for r
    using assms that by (metis (full_types) http_response.surjective http_response_payload.exhaust is_ok.simps(1)
        not_None_eq old.unit.exhaust)
  then show ?thesis
    using Inr by (cases w) (auto simp: forward_reply_def forward_request_def wait_status_def wait_error_def split: sum.splits)
qed (simp add: forward_reply_def forward_request_def wait_status_def wait_error_def)

text \<open>
  C19. Every visitor of a forwarded name gets an answer, however the request and the wait for the
  client end, if the templates could be read. Data of the client with a status code from 100 to 999 (after reduction to sixteen
  bits) is passed on with its body and with its headers, each name once, except \<open>transfer-encoding\<close> and those that are not valid
  for the \<open>http\<close> crate. Every failure becomes the error page with the name and the text of the error, under its own status: 404 for no
  client, 504 for a timeout, 502 for an error of the client, 500 otherwise, and a plain 500 where
  the page cannot be rendered. Only a status code outside that range panics. The home page and
  the statistics, which show the three counters, come with 200.
\<close>

theorem visitor_answered:
  assumes ok: "templates_new te = Ok tera"
  shows "(\<forall>d. accepted_status d \<and> distinct (map fst (hd_headers d)) \<longrightarrow>
      (\<exists>headers. forward_answer te tera hn hv host (Ok rx) (Received (Ok \<lparr>hr_uuid = u, hr_payload = Some (PayloadData d)\<rparr>))
          = Return (Proxied (ucast (hd_status_code d)) headers (hd_body d))
        \<and> proper_headers hn hv (map_of (hd_headers d)) headers))
   \<and> (\<forall>d. \<not> accepted_status d \<longrightarrow>
      forward_answer te tera hn hv host (Ok rx) (Received (Ok \<lparr>hr_uuid = u, hr_payload = Some (PayloadData d)\<rparr>)) = Panic)
   \<and> (\<forall>rx w. \<not> (\<exists>u d. is_ok rx \<and> w = Received (Ok \<lparr>hr_uuid = u, hr_payload = Some (PayloadData d)\<rparr>)) \<longrightarrow>
      forward_answer te tera hn hv host rx w = Return (Page
        (case te_render te ''error.html''
            [(''hostname'', Text host), (''error'', Text (wait_error rx w)),
             (''http_error'', Text (te_status te (wait_status rx w)))] of
             None \<Rightarrow> Plain 500 ''Internal Server Error'' | Some html \<Rightarrow> Html (wait_status rx w) html)))
   \<and> (\<forall>html. te_render te ''index.html'' [] = Some html \<longrightarrow> home_page te tera = Html 200 html)
   \<and> (\<forall>s html. te_render te ''stats.html''
        [(''client_count'', Number (metric_get (st_client_connections (as_stats s)))),
         (''http_hostname_count'', Number (metric_get (st_http_hostnames (as_stats s)))),
         (''tcp_port_count'', Number (metric_get (st_tcp_ports (as_stats s))))] = Some html
        \<longrightarrow> stats_response te tera s = Html 200 html)"
proof (intro conjI allI impI)
  note cases = forward_reply_cases [where rx = rx and hn = hn and hv = hv and host = host and u = u]
  fix d
  assume d: "accepted_status d \<and> distinct (map fst (hd_headers d))"
  have "forward_answer te tera hn hv host (Ok rx) (Received (Ok \<lparr>hr_uuid = u, hr_payload = Some (PayloadData d)\<rparr>))
        = Return (Proxied (ucast (hd_status_code d)) (response_headers hn hv (hd_headers d)) (hd_body d))"
    unfolding forward_answer_def
    by (subst cases [THEN conjunct1, THEN spec, THEN mp, OF d [THEN conjunct1, unfolded accepted_status_def]]) simp
  then show "\<exists>headers. forward_answer te tera hn hv host (Ok rx) (Received (Ok \<lparr>hr_uuid = u, hr_payload = Some (PayloadData d)\<rparr>))
          = Return (Proxied (ucast (hd_status_code d)) headers (hd_body d))
        \<and> proper_headers hn hv (map_of (hd_headers d)) headers"
    using response_headers_proper d by blast
next
  note cases = forward_reply_cases [where rx = rx and hn = hn and hv = hv and host = host and u = u]
  show "forward_answer te tera hn hv host (Ok rx) (Received (Ok \<lparr>hr_uuid = u, hr_payload = Some (PayloadData d)\<rparr>)) = Panic"
    if "\<not> accepted_status d" for d
    unfolding forward_answer_def
    by (subst cases [THEN conjunct2, THEN conjunct1, THEN spec, THEN mp, OF that [unfolded accepted_status_def]]) simp
next
  fix rx :: "server_error + 'r" and w
  assume "\<not> (\<exists>u d. is_ok rx \<and> w = Received (Ok \<lparr>hr_uuid = u, hr_payload = Some (PayloadData d)\<rparr>))"
  then have "forward_answer te tera hn hv host rx w = Return (Page (error_page te tera (wait_status rx w) host (wait_error rx w)))"
    by (simp add: forward_answer_def failed_reply)
  moreover have "error_page te tera (wait_status rx w) host (wait_error rx w) =
      (case te_render te ''error.html'' (error_context te (wait_status rx w) host (wait_error rx w)) of
         None \<Rightarrow> Plain 500 ''Internal Server Error'' | Some html \<Rightarrow> Html (wait_status rx w) html)"
    unfolding error_page_def
    by (subst render_response_known [OF ok, where name = "''error.html''"])
      (simp_all add: with_context_def with_status_def renderer_new_def split: option.split)
  ultimately show "forward_answer te tera hn hv host rx w = Return (Page
        (case te_render te ''error.html''
            [(''hostname'', Text host), (''error'', Text (wait_error rx w)),
             (''http_error'', Text (te_status te (wait_status rx w)))] of
             None \<Rightarrow> Plain 500 ''Internal Server Error'' | Some html \<Rightarrow> Html (wait_status rx w) html))"
    by (simp add: error_context_def)
next
  show "home_page te tera = Html 200 html" if "te_render te ''index.html'' [] = Some html" for html
    unfolding home_page_def using that
    by (subst render_response_known [OF ok, where name = "''index.html''"]) (simp_all add: renderer_new_def)
  show "stats_response te tera s = Html 200 html"
    if "te_render te ''stats.html''
        [(''client_count'', Number (metric_get (st_client_connections (as_stats s)))),
         (''http_hostname_count'', Number (metric_get (st_http_hostnames (as_stats s)))),
         (''tcp_port_count'', Number (metric_get (st_tcp_ports (as_stats s))))] = Some html" for s html
    unfolding stats_response_def Let_def using that
    by (subst render_response_known [OF ok, where name = "''stats.html''"])
      (simp_all add: with_context_def renderer_new_def stats_page_def)
qed

definition sample_tera :: tera_env where
  "sample_tera = \<lparr>te_parses = \<lambda>_. True, te_render = \<lambda>name c. if name = ''stats.html'' then None else Some name,
     te_status = \<lambda>_. ''Not Found''\<rparr>"

theorem visitor_answered_witness:
  "\<exists>tera. templates_new sample_tera = Ok tera
     \<and> forward_answer sample_tera tera Some Some ''one.np.io'' (Err ClientNotFound :: server_error + nat) TimedOut
         = Return (Page (Html 404 ''error.html''))
     \<and> home_page sample_tera tera = Html 200 ''index.html''"
proof -
  obtain tera where t: "templates_new sample_tera = Ok tera"
    by (simp add: templates_new_def add_template_def sample_tera_def)
  note v = visitor_answered [OF t, where hn = Some and hv = Some and host = "''one.np.io''"]
  have "forward_answer sample_tera tera Some Some ''one.np.io'' (Err ClientNotFound :: server_error + nat) TimedOut =
         Return (Page (case te_render sample_tera ''error.html''
             [(''hostname'', Text ''one.np.io''), (''error'', Text (wait_error (Err ClientNotFound :: server_error + nat) TimedOut)),
              (''http_error'', Text (te_status sample_tera (wait_status (Err ClientNotFound :: server_error + nat) TimedOut)))] of
             None \<Rightarrow> Plain 500 ''Internal Server Error''
           | Some html \<Rightarrow> Html (wait_status (Err ClientNotFound :: server_error + nat) TimedOut) html))"
    by (rule v [THEN conjunct2, THEN conjunct2, THEN conjunct1, rule_format]) simp
  moreover have "home_page sample_tera tera = Html 200 ''index.html''"
    by (rule v [THEN conjunct2, THEN conjunct2, THEN conjunct2, THEN conjunct1, rule_format])
      (simp add: sample_tera_def)
  ultimately show ?thesis using t by (auto simp: sample_tera_def wait_status_def)
qed

end
