(* ===== verification/Server_Main.thy ===== *)
theory Server_Main
  imports Router Http_Forwarding
begin

text \<open>
  \<open>nport-server/src/main.rs\<close> and \<open>opentelemetry.rs\<close>: the configuration is read from the environment
  (\<open>vars\<close>, after \<open>dotenv\<close>), the headers for the exporter are taken out of it, telemetry is set up,
  and the server is built and run; any failure on the way is a panic.

  \<open>envconfig\<close> reads a variable by its name and takes the default where it is not set. The
  OpenTelemetry pipelines and the syntax of \<open>tonic\<close>'s metadata are the record \<open>otel_env\<close>.
\<close>

section \<open>The configuration from the environment\<close>

datatype env_error = Parse_Error string

definition env_var :: "(string \<rightharpoonup> string) \<Rightarrow> string \<Rightarrow> string \<Rightarrow> string" where
  "env_var vars name preset = (case vars name of Some v \<Rightarrow> v | None \<Rightarrow> preset)"

definition parse_bool :: "string \<Rightarrow> bool option" where
  "parse_bool s = (if s = ''true'' then Some True else if s = ''false'' then Some False else None)"

definition env_parse :: "(string \<Rightarrow> 'a option) \<Rightarrow> (string \<rightharpoonup> string) \<Rightarrow> string \<Rightarrow> string \<Rightarrow> env_error + 'a" where
  "env_parse parse vars name preset =
     (case parse (env_var vars name preset) of Some x \<Rightarrow> Ok x | None \<Rightarrow> Err (Parse_Error name))"

definition init_from_env :: "(string \<rightharpoonup> string) \<Rightarrow> env_error + config" where
  "init_from_env vars =
     (case env_parse parse_bool vars ''PRODUCTION'' ''false'' of Inl e \<Rightarrow> Err e | Inr production \<Rightarrow>
     (case env_parse parse_u16 vars ''HTTP_PORT'' ''0'' of Inl e \<Rightarrow> Err e | Inr port_http \<Rightarrow>
     (case env_parse parse_u16 vars ''HTTPS_PORT'' ''0'' of Inl e \<Rightarrow> Err e | Inr port_https \<Rightarrow>
     (case env_parse parse_bool vars ''ACME_STAGING'' ''true'' of Inl e \<Rightarrow> Err e | Inr acme_staging \<Rightarrow>
     (case env_parse parse_u16 vars ''CLIENT_REQUEST_TIMEOUT_SECS'' ''30'' of Inl e \<Rightarrow> Err e | Inr timeout_secs \<Rightarrow>
     (case env_parse parse_bool vars ''SEND_WELCOME_MESSAGE'' ''true'' of Inl e \<Rightarrow> Err e | Inr welcomes \<Rightarrow>
      Ok \<lparr>cfg_production = production,
          cfg_bind_address = env_var vars ''BIND_ADDRESS'' ''127.0.0.1'',
          cfg_http_port = port_http,
          cfg_https_port = port_https,
          cfg_domain = env_var vars ''DOMAIN'' [],
          cfg_api_subdomain = env_var vars ''API_SUBDOMAIN'' [],
          cfg_tcp_subdomain = env_var vars ''TCP_SUBDOMAIN'' [],
          cfg_subdomain_blocklist = string_list_from_str (env_var vars ''SUBDOMAIN_BLOCKLIST'' []),
          cfg_certs_dir = env_var vars ''CERTS_DIR'' [],
          cfg_acme_email = env_var vars ''ACME_EMAIL'' [],
          cfg_acme_persist_dir = env_var vars ''ACME_PERSIST_DIR'' [],
          cfg_acme_domain = env_var vars ''ACME_DOMAIN'' [],
          cfg_acme_staging = acme_staging,
          cfg_cloudflare_zone_id = env_var vars ''CLOUDFLARE_ZONE_ID'' [],
          cfg_cloudflare_api_token = env_var vars ''CLOUDFLARE_API_TOKEN'' [],
          cfg_client_request_timeout_secs = timeout_secs,
          cfg_send_welcome_message = welcomes,
          cfg_otel_service_name = env_var vars ''OTEL_SERVICE_NAME'' [],
          cfg_otel_otlp_endpoint = env_var vars ''OTEL_OTLP_ENDPOINT'' [],
          cfg_otel_otlp_headers = env_var vars ''OTEL_OTLP_HEADERS'' []\<rparr>))))))"

section \<open>Telemetry\<close>

text \<open>One \<open>key=value\<close>: what follows a second equals sign is dropped, a missing one is a panic.\<close>

definition otel_header :: "string \<Rightarrow> (string \<times> string) outcome" where
  "otel_header header =
     (case split_on (CHR ''='') header of
        key # value # _ \<Rightarrow> Return (key, value)
      | _ \<Rightarrow> Panic)"

fun otel_header_list :: "string list \<Rightarrow> (string \<times> string) list outcome" where
  "otel_header_list [] = Return []"
| "otel_header_list (h # hs) =
     bind_outcome (otel_header h) (\<lambda>kv. bind_outcome (otel_header_list hs) (\<lambda>kvs. Return (kv # kvs)))"

definition otel_headers :: "string \<Rightarrow> (string \<times> string) list outcome" where
  "otel_headers s =
     bind_outcome (otel_header_list (split_on (CHR '','') s)) (\<lambda>kvs.
       Return (fold (\<lambda>(k, v). AList.update k v) kvs []))"

record otel_env =
  ot_key :: "string \<Rightarrow> bool"
  ot_value :: "string \<Rightarrow> bool"
  ot_install :: "string \<Rightarrow> string \<Rightarrow> (string \<times> string) list \<Rightarrow> bool"

definition otel_metadata :: "otel_env \<Rightarrow> (string \<times> string) list \<Rightarrow> (string \<times> string) list outcome" where
  "otel_metadata env headers =
     (if list_all (\<lambda>(k, v). ot_key env k \<and> ot_value env v) headers then Return headers else Panic)"

definition otel_new :: "otel_env \<Rightarrow> string \<Rightarrow> string \<Rightarrow> (string \<times> string) list \<Rightarrow> (unit + unit) outcome" where
  "otel_new env service_name endpoint headers =
     bind_outcome (otel_metadata env headers) (\<lambda>metadata.
       Return (if ot_install env service_name endpoint metadata then Ok () else Err ()))"

text \<open>The filter of the layer: spans of \<open>h2\<close> and of \<open>hyper\<close>'s protocol code are left out.\<close>

definition filter_is_enabled :: "string \<Rightarrow> bool" where
  "filter_is_enabled target \<longleftrightarrow> \<not> starts_with ''h2::'' target \<and> \<not> starts_with ''hyper::proto'' target"

datatype interest = Interest_Always | Interest_Never

definition callsite_enabled :: "string \<Rightarrow> interest" where
  "callsite_enabled target = (if filter_is_enabled target then Interest_Always else Interest_Never)"

section \<open>\<open>main\<close>\<close>

definition server_main ::
  "otel_env \<Rightarrow> 'k cert_env \<Rightarrow> (string \<Rightarrow> files option) \<Rightarrow> bool \<Rightarrow> bind_check \<Rightarrow> (string \<rightharpoonup> string)
   \<Rightarrow> (listening \<times> listening \<times> 'k server) outcome" where
  "server_main tele env read_dir templates_ok bind vars =
     bind_outcome (unwrap_result (init_from_env vars)) (\<lambda>c.
     bind_outcome (otel_headers (cfg_otel_otlp_headers c)) (\<lambda>headers.
     bind_outcome (otel_new tele (cfg_otel_service_name c) (cfg_otel_otlp_endpoint c) headers) (\<lambda>telemetry.
     bind_outcome (unwrap_result telemetry) (\<lambda>_.
     bind_outcome (config_server env read_dir c (Some stats_new)) (\<lambda>result.
     bind_outcome (unwrap_result result) (\<lambda>srv.
       server_run templates_ok bind srv))))))"

section \<open>Headers from the environment\<close>

definition before :: "char \<Rightarrow> string \<Rightarrow> string" where
  "before c s = takeWhile (\<lambda>x. x \<noteq> c) s"

definition behind :: "char \<Rightarrow> string \<Rightarrow> string" where
  "behind c s = tl (dropWhile (\<lambda>x. x \<noteq> c) s)"

lemma split_on_first:
  "split_on c s = before c s # (if c \<in> set s then split_on c (behind c s) else [])"
  by (induction s) (auto simp: before_def behind_def split: list.splits)

lemma before_append [simp]: "c \<notin> set k \<Longrightarrow> before c (k @ c # v) = k"
  by (induction k) (auto simp: before_def)

lemma behind_append [simp]: "c \<notin> set k \<Longrightarrow> behind c (k @ c # v) = v"
  by (induction k) (auto simp: behind_def)

lemma before_none [simp]: "c \<notin> set v \<Longrightarrow> before c v = v"
  by (induction v) (auto simp: before_def)

abbreviation equals :: char where "equals \<equiv> CHR ''=''"

lemma otel_header_eq:
  "otel_header h = (if equals \<in> set h then Return (before equals h, before equals (behind equals h)) else Panic)"
  unfolding otel_header_def
  by (subst split_on_first) (simp, subst split_on_first, simp)

lemma otel_header_list_eq:
  "otel_header_list hs =
     (if list_all (\<lambda>h. equals \<in> set h) hs
      then Return (map (\<lambda>h. (before equals h, before equals (behind equals h))) hs) else Panic)"
  by (induction hs) (auto simp: otel_header_eq)

definition well_formed_headers :: "string \<Rightarrow> bool" where
  "well_formed_headers s = list_all (\<lambda>h. equals \<in> set h) (split_on (CHR '','') s)"

lemma otel_headers_ok:
  "well_formed_headers s \<Longrightarrow> \<exists>hs. otel_headers s = Return hs
     \<and> map_of hs = map_of (rev (map (\<lambda>h. (before equals h, before equals (behind equals h))) (split_on (CHR '','') s)))"
  by (simp add: well_formed_headers_def otel_headers_def otel_header_list_eq map_of_collect_fold)

lemma otel_headers_panic: "\<not> well_formed_headers s \<Longrightarrow> otel_headers s = Panic"
  by (auto simp: well_formed_headers_def otel_headers_def otel_header_list_eq)

definition write_headers :: "(string \<times> string) list \<Rightarrow> string" where
  "write_headers kvs = join_with (CHR '','') (map (\<lambda>(k, v). k @ equals # v) kvs)"

text \<open>
  C40. The headers for the exporter: a list of pairs written as \<open>key1=value1,key2=value2\<close> is read
  back as it is, as long as there is at least one, keys are different, and no key or value holds
  a comma or an equals sign. In a value that does hold an equals sign, it and all that follows is
  dropped. A part without an equals sign is a panic, and so is the empty text.
\<close>

theorem otel_headers_roundtrip:
  assumes "kvs \<noteq> []" "distinct (map fst kvs)"
    and clean: "\<And>k v. (k, v) \<in> set kvs \<Longrightarrow> CHR '','' \<notin> set (k @ v) \<and> equals \<notin> set (k @ v)"
  shows "(\<exists>hs. otel_headers (write_headers kvs) = Return hs \<and> map_of hs = map_of kvs)
    \<and> (\<forall>k v w. equals \<notin> set (k @ v) \<longrightarrow> otel_header (k @ equals # v @ equals # w) = Return (k, v))
    \<and> (\<forall>s h. h \<in> set (split_on (CHR '','') s) \<and> equals \<notin> set h \<longrightarrow> otel_headers s = Panic)
    \<and> otel_headers [] = Panic"
proof -
  let ?text = "\<lambda>kv :: string \<times> string. case kv of (k, v) \<Rightarrow> k @ equals # v"
  have parts: "split_on (CHR '','') (write_headers kvs) = map ?text kvs"
    unfolding write_headers_def using assms(1) clean by (intro split_on_join) fastforce+
  have read: "map (\<lambda>h. (before equals h, before equals (behind equals h))) (map ?text kvs) = kvs"
    unfolding map_map
  proof (rule map_idI)
    fix kv assume kv: "kv \<in> set kvs"
    obtain k v where e: "kv = (k, v)" by fastforce
    have "equals \<notin> set k" "equals \<notin> set v" using clean [of k v] kv by (simp_all add: e)
    then show "((\<lambda>h. (before equals h, before equals (behind equals h))) \<circ> ?text) kv = kv"
      by (simp add: e)
  qed
  have "well_formed_headers (write_headers kvs)"
    unfolding well_formed_headers_def parts by (auto simp: list_all_iff)
  from otel_headers_ok [OF this]
  obtain hs where "otel_headers (write_headers kvs) = Return hs" "map_of hs = map_of (rev kvs)"
    unfolding parts read by blast
  moreover have "map_of (rev kvs) = map_of kvs"
    using assms(2) by (metis distinct_rev map_of_inject_set rev_map set_rev)
  moreover have "otel_headers s = Panic" if "h \<in> set (split_on (CHR '','') s)" "equals \<notin> set h" for s h
    using that by (intro otel_headers_panic) (auto simp: well_formed_headers_def list_all_iff)
  ultimately show ?thesis
    by (auto simp: otel_header_eq otel_headers_panic well_formed_headers_def)
qed

theorem otel_headers_roundtrip_witness:
  "(\<exists>hs. otel_headers ''a=1,b=2'' = Return hs \<and> map_of hs ''b'' = Some ''2'')
   \<and> otel_header ''k=YQ=='' = Return (''k'', ''YQ'') \<and> otel_headers [] = Panic"
proof -
  let ?kvs = "[(''a'', ''1''), (''b'', ''2'')]"
  have "CHR '','' \<notin> set (k @ v) \<and> equals \<notin> set (k @ v)" if "(k, v) \<in> set ?kvs" for k v
    using that by auto
  note all = otel_headers_roundtrip [OF _ _ this, of ?kvs, simplified]
  have r: "\<exists>hs. otel_headers (write_headers ?kvs) = Return hs \<and> map_of hs = map_of ?kvs"
    using all by simp
  moreover have "otel_header (''k'' @ equals # ''YQ'' @ equals # ''='') = Return (''k'', ''YQ'')"
    by (rule all [THEN conjunct2, THEN conjunct1, rule_format]) simp
  moreover have "otel_headers [] = Panic" using all by blast
  moreover have "write_headers ?kvs = ''a=1,b=2''"
    by (simp add: write_headers_def)
  ultimately show ?thesis by fastforce
qed

section \<open>The start of the server\<close>

lemma init_from_env_headers:
  "init_from_env vars = Ok c \<Longrightarrow> cfg_otel_otlp_headers c = env_var vars ''OTEL_OTLP_HEADERS'' []"
  by (auto simp: init_from_env_def split: sum.splits)

text \<open>
  C39. The program of the server runs if and only if the variables parse, every part of the
  exporter's headers has an equals sign, telemetry accepts them, the configuration makes a
  server, and that runs; in particular it never does with the default configuration: unless
  \<open>OTEL_OTLP_HEADERS\<close> is set to something that is not empty, it panics before it listens.
\<close>

theorem server_main_starts:
  "(server_main tele env read_dir templates_ok bind vars = Return y
     \<longleftrightarrow> (\<exists>c hs srv. init_from_env vars = Ok c \<and> well_formed_headers (cfg_otel_otlp_headers c)
          \<and> otel_headers (cfg_otel_otlp_headers c) = Return hs
          \<and> otel_new tele (cfg_otel_service_name c) (cfg_otel_otlp_endpoint c) hs = Return (Ok ())
          \<and> config_server env read_dir c (Some stats_new) = Return (Ok srv)
          \<and> server_run templates_ok bind srv = Return y))
   \<and> (env_var vars ''OTEL_OTLP_HEADERS'' [] = [] \<longrightarrow> server_main tele env read_dir templates_ok bind vars = Panic)"
proof
  have unwrap: "unwrap_result r = Return x \<longleftrightarrow> r = Ok x" for r :: "'e + 'x" and x
    by (cases r) auto
  have formed: "well_formed_headers s" if "otel_headers s = Return hs" for s hs
    using that otel_headers_panic by fastforce
  show "server_main tele env read_dir templates_ok bind vars = Return y
     \<longleftrightarrow> (\<exists>c hs srv. init_from_env vars = Ok c \<and> well_formed_headers (cfg_otel_otlp_headers c)
          \<and> otel_headers (cfg_otel_otlp_headers c) = Return hs
          \<and> otel_new tele (cfg_otel_service_name c) (cfg_otel_otlp_endpoint c) hs = Return (Ok ())
          \<and> config_server env read_dir c (Some stats_new) = Return (Ok srv)
          \<and> server_run templates_ok bind srv = Return y)"
    unfolding server_main_def bind_outcome_Return unwrap by (auto dest: formed)
next
  show "env_var vars ''OTEL_OTLP_HEADERS'' [] = [] \<longrightarrow> server_main tele env read_dir templates_ok bind vars = Panic"
  proof
    assume unset: "env_var vars ''OTEL_OTLP_HEADERS'' [] = []"
    have "otel_headers [] = Panic"
      by (rule otel_headers_panic) (simp add: well_formed_headers_def)
    then show "server_main tele env read_dir templates_ok bind vars = Panic"
      using init_from_env_headers unset by (cases "init_from_env vars") (auto simp: server_main_def)
  qed
qed

definition sample_vars :: "string \<rightharpoonup> string" where
  "sample_vars = [''HTTP_PORT'' \<mapsto> ''80'', ''OTEL_OTLP_HEADERS'' \<mapsto> ''key=secret'']"

definition sample_otel :: otel_env where
  "sample_otel = \<lparr>ot_key = \<lambda>_. True, ot_value = \<lambda>_. True, ot_install = \<lambda>_ _ _. True\<rparr>"

lemmas parse_number = parse_u16_def digits_value_def to_digit_def is_radix_digit_def

lemma sample_numbers: "parse_u16 ''80'' = Some 80" "parse_u16 ''0'' = Some 0" "parse_u16 ''30'' = Some 30"
  by (simp_all add: parse_number)

theorem server_main_starts_witness:
  "\<exists>http https srv. server_main sample_otel sample_env (\<lambda>_. None) True free_ports sample_vars = Return (http, https, srv)
     \<and> http \<noteq> Not_Listening
     \<and> server_main sample_otel sample_env (\<lambda>_. None) True free_ports (sample_vars(''OTEL_OTLP_HEADERS'' := None)) = Panic"
proof -
  obtain c where c: "init_from_env sample_vars = Ok c" "\<not> cfg_production c" "cfg_bind_address c = ''127.0.0.1''"
    "cfg_http_port c = 80" "cfg_https_port c = 0" "cfg_acme_email c = []" "cfg_otel_otlp_headers c = ''key=secret''"
    by (simp add: init_from_env_def env_parse_def env_var_def sample_vars_def parse_bool_def sample_numbers)
  have headers: "well_formed_headers ''key=secret''"
    by (simp add: well_formed_headers_def)
  obtain hs where hs: "otel_headers ''key=secret'' = Return hs"
    using otel_headers_ok [OF headers] by blast
  have tele: "otel_new sample_otel (cfg_otel_service_name c) (cfg_otel_otlp_endpoint c) hs = Return (Ok ())"
    by (simp add: otel_new_def otel_metadata_def sample_otel_def list_all_iff)
  obtain srv where srv: "config_server sample_env (\<lambda>_. None) c (Some stats_new) = Return (Ok srv)"
    "listen_http (srv_listen srv) = 80" "listen_https (srv_listen srv) = 0"
    using c by (simp add: config_server_def config_cert_store_def enable_cert_store_def has_acme_def
        localhost_from_str server_new_def)
  obtain http https srv' where run: "server_run True free_ports srv = Return (http, https, srv')" "http \<noteq> Not_Listening"
    using srv by (simp add: server_run_def run_http_def run_https_def free_ports_def)
  have "server_main sample_otel sample_env (\<lambda>_. None) True free_ports sample_vars = Return (http, https, srv')"
    using server_main_starts [of sample_otel sample_env "\<lambda>_. None" True free_ports sample_vars "(http, https, srv')"]
      c headers hs tele srv(1) run(1) by auto
  moreover have "server_main sample_otel sample_env (\<lambda>_. None) True free_ports (sample_vars(''OTEL_OTLP_HEADERS'' := None)) = Panic"
    using server_main_starts [of sample_otel sample_env "\<lambda>_. None" True free_ports "sample_vars(''OTEL_OTLP_HEADERS'' := None)"]
    by (simp add: env_var_def)
  ultimately show ?thesis using run(2) by blast
qed

end
