(* ===== verification/Acme.thy ===== *)
theory Acme
  imports Cert_Store
begin

text \<open>
  \<open>nport-server/src/cert/cloudflare.rs\<close> and \<open>generator.rs\<close>: a certificate is requested from an
  ACME server, which asks for a TXT record as a proof; the record is written through the API of
  Cloudflare, and the request waits until the record can be looked up.

  Parameters: the API of Cloudflare (\<open>cf_api\<close>; \<open>None\<close> is a request that fails or an answer that is
  no JSON of the right form, \<open>Diverge\<close> a request that never comes back, since \<open>reqwest\<close> has no
  timeout here; the zone of records is its state), the library \<open>acme_lib\<close> (\<open>acme_env\<close>, over the
  state of an order) and the DNS resolver. Time is counted in milliseconds.
\<close>

section \<open>Cloudflare\<close>

record create_or_update_request =
  cr_type :: string
  cr_name :: string
  cr_content :: string
  cr_ttl :: u32

record response_error =
  re_code :: i32
  re_message :: string

record query_result =
  qr_id :: string
  qr_zone_id :: string
  qr_name :: string
  qr_type :: string

record query_response =
  qy_success :: bool
  qy_errors :: "response_error list"
  qy_result :: "query_result list"

record create_or_update_response =
  cu_success :: bool
  cu_errors :: "response_error list"

record updater =
  up_token :: string
  up_zone_id :: string

record 'z cf_api =
  cf_get :: "string \<Rightarrow> string \<Rightarrow> 'z \<Rightarrow> (query_response option \<times> 'z) outcome"
  cf_put :: "string \<Rightarrow> string \<Rightarrow> create_or_update_request \<Rightarrow> 'z \<Rightarrow> (create_or_update_response option \<times> 'z) outcome"
  cf_post :: "string \<Rightarrow> string \<Rightarrow> create_or_update_request \<Rightarrow> 'z \<Rightarrow> (create_or_update_response option \<times> 'z) outcome"

datatype dns_error = RequestFailed | RecordNotFound | UpdateRefused "response_error list"
  | CreateRefused "response_error list"

definition get_create_request :: "string \<Rightarrow> string \<Rightarrow> create_or_update_request" where
  "get_create_request rec challenge =
     \<lparr>cr_type = ''TXT'', cr_name = rec, cr_content = challenge, cr_ttl = 60\<rparr>"

definition zone_url :: "updater \<Rightarrow> string" where
  "zone_url u = ''https://api.cloudflare.com/client/v4/zones/'' @ up_zone_id u @ ''/dns_records''"

definition get_record_id ::
  "'z cf_api \<Rightarrow> updater \<Rightarrow> string \<Rightarrow> string \<Rightarrow> 'z \<Rightarrow> ((dns_error + string) \<times> 'z) outcome" where
  "get_record_id api u rec authorization z =
     bind_outcome (cf_get api (zone_url u @ ''?match=all&name='' @ rec @ ''&type=TXT'') authorization z)
       (\<lambda>(answer, z').
          case answer of
            None \<Rightarrow> Return (Err RequestFailed, z')
          | Some body \<Rightarrow>
              if qy_success body then
                (case find (\<lambda>r. qr_name r = rec \<and> qr_type r = ''TXT'' \<and> qr_id r \<noteq> []) (qy_result body) of
                   Some r \<Rightarrow> Return (Ok (qr_id r), z')
                 | None \<Rightarrow> Return (Err RecordNotFound, z'))
              else Return (Err RecordNotFound, z'))"

definition update_record ::
  "'z cf_api \<Rightarrow> updater \<Rightarrow> string \<Rightarrow> string \<Rightarrow> string \<Rightarrow> string \<Rightarrow> 'z \<Rightarrow> ((dns_error + unit) \<times> 'z) outcome" where
  "update_record api u rec record_id challenge authorization z =
     bind_outcome (cf_put api (zone_url u @ ''/'' @ record_id) authorization (get_create_request rec challenge) z)
       (\<lambda>(answer, z').
          case answer of
            None \<Rightarrow> Return (Err RequestFailed, z')
          | Some body \<Rightarrow> if \<not> cu_success body then Return (Err (UpdateRefused (cu_errors body)), z')
                         else Return (Ok (), z'))"

definition create_record ::
  "'z cf_api \<Rightarrow> updater \<Rightarrow> string \<Rightarrow> string \<Rightarrow> string \<Rightarrow> 'z \<Rightarrow> ((dns_error + unit) \<times> 'z) outcome" where
  "create_record api u rec challenge authorization z =
     bind_outcome (cf_post api (zone_url u) authorization (get_create_request rec challenge) z)
       (\<lambda>(answer, z').
          case answer of
            None \<Rightarrow> Return (Err RequestFailed, z')
          | Some body \<Rightarrow> if \<not> cu_success body then Return (Err (CreateRefused (cu_errors body)), z')
                         else Return (Ok (), z'))"

definition cf_update :: "'z cf_api \<Rightarrow> updater \<Rightarrow> string \<Rightarrow> string \<Rightarrow> 'z \<Rightarrow> ((dns_error + unit) \<times> 'z) outcome" where
  "cf_update api u rec challenge z =
     (let authorization = ''Bearer '' @ up_token u
      in bind_outcome (get_record_id api u rec authorization z) (\<lambda>(found, z1).
           case found of
             Inl _ \<Rightarrow> create_record api u rec challenge authorization z1
           | Inr i \<Rightarrow>
               bind_outcome (update_record api u rec i challenge authorization z1) (\<lambda>(updated, z2).
                 case updated of
                   Inr result \<Rightarrow> Return (Ok result, z2)
                 | Inl _ \<Rightarrow> create_record api u rec challenge authorization z2)))"

section \<open>The request of a certificate\<close>

text \<open>
  The wait for the record. \<open>look t\<close> is a lookup started at \<open>t\<close>: what it finds (\<open>None\<close>: an error)
  and how long it takes, or \<open>Diverge\<close> where it never comes back, and the wait with it. The result
  is whether the token was seen, and the time.
\<close>

type_synonym lookup = "nat \<Rightarrow> (string list option \<times> nat) outcome"

function wait_txt :: "lookup \<Rightarrow> string \<Rightarrow> nat \<Rightarrow> nat \<Rightarrow> (bool \<times> nat) outcome" where
  "wait_txt look token wait_start now =
     (case look now of
        Panic \<Rightarrow> Panic
      | Diverge \<Rightarrow> Diverge
      | Return (found, d) \<Rightarrow>
          (if (case found of Some records \<Rightarrow> token \<in> set records | None \<Rightarrow> False)
           then Return (True, now + d + 5000)
           else if 90 < (now + d - wait_start) div 1000 then Return (False, now + d)
           else wait_txt look token wait_start (now + d + 5000)))"
  by pat_completeness auto
termination
  by (relation "measure (\<lambda>(look, token, wait_start, now). 91000 + wait_start - now)") auto

declare wait_txt.simps [simp del]

text \<open>
  \<open>acme_lib\<close>, over the state of an order: \<open>None\<close> is an error of the library, \<open>Panic\<close> and \<open>Diverge\<close>
  a call that panics or does not come back. \<open>ac_proofs\<close> gives the proofs of the authorizations,
  \<open>ac_finish\<close> submits the request for the certificate and downloads it.
\<close>

record ('o, 'c) acme_env =
  ac_new_order :: "string \<Rightarrow> bool \<Rightarrow> string \<Rightarrow> string \<Rightarrow> 'o option outcome"
  ac_confirm :: "'o \<Rightarrow> 'c option"
  ac_proofs :: "'o \<Rightarrow> string list option outcome"
  ac_validate :: "'o \<Rightarrow> 'o option outcome"
  ac_refresh :: "'o \<Rightarrow> 'o option outcome"
  ac_finish :: "'c \<Rightarrow> acme_certificate option outcome"

record generator =
  ge_email :: string
  ge_persist_dir :: string
  ge_staging :: bool
  ge_updater :: updater

datatype acme_error = Acme_Failed | Dns_Failed dns_error | Dns_Timed_Out

definition challenge_record :: "string \<Rightarrow> string" where
  "challenge_record domain =
     ''_acme-challenge.'' @ (case strip_prefix ''*.'' domain of Some suffix \<Rightarrow> suffix | None \<Rightarrow> domain)"

text \<open>
  One turn of the loop over the state of the order, where the order is not confirmed: the
  error that ends the request, or the order for the next turn. An order without authorizations
  is a panic (\<open>auths[0]\<close>).
\<close>

definition order_turn ::
  "('o, 'c) acme_env \<Rightarrow> 'z cf_api \<Rightarrow> ('z \<Rightarrow> string \<Rightarrow> lookup) \<Rightarrow> updater \<Rightarrow> string
   \<Rightarrow> 'o \<Rightarrow> 'z \<Rightarrow> nat \<Rightarrow> ((acme_error + 'o) \<times> 'z \<times> nat) outcome" where
  "order_turn env api look u rec ord z now =
     bind_outcome (ac_proofs env ord) (\<lambda>auths.
       case auths of
         None \<Rightarrow> Return (Inl Acme_Failed, z, now)
       | Some [] \<Rightarrow> Panic
       | Some (token # _) \<Rightarrow>
     bind_outcome (cf_update api u rec token z) (\<lambda>(updated, z1).
       case updated of
         Inl e \<Rightarrow> Return (Inl (Dns_Failed e), z1, now)
       | Inr _ \<Rightarrow>
     bind_outcome (wait_txt (look z1 rec) token now now) (\<lambda>(seen, now1).
       if \<not> seen then Return (Inl Dns_Timed_Out, z1, now1) else
     bind_outcome (ac_validate env ord) (\<lambda>validated.
       case validated of
         None \<Rightarrow> Return (Inl Acme_Failed, z1, now1)
       | Some ord1 \<Rightarrow>
     bind_outcome (ac_refresh env ord1) (\<lambda>refreshed.
       case refreshed of
         None \<Rightarrow> Return (Inl Acme_Failed, z1, now1)
       | Some ord2 \<Rightarrow> Return (Inr ord2, z1, now1))))))"

text \<open>The loop ends when the ACME server has confirmed the order; \<open>None\<close> is a loop that never ends.\<close>

partial_function (option) order_loop ::
  "('o, 'c) acme_env \<Rightarrow> 'z cf_api \<Rightarrow> ('z \<Rightarrow> string \<Rightarrow> lookup) \<Rightarrow> updater \<Rightarrow> string
   \<Rightarrow> 'o \<Rightarrow> 'z \<Rightarrow> nat \<Rightarrow> ((acme_error + 'c) \<times> 'z \<times> nat) outcome option" where
  "order_loop env api look u rec ord z now =
     (case ac_confirm env ord of
        Some csr \<Rightarrow> Some (Return (Inr csr, z, now))
      | None \<Rightarrow>
     (case order_turn env api look u rec ord z now of
        Panic \<Rightarrow> Some Panic
      | Diverge \<Rightarrow> Some Diverge
      | Return (Inl e, z1, now1) \<Rightarrow> Some (Return (Inl e, z1, now1))
      | Return (Inr ord1, z1, now1) \<Rightarrow> order_loop env api look u rec ord1 z1 now1))"

declare order_loop.simps [code]

definition gen_request ::
  "('o, 'c) acme_env \<Rightarrow> 'z cf_api \<Rightarrow> ('z \<Rightarrow> string \<Rightarrow> lookup) \<Rightarrow> generator
   \<Rightarrow> string \<Rightarrow> 'z \<Rightarrow> nat \<Rightarrow> ((acme_error + acme_certificate) \<times> 'z \<times> nat) outcome" where
  "gen_request env api look g domain z now =
     bind_outcome (ac_new_order env (ge_persist_dir g) (ge_staging g) (ge_email g) domain) (\<lambda>ordered.
       case ordered of
         None \<Rightarrow> Return (Err Acme_Failed, z, now)
       | Some ord \<Rightarrow>
     bind_outcome (case order_loop env api look (ge_updater g) (challenge_record domain) ord z now of
                     None \<Rightarrow> Diverge | Some r \<Rightarrow> r) (\<lambda>(r, z', now').
       case r of
         Inl e \<Rightarrow> Return (Err e, z', now')
       | Inr csr \<Rightarrow>
     bind_outcome (ac_finish env csr) (\<lambda>finished.
       case finished of
         None \<Rightarrow> Return (Err Acme_Failed, z', now')
       | Some cert \<Rightarrow> Return (Ok cert, z', now'))))"

section \<open>The wait for the record\<close>

definition sees :: "lookup \<Rightarrow> string \<Rightarrow> nat \<Rightarrow> bool" where
  "sees look token t =
     (case look t of Return (Some records, d) \<Rightarrow> token \<in> set records | _ \<Rightarrow> False)"

lemma wait_txt_step:
  assumes "look now = Return (found, d)"
  shows "wait_txt look token s now =
     (if sees look token now then Return (True, now + d + 5000)
      else if 90 < (now + d - s) div 1000 then Return (False, now + d)
      else wait_txt look token s (now + d + 5000))"
  by (subst wait_txt.simps) (simp add: sees_def assms split: option.splits)

lemma wait_txt_seen:
  "wait_txt look token s now = Return (True, now1) \<Longrightarrow> \<exists>t. now \<le> t \<and> sees look token t"
proof (induction look token s now rule: wait_txt.induct)
  case (1 look token s now)
  then obtain found d where l: "look now = Return (found, d)"
    by (cases "look now") (auto simp: wait_txt.simps [of look])
  show ?case
  proof (cases "sees look token now")
    case False
    then have "wait_txt look token s (now + d + 5000) = Return (True, now1)" and late: "\<not> 90 < (now + d - s) div 1000"
      using 1(2) unfolding wait_txt_step [where look = look and now = now, OF l] by (simp_all split: if_splits)
    then have "\<exists>t\<ge>now + d + 5000. sees look token t"
      using 1(1) [OF l refl _ late] False l by (auto simp: sees_def)
    then show ?thesis by (meson le_trans le_add1 add.assoc)
  qed auto
qed

text \<open>The lookups come back, within \<open>d\<close> milliseconds.\<close>

definition lookups_within :: "lookup \<Rightarrow> nat \<Rightarrow> bool" where
  "lookups_within look d \<longleftrightarrow> (\<forall>t. \<exists>found e. look t = Return (found, e) \<and> e \<le> d)"

lemma wait_txt_bounds:
  assumes d: "lookups_within look d" and "s \<le> now" "now < s + 96000"
  shows "\<exists>seen t'. wait_txt look token s now = Return (seen, t') \<and> t' < s + 101000 + d
    \<and> (seen \<longrightarrow> (\<exists>t. s \<le> t \<and> t < s + 96000 \<and> sees look token t)) \<and> (\<not> seen \<longrightarrow> s + 91000 \<le> t')"
  using assms(2,3)
proof (induction "91000 + s - now" arbitrary: now rule: less_induct)
  case less
  obtain found e where l: "look now = Return (found, e)" "e \<le> d"
    using d unfolding lookups_within_def by blast
  show ?case
  proof (cases "sees look token now")
    case True
    then show ?thesis using less.prems l wait_txt_step [where look = look and now = now and token = token and s = s, OF l(1)] by auto
  next
    case unseen: False
    show ?thesis
    proof (cases "90 < (now + e - s) div 1000")
      case True
      then have "s + 91000 \<le> now + e" by linarith
      then show ?thesis
        using unseen True less.prems l wait_txt_step [where look = look and now = now and token = token and s = s, OF l(1)] by auto
    next
      case False
      then have "now + e < s + 91000" by linarith
      then have "now + e + 5000 < s + 96000" by simp
      then show ?thesis
        using less.hyps [of "now + e + 5000"] less.prems unseen False wait_txt_step [where look = look and now = now and token = token and s = s, OF l(1)] by simp
    qed
  qed
qed

lemma wait_txt_instant:
  assumes "lookups_within look 0"
  shows "k < 20 \<Longrightarrow> (\<exists>t'. wait_txt look token s (s + 5000 * k) = Return (True, t')) \<longleftrightarrow>
    (\<exists>j. k \<le> j \<and> j < 20 \<and> sees look token (s + 5000 * j))"
proof (induction "20 - k" arbitrary: k)
  case (Suc n)
  obtain found where l: "look (s + 5000 * k) = Return (found, 0)"
    using assms by (fastforce simp: lookups_within_def)
  have late: "90 < (s + 5000 * k + 0 - s) div 1000 \<longleftrightarrow> k = 19"
    using Suc.prems by auto
  note step = wait_txt_step [where look = look and now = "s + 5000 * k" and token = token and s = s, OF l, unfolded late]
  show ?case
  proof (cases "sees look token (s + 5000 * k)")
    case True
    then show ?thesis using Suc.prems step by auto
  next
    case unseen: False
    have rest: "(\<exists>j. k \<le> j \<and> j < 20 \<and> sees look token (s + 5000 * j)) \<longleftrightarrow>
      (\<exists>j. k + 1 \<le> j \<and> j < 20 \<and> sees look token (s + 5000 * j))"
      using unseen by (metis Suc_eq_plus1 le_antisym not_less_eq_eq Suc_leD)
    show ?thesis
    proof (cases "k = 19")
      case True
      then show ?thesis using unseen step rest by simp
    next
      case False
      have "wait_txt look token s (s + 5000 * k) = wait_txt look token s (s + 5000 * (k + 1))"
        using step unseen False by (simp add: algebra_simps)
      then show ?thesis using Suc.hyps(1) [of "k + 1"] Suc.hyps(2) Suc.prems False rest by simp
    qed
  qed
qed simp

text \<open>
  C37. The wait for the DNS record ends if its lookups do. If a lookup takes at most \<open>d\<close> milliseconds,
  the wait is over 101 seconds and \<open>d\<close> after its start; it succeeds only where a lookup that was
  started in the first 96 seconds saw the token, and it fails only after 91 seconds. If lookups
  take no time it makes at most twenty of them, and succeeds if and only if one of them sees the
  token.
\<close>

theorem dns_wait_bounded:
  assumes "lookups_within look d"
  shows "\<exists>seen t'. wait_txt look token s s = Return (seen, t') \<and> t' < s + 101000 + d
    \<and> (seen \<longrightarrow> (\<exists>t. s \<le> t \<and> t < s + 96000 \<and> sees look token t))
    \<and> (\<not> seen \<longrightarrow> s + 91000 \<le> t')
    \<and> (d = 0 \<longrightarrow> seen = (\<exists>j<20. sees look token (s + 5000 * j)))"
proof -
  obtain seen t' where w: "wait_txt look token s s = Return (seen, t')" "t' < s + 101000 + d"
    "seen \<longrightarrow> (\<exists>t. s \<le> t \<and> t < s + 96000 \<and> sees look token t)" "\<not> seen \<longrightarrow> s + 91000 \<le> t'"
    using wait_txt_bounds [OF assms, of s s token] by auto
  have "seen = (\<exists>j<20. sees look token (s + 5000 * j))" if "d = 0"
    using wait_txt_instant [of look 0 token s] assms that w(1) by simp
  then show ?thesis using w by blast
qed

definition late_look :: "nat \<Rightarrow> lookup" where
  "late_look from t = Return (if from \<le> t then Some [''tok''] else None, 0)"

theorem dns_wait_bounded_witness:
  "(\<exists>t'. wait_txt (late_look 12000) ''tok'' 0 0 = Return (True, t'))
   \<and> (\<exists>t'. wait_txt (late_look 95001) ''tok'' 0 0 = Return (False, t'))"
proof
  have within: "lookups_within (late_look from) 0" for "from"
    by (simp add: lookups_within_def late_look_def)
  have "sees (late_look 12000) ''tok'' (0 + 5000 * 3)" by (simp add: sees_def late_look_def)
  then have "\<exists>j<20. sees (late_look 12000) ''tok'' (0 + 5000 * j)" by (intro exI [of _ 3]) simp
  then show "\<exists>t'. wait_txt (late_look 12000) ''tok'' 0 0 = Return (True, t')"
    using dns_wait_bounded [OF within, of 12000 "''tok''" 0] by auto
  have "\<not> (\<exists>j<20. sees (late_look 95001) ''tok'' (0 + 5000 * j))" by (auto simp: sees_def late_look_def)
  then show "\<exists>t'. wait_txt (late_look 95001) ''tok'' 0 0 = Return (False, t')"
    using dns_wait_bounded [OF within, of 95001 "''tok''" 0] by auto
qed

section \<open>What a request changes in the zone\<close>

text \<open>
  What the API of Cloudflare documents, over a view of the zone as its records by their
  identifier. A query changes nothing, and its results are records of the zone with their name
  and type. Writing to the identifier of a record replaces that record by the one of the
  request, of the type of the request; creating adds a record under a new identifier. A write
  that is not reported as a success may have been done or not; nobody else edits the zone in
  the meantime. Calls that do not come back are not described.
\<close>

record dns_record =
  dr_type :: string
  dr_name :: string
  dr_content :: string
  dr_ttl :: u32

type_synonym 'z zone_view = "'z \<Rightarrow> string \<Rightarrow> dns_record option"

definition record_of :: "create_or_update_request \<Rightarrow> dns_record" where
  "record_of r = \<lparr>dr_type = cr_type r, dr_name = cr_name r, dr_content = cr_content r, dr_ttl = cr_ttl r\<rparr>"

definition written ::
  "'z zone_view \<Rightarrow> 'z \<Rightarrow> string \<Rightarrow> create_or_update_request \<Rightarrow> create_or_update_response option \<Rightarrow> 'z \<Rightarrow> bool" where
  "written recs z i r answer z' \<longleftrightarrow>
     recs z' = (recs z)(i \<mapsto> record_of r)
     \<or> recs z' = recs z \<and> (\<forall>body. answer = Some body \<longrightarrow> \<not> cu_success body)"

definition zone_laws :: "'z cf_api \<Rightarrow> updater \<Rightarrow> 'z zone_view \<Rightarrow> bool" where
  "zone_laws api u recs \<longleftrightarrow>
     (\<forall>url a z answer z'. cf_get api url a z = Return (answer, z') \<longrightarrow>
        recs z' = recs z
        \<and> (\<forall>body r. answer = Some body \<longrightarrow> r \<in> set (qy_result body) \<longrightarrow>
             (\<exists>d. recs z (qr_id r) = Some d \<and> dr_name d = qr_name r \<and> dr_type d = qr_type r)))
     \<and> (\<forall>i a r z answer z'. recs z i \<noteq> None \<longrightarrow>
          cf_put api (zone_url u @ ''/'' @ i) a r z = Return (answer, z') \<longrightarrow> written recs z i r answer z')
     \<and> (\<forall>a r z answer z'. cf_post api (zone_url u) a r z = Return (answer, z') \<longrightarrow>
          (\<exists>i. recs z i = None \<and> written recs z i r answer z'))"

lemma zone_get:
  assumes "zone_laws api u recs" "cf_get api url a z = Return (answer, z')"
  shows "recs z' = recs z"
    and "answer = Some body \<Longrightarrow> r \<in> set (qy_result body) \<Longrightarrow>
      \<exists>d. recs z (qr_id r) = Some d \<and> dr_name d = qr_name r \<and> dr_type d = qr_type r"
  using assms unfolding zone_laws_def by blast+

lemma zone_put:
  "\<lbrakk>zone_laws api u recs; recs z i = Some d; cf_put api (zone_url u @ ''/'' @ i) a r z = Return (answer, z')\<rbrakk>
   \<Longrightarrow> written recs z i r answer z'"
  unfolding zone_laws_def by blast

lemma zone_post:
  "\<lbrakk>zone_laws api u recs; cf_post api (zone_url u) a r z = Return (answer, z')\<rbrakk>
   \<Longrightarrow> \<exists>i. recs z i = None \<and> written recs z i r answer z'"
  unfolding zone_laws_def by blast

text \<open>The record of a challenge, and the changes that only write such records.\<close>

definition challenge_txt :: "string \<Rightarrow> string \<Rightarrow> dns_record" where
  "challenge_txt rec token = \<lparr>dr_type = ''TXT'', dr_name = rec, dr_content = token, dr_ttl = 60\<rparr>"

definition only_challenges :: "'z zone_view \<Rightarrow> string \<Rightarrow> string set \<Rightarrow> 'z \<Rightarrow> 'z \<Rightarrow> bool" where
  "only_challenges recs rec tokens z z' \<longleftrightarrow>
     (\<forall>i. recs z' i \<noteq> recs z i \<longrightarrow>
        (\<exists>token\<in>tokens. recs z' i = Some (challenge_txt rec token))
        \<and> (\<forall>d. recs z i = Some d \<longrightarrow> dr_type d = ''TXT'' \<and> dr_name d = rec))"

lemma only_challenges_refl: "recs z' = recs z \<Longrightarrow> only_challenges recs rec tokens z z'"
  by (simp add: only_challenges_def)

lemma only_challenges_trans:
  assumes "only_challenges recs rec tokens z z1" "only_challenges recs rec tokens z1 z2"
  shows "only_challenges recs rec tokens z z2"
  unfolding only_challenges_def
proof (intro allI impI)
  fix i assume diff: "recs z2 i \<noteq> recs z i"
  show "(\<exists>token\<in>tokens. recs z2 i = Some (challenge_txt rec token))
    \<and> (\<forall>d. recs z i = Some d \<longrightarrow> dr_type d = ''TXT'' \<and> dr_name d = rec)"
    using assms [unfolded only_challenges_def, rule_format, of i] diff
    by (cases "recs z2 i = recs z1 i"; cases "recs z1 i = recs z i") auto
qed

lemma only_challenges_mono:
  "only_challenges recs rec S z z' \<Longrightarrow> S \<subseteq> T \<Longrightarrow> only_challenges recs rec T z z'"
  by (fastforce simp: only_challenges_def)

lemma record_of_request: "record_of (get_create_request rec token) = challenge_txt rec token"
  by (simp add: record_of_def get_create_request_def challenge_txt_def)

lemma written_challenge:
  assumes "written recs z i (get_create_request rec token) answer z'"
    and "\<forall>d. recs z i = Some d \<longrightarrow> dr_type d = ''TXT'' \<and> dr_name d = rec"
  shows "only_challenges recs rec {token} z z'
    \<and> ((\<exists>body. answer = Some body \<and> cu_success body) \<longrightarrow> recs z' i = Some (challenge_txt rec token))"
  using assms by (auto simp: written_def only_challenges_def record_of_request split: if_splits)

lemma get_record_id_found:
  assumes "zone_laws api u recs" "get_record_id api u rec a z = Return (res, z')"
  shows "recs z' = recs z \<and> (\<forall>i. res = Ok i \<longrightarrow> (\<exists>d. recs z' i = Some d \<and> dr_type d = ''TXT'' \<and> dr_name d = rec))"
proof -
  let ?url = "zone_url u @ ''?match=all&name='' @ rec @ ''&type=TXT''"
  obtain answer z1 where g: "cf_get api ?url a z = Return (answer, z1)"
    using assms(2) by (cases "cf_get api ?url a z") (auto simp: get_record_id_def)
  then have "z1 = z'" using assms(2) by (auto simp: get_record_id_def split: option.splits if_splits)
  then have get: "cf_get api ?url a z = Return (answer, z')" using g by simp
  note zone = zone_get [OF assms(1) get]
  have "\<exists>body r. answer = Some body \<and> r \<in> set (qy_result body) \<and> qr_id r = i \<and> qr_type r = ''TXT'' \<and> qr_name r = rec"
    if "res = Ok i" for i
    using assms(2) get that
    by (auto simp: get_record_id_def find_Some_iff split: option.splits if_splits) (metis nth_mem)
  then show ?thesis using zone by (metis (no_types))
qed

lemma update_record_writes:
  assumes "zone_laws api u recs" "recs z i = Some d" "dr_type d = ''TXT''" "dr_name d = rec"
    and "update_record api u rec i token a z = Return (res, z')"
  shows "only_challenges recs rec {token} z z' \<and> (res = Ok () \<longrightarrow> (\<exists>i. recs z' i = Some (challenge_txt rec token)))"
proof -
  obtain answer where put: "cf_put api (zone_url u @ ''/'' @ i) a (get_create_request rec token) z = Return (answer, z')"
    and res: "res = Ok () \<longleftrightarrow> (\<exists>body. answer = Some body \<and> cu_success body)"
    using assms(5) by (auto simp: update_record_def bind_outcome_Return split: option.splits if_splits)
  show ?thesis
    using written_challenge [OF zone_put [OF assms(1,2) put]] assms(2-4) res by auto
qed

lemma create_record_writes:
  assumes "zone_laws api u recs" "create_record api u rec token a z = Return (res, z')"
  shows "only_challenges recs rec {token} z z' \<and> (res = Ok () \<longrightarrow> (\<exists>i. recs z' i = Some (challenge_txt rec token)))"
proof -
  obtain answer where post: "cf_post api (zone_url u) a (get_create_request rec token) z = Return (answer, z')"
    and res: "res = Ok () \<longleftrightarrow> (\<exists>body. answer = Some body \<and> cu_success body)"
    using assms(2) by (auto simp: create_record_def bind_outcome_Return split: option.splits if_splits)
  obtain i where "recs z i = None" "written recs z i (get_create_request rec token) answer z'"
    using zone_post [OF assms(1) post] by blast
  then show ?thesis using written_challenge [of recs z i rec token answer z'] res by auto
qed

lemma cf_update_writes:
  assumes laws: "zone_laws api u recs" and run: "cf_update api u rec token z = Return (res, z')"
  shows "only_challenges recs rec {token} z z' \<and> (res = Ok () \<longrightarrow> (\<exists>i. recs z' i = Some (challenge_txt rec token)))"
proof -
  define a where "a = ''Bearer '' @ up_token u"
  have whole: "bind_outcome (get_record_id api u rec a z) (\<lambda>(found, z1).
      case found of
        Inl _ \<Rightarrow> create_record api u rec token a z1
      | Inr i \<Rightarrow>
          bind_outcome (update_record api u rec i token a z1) (\<lambda>(updated, z2).
            case updated of Inr result \<Rightarrow> Return (Ok result, z2)
            | Inl _ \<Rightarrow> create_record api u rec token a z2)) = Return (res, z')"
    using run by (simp only: cf_update_def Let_def a_def)
  then obtain p where "get_record_id api u rec a z = Return p"
    unfolding bind_outcome_Return by blast
  then obtain found z1 where get: "get_record_id api u rec a z = Return (found, z1)" by (cases p) blast
  note got = get_record_id_found [OF laws get]
  have fresh: "only_challenges recs rec {token} z z1" by (rule only_challenges_refl) (use got in simp)
  show ?thesis
  proof (cases found)
    case (Inl e)
    then have "create_record api u rec token a z1 = Return (res, z')" using whole unfolding get by simp
    from create_record_writes [OF laws this] show ?thesis using only_challenges_trans [OF fresh] by blast
  next
    case (Inr i)
    then obtain d where d: "recs z1 i = Some d" "dr_type d = ''TXT''" "dr_name d = rec" using got by blast
    have "bind_outcome (update_record api u rec i token a z1) (\<lambda>(updated, z2).
        case updated of Inr result \<Rightarrow> Return (Ok result, z2)
        | Inl _ \<Rightarrow> create_record api u rec token a z2) = Return (res, z')"
      using whole unfolding get Inr by simp
    then obtain p2 where "update_record api u rec i token a z1 = Return p2"
      unfolding bind_outcome_Return by blast
    then obtain res2 z2 where u: "update_record api u rec i token a z1 = Return (res2, z2)" by (cases p2) blast
    note wrote = update_record_writes [OF laws d u]
    then have second: "only_challenges recs rec {token} z z2" using only_challenges_trans [OF fresh] by blast
    show ?thesis
    proof (cases res2)
      case (Inl e)
      then have "create_record api u rec token a z2 = Return (res, z')"
        using whole get \<open>found = Inr i\<close> u by simp
      from create_record_writes [OF laws this] show ?thesis using only_challenges_trans [OF second] by blast
    next
      case (Inr x)
      then have "z' = z2" using whole get \<open>found = Inr i\<close> u by simp
      then show ?thesis using second wrote Inr by simp
    qed
  qed
qed

text \<open>
  C35. Writing a challenge is safe for the zone. With an API that keeps its documented laws
  (\<open>zone_laws\<close>: queries list records with their name and type, a write replaces the record of an
  identifier or adds one, of the type it was sent with, and a write that fails may have been
  done or not), wherever the update comes back: each record that differs afterwards is now a TXT
  record of the name of the challenge with its content and a life of 60 seconds, and was before
  missing or a TXT record of that name. So no record of another name or of another type is
  touched, on every path (the query fails, the update is refused and a record is created,
  everything fails). If the update is reported as done, such a record of the challenge exists.
\<close>

theorem cloudflare_update_safe:
  assumes "zone_laws api u recs" "cf_update api u rec challenge z = Return (res, z')"
  shows "(\<forall>i. recs z' i \<noteq> recs z i \<longrightarrow>
        recs z' i = Some \<lparr>dr_type = ''TXT'', dr_name = rec, dr_content = challenge, dr_ttl = 60\<rparr>
        \<and> (\<forall>d. recs z i = Some d \<longrightarrow> dr_type d = ''TXT'' \<and> dr_name d = rec))
    \<and> (\<forall>i d. recs z i = Some d \<longrightarrow> dr_type d \<noteq> ''TXT'' \<or> dr_name d \<noteq> rec \<longrightarrow> recs z' i = Some d)
    \<and> (res = Ok () \<longrightarrow>
        (\<exists>i. recs z' i = Some \<lparr>dr_type = ''TXT'', dr_name = rec, dr_content = challenge, dr_ttl = 60\<rparr>))"
proof -
  note effect = cf_update_writes [OF assms, unfolded only_challenges_def challenge_txt_def]
  have "recs z' i = Some d" if "recs z i = Some d" "dr_type d \<noteq> ''TXT'' \<or> dr_name d \<noteq> rec" for i d
    using effect that by metis
  then show ?thesis using effect by blast
qed

text \<open>A zone as the list of its records; the identifier of a record is its position, in unary.\<close>

definition list_recs :: "dns_record list zone_view" where
  "list_recs z i =
     (if i \<noteq> [] \<and> i = replicate (length i) CHR ''r'' \<and> length i \<le> length z then Some (z ! (length i - 1)) else None)"

definition list_put :: "string \<Rightarrow> create_or_update_request \<Rightarrow> dns_record list
    \<Rightarrow> (create_or_update_response option \<times> dns_record list) outcome" where
  "list_put i r z =
     (case list_recs z i of
        None \<Rightarrow> Return (None, z)
      | Some _ \<Rightarrow> Return (Some \<lparr>cu_success = True, cu_errors = []\<rparr>, z[length i - 1 := record_of r]))"

definition list_zone :: "updater \<Rightarrow> dns_record list cf_api" where
  "list_zone u =
     \<lparr>cf_get = (\<lambda>url a z. Return (Some \<lparr>qy_success = True, qy_errors = [],
                 qy_result = map (\<lambda>k. \<lparr>qr_id = replicate (Suc k) CHR ''r'', qr_zone_id = up_zone_id u,
                                        qr_name = dr_name (z ! k), qr_type = dr_type (z ! k)\<rparr>) [0..<length z]\<rparr>, z)),
      cf_put = (\<lambda>url a r z. list_put (drop (length (zone_url u) + 1) url) r z),
      cf_post = (\<lambda>url a r z. Return (Some \<lparr>cu_success = True, cu_errors = []\<rparr>, z @ [record_of r]))\<rparr>"

lemma list_recs_id: "list_recs z (replicate (Suc k) CHR ''r'') = (if k < length z then Some (z ! k) else None)"
  by (simp add: list_recs_def Suc_le_eq)

lemma list_recs_update:
  assumes "list_recs z i = Some d"
  shows "list_recs (z[length i - 1 := r]) = (list_recs z)(i \<mapsto> r)"
proof
  fix j
  have i: "i \<noteq> []" "i = replicate (length i) CHR ''r''" "length i \<le> length z"
    using assms by (auto simp: list_recs_def split: if_splits)
  show "list_recs (z[length i - 1 := r]) j = ((list_recs z)(i \<mapsto> r)) j"
  proof (cases "j = i")
    case True
    then show ?thesis using i by (cases i) (auto simp: list_recs_def)
  next
    case False
    have "length j - 1 \<noteq> length i - 1" if "j \<noteq> []" "j = replicate (length j) CHR ''r''"
      using that i False by (metis Suc_pred' length_greater_0_conv)
    then show ?thesis using False by (auto simp: list_recs_def)
  qed
qed

lemma list_recs_append: "list_recs (z @ [r]) = (list_recs z)(replicate (Suc (length z)) CHR ''r'' \<mapsto> r)"
proof
  fix j
  show "list_recs (z @ [r]) j = ((list_recs z)(replicate (Suc (length z)) CHR ''r'' \<mapsto> r)) j"
  proof (cases "j = replicate (Suc (length z)) CHR ''r''")
    case True
    then show ?thesis by (simp add: list_recs_id del: replicate_Suc)
  next
    case False
    have "length j \<noteq> Suc (length z)" if "j = replicate (length j) CHR ''r''"
      using that False by metis
    then have "length j - 1 < length z" if "j = replicate (length j) CHR ''r''" "length j \<le> Suc (length z)" "j \<noteq> []"
      using that by (cases j) fastforce+
    then show ?thesis using False \<open>j = replicate (length j) CHR ''r'' \<Longrightarrow> length j \<noteq> Suc (length z)\<close>
      by (auto simp: list_recs_def nth_append simp del: replicate_Suc)
  qed
qed

lemma list_zone_laws: "zone_laws (list_zone u) u list_recs"
proof -
  have put: "written list_recs z i r answer z'"
    if "list_recs z i \<noteq> None" "list_put i r z = Return (answer, z')" for i r z answer z'
    using that list_recs_update [of z i] by (auto simp: list_put_def written_def)
  have post: "list_recs z (replicate (Suc (length z)) CHR ''r'') = None" for z
    by (simp add: list_recs_id del: replicate_Suc)
  then have "\<exists>i. list_recs z i = None \<and> written list_recs z i r answer (z @ [record_of r])" for z r answer
    using list_recs_append [of z "record_of r"] unfolding written_def by blast
  then show ?thesis
    unfolding zone_laws_def using put by (auto simp: list_zone_def list_recs_id simp del: replicate_Suc)
qed

definition sample_zone :: "dns_record list" where
  "sample_zone = [\<lparr>dr_type = ''A'', dr_name = ''_acme-challenge.a'', dr_content = ''kept'', dr_ttl = 1\<rparr>,
                  \<lparr>dr_type = ''TXT'', dr_name = ''_acme-challenge.a'', dr_content = ''stale'', dr_ttl = 1\<rparr>]"

theorem cloudflare_update_safe_witness:
  "let u = \<lparr>up_token = ''t'', up_zone_id = ''z''\<rparr>
   in \<exists>z'. cf_update (list_zone u) u ''_acme-challenge.a'' ''proof'' sample_zone = Return (Ok (), z')
      \<and> map_option dr_content (list_recs z' ''r'') = Some ''kept''
      \<and> (\<exists>i. map_option dr_content (list_recs z' i) = Some ''proof'')"
proof -
  let ?u = "\<lparr>up_token = ''t'', up_zone_id = ''z''\<rparr>"
  let ?z = "[\<lparr>dr_type = ''A'', dr_name = ''_acme-challenge.a'', dr_content = ''kept'', dr_ttl = 1\<rparr>,
             \<lparr>dr_type = ''TXT'', dr_name = ''_acme-challenge.a'', dr_content = ''proof'', dr_ttl = 60\<rparr>]"
  have run: "cf_update (list_zone ?u) ?u ''_acme-challenge.a'' ''proof'' sample_zone = Return (Ok (), ?z)"
    by code_simp
  note safe = cloudflare_update_safe [OF list_zone_laws run]
  have "list_recs sample_zone ''r'' = Some (hd sample_zone)" by (simp add: list_recs_def sample_zone_def)
  moreover have "dr_type (hd sample_zone) \<noteq> ''TXT''" by (simp add: sample_zone_def)
  ultimately have "list_recs ?z ''r'' = Some (hd sample_zone)" using safe by blast
  moreover obtain i where "list_recs ?z i = Some \<lparr>dr_type = ''TXT'', dr_name = ''_acme-challenge.a'',
      dr_content = ''proof'', dr_ttl = 60\<rparr>"
    using safe by blast
  then have "map_option dr_content (list_recs ?z i) = Some ''proof''" by simp
  ultimately show ?thesis
    unfolding Let_def using run by (intro exI [of _ ?z]) (auto simp: sample_zone_def)
qed

section \<open>What a request does\<close>

text \<open>
  One round of the order: it is not confirmed, its first proof is the content of the TXT record of
  the challenge, a lookup of that record has seen the proof, the challenge is validated and the
  order is read again.
\<close>

inductive rounds ::
  "('o, 'c) acme_env \<Rightarrow> 'z zone_view \<Rightarrow> ('z \<Rightarrow> string \<Rightarrow> lookup) \<Rightarrow> string \<Rightarrow> 'o \<Rightarrow> 'o \<Rightarrow> bool"
  for env :: "('o, 'c) acme_env" and recs :: "'z zone_view" and look rec where
  rounds_start: "rounds env recs look rec ord ord"
| rounds_next:
    "\<lbrakk>ac_confirm env ord = None; ac_proofs env ord = Return (Some (token # others));
      recs z i = Some (challenge_txt rec token); sees (look z rec) token t;
      ac_validate env ord = Return (Some ord1); ac_refresh env ord1 = Return (Some ord2);
      rounds env recs look rec ord2 ord3\<rbrakk> \<Longrightarrow> rounds env recs look rec ord ord3"

text \<open>The proofs that an order may ask for.\<close>

definition proofs_of :: "('o, 'c) acme_env \<Rightarrow> string set" where
  "proofs_of env = {token. \<exists>ord others. ac_proofs env ord = Return (Some (token # others))}"

lemma order_turn_effect:
  assumes laws: "zone_laws api u recs" and turn: "order_turn env api look u rec ord z now = Return (r, z1, now1)"
  shows "only_challenges recs rec (proofs_of env) z z1
    \<and> (\<forall>ord2. ac_confirm env ord = None \<longrightarrow> r = Inr ord2 \<longrightarrow>
         (\<forall>ord3. rounds env recs look rec ord2 ord3 \<longrightarrow> rounds env recs look rec ord ord3))"
proof (cases "\<exists>token others. ac_proofs env ord = Return (Some (token # others))")
  case False
  obtain auths where a: "ac_proofs env ord = Return auths"
    using turn unfolding order_turn_def bind_outcome_Return by blast
  then have "auths = None" using turn False by (cases auths; cases "the auths") (auto simp: order_turn_def)
  then have "z1 = z" "\<nexists>x. r = Inr x" using turn a by (auto simp: order_turn_def)
  then show ?thesis by (simp add: only_challenges_refl)
next
  case True
  then obtain token others where p: "ac_proofs env ord = Return (Some (token # others))" by blast
  then have sub: "{token} \<subseteq> proofs_of env" by (auto simp: proofs_of_def)
  obtain out where out: "cf_update api u rec token z = Return out"
    using turn by (cases "cf_update api u rec token z") (simp_all add: order_turn_def p)
  obtain res zu where up: "cf_update api u rec token z = Return (res, zu)"
    using out by (cases out) simp
  note wrote = cf_update_writes [OF laws up]
  have safe: "only_challenges recs rec (proofs_of env) z zu"
    by (rule only_challenges_mono [OF conjunct1 [OF wrote] sub])
  have "z1 = zu"
    using turn p up by (auto simp: order_turn_def bind_outcome_Return split: option.splits sum.splits if_splits)
  moreover have "rounds env recs look rec ord ord3"
    if c: "ac_confirm env ord = None" and r: "r = Inr ord2" and more: "rounds env recs look rec ord2 ord3" for ord2 ord3
  proof -
    obtain ord1 where "res = Ok ()" "ac_validate env ord = Return (Some ord1)" "ac_refresh env ord1 = Return (Some ord2)"
      and "wait_txt (look zu rec) token now now = Return (True, now1)"
      using turn p up r
      by (auto simp: order_turn_def bind_outcome_Return split: option.splits sum.splits if_splits)
    moreover obtain i where "recs zu i = Some (challenge_txt rec token)"
      using wrote \<open>res = Ok ()\<close> by blast
    moreover obtain t where "sees (look zu rec) token t"
      using wait_txt_seen \<open>wait_txt (look zu rec) token now now = Return (True, now1)\<close> by blast
    ultimately show ?thesis by (intro rounds_next [OF c p _ _ _ _ more])
  qed
  ultimately show ?thesis using safe by blast
qed

definition loop_effect ::
  "'z zone_view \<Rightarrow> ('o, 'c) acme_env \<Rightarrow> ('z \<Rightarrow> string \<Rightarrow> lookup) \<Rightarrow> string \<Rightarrow> 'o \<Rightarrow> 'z
   \<Rightarrow> ((acme_error + 'c) \<times> 'z \<times> nat) outcome \<Rightarrow> bool" where
  "loop_effect recs env look rec ord z y \<longleftrightarrow>
     (\<forall>r z' now'. y = Return (r, z', now') \<longrightarrow>
        only_challenges recs rec (proofs_of env) z z'
        \<and> (\<forall>csr. r = Inr csr \<longrightarrow> (\<exists>ord'. rounds env recs look rec ord ord' \<and> ac_confirm env ord' = Some csr)))"

lemma loop_effect_again:
  assumes "loop_effect recs env look rec ord2 z1 y" "only_challenges recs rec (proofs_of env) z z1"
    and "\<And>ord3. rounds env recs look rec ord2 ord3 \<Longrightarrow> rounds env recs look rec ord ord3"
  shows "loop_effect recs env look rec ord z y"
  using assms only_challenges_trans [OF assms(2)] unfolding loop_effect_def by blast

lemma order_loop_effect:
  assumes laws: "zone_laws api u recs"
    and run: "order_loop env api look u rec ord z now = Some y"
  shows "loop_effect recs env look rec ord z y"
proof -
  have "zone_laws api u recs \<longrightarrow> loop_effect recs env look rec ord z y"
  proof (rule order_loop.raw_induct [where P =
        "\<lambda>env api look u rec ord z now y. zone_laws api u recs \<longrightarrow> loop_effect recs env look rec ord z y", OF _ run],
        rule impI, goal_cases)
    case (1 loop env api look u rec ord z now y)
    show ?case
    proof (cases "ac_confirm env ord")
      case (Some csr)
      then show ?thesis using 1(2) by (auto simp: loop_effect_def intro: rounds_start only_challenges_refl)
    next
      case unconfirmed: None
      show ?thesis
      proof (cases "order_turn env api look u rec ord z now")
        case (Return out)
        obtain r z1 now1 where out: "out = (r, z1, now1)" by (cases out)
        note effect = order_turn_effect [OF 1(3) Return [unfolded out]]
        show ?thesis
        proof (cases r)
          case (Inl e)
          then show ?thesis
            using 1(2) unconfirmed Return out effect by (auto simp: loop_effect_def)
        next
          case (Inr ord2)
          then have "loop env api look u rec ord2 z1 now1 = Some y"
            using 1(2) unconfirmed Return out by simp
          then have "loop_effect recs env look rec ord2 z1 y" using 1(1,3) by blast
          from loop_effect_again [OF this] show ?thesis using effect unconfirmed Inr by blast
        qed
      qed (use 1(2) unconfirmed in \<open>auto simp: loop_effect_def\<close>)
    qed
  qed
  then show ?thesis using laws by blast
qed


text \<open>A server whose orders count the rounds that are left, with the zone above.\<close>

definition sample_env :: "(nat, string) acme_env" where
  "sample_env =
     \<lparr>ac_new_order = (\<lambda>persist staging email domain. Return (Some 1)),
      ac_confirm = (\<lambda>left. if left = 0 then Some ''csr'' else None),
      ac_proofs = (\<lambda>left. Return (Some [''proof''])),
      ac_validate = (\<lambda>left. Return (Some left)),
      ac_refresh = (\<lambda>left. Return (Some (left - 1))),
      ac_finish = (\<lambda>csr. Return (Some \<lparr>ac_private_key_der = [1], ac_certificate_der = [9]\<rparr>))\<rparr>"

definition sample_generator :: generator where
  "sample_generator = \<lparr>ge_email = ''e'', ge_persist_dir = ''p'', ge_staging = True, ge_updater = \<lparr>up_token = ''t'', up_zone_id = ''z''\<rparr>\<rparr>"

definition sample_look :: "dns_record list \<Rightarrow> string \<Rightarrow> lookup" where
  "sample_look z rec t = Return (Some (map dr_content z), 40)"


end
