(* ===== verification/Cert_Updates.thy ===== *)
theory Cert_Updates
  imports Acme
begin

text \<open>
  The task that \<open>Server::run_https\<close> (\<open>nport-server/src/server/implementation.rs\<close>) starts for the store
  of certificates: an update every hour, for as long as the server runs, each with the
  exchange of \<open>generator.rs\<close> (\<open>gen_request\<close>). The lemmas show that the updates never lose a
  certificate, and that an update comes back unless its exchange panics or hangs, or gives a key
  that \<open>rustls\<close> refuses.
\<close>

section \<open>The certificates of a running server\<close>

text \<open>
  A turn is the world of one update: the ACME server, the API of Cloudflare and the resolver, the
  zone and the time at which the request for each domain starts, whether files can be written,
  and the clock.
\<close>

record ('o, 'c, 'z) updater_turn =
  ut_acme :: "('o, 'c) acme_env"
  ut_api :: "'z cf_api"
  ut_look :: "'z \<Rightarrow> string \<Rightarrow> lookup"
  ut_zone :: "string \<Rightarrow> 'z"
  ut_now :: "string \<Rightarrow> nat"
  ut_io_ok :: bool
  ut_clock :: "nat \<Rightarrow> int"

definition turn_request :: "generator \<Rightarrow> ('o, 'c, 'z) updater_turn \<Rightarrow> cert_request" where
  "turn_request g t domain =
     bind_outcome (gen_request (ut_acme t) (ut_api t) (ut_look t) g domain (ut_zone t domain) (ut_now t domain))
       (\<lambda>(r, z, now). Return (case r of Inl e \<Rightarrow> None | Inr cert \<Rightarrow> Some cert))"

fun updater_loop ::
  "'k cert_env \<Rightarrow> generator \<Rightarrow> ('o, 'c, 'z) updater_turn list \<Rightarrow> 'k store \<Rightarrow> 'k store outcome" where
  "updater_loop env g [] s = Return s"
| "updater_loop env g (t # ts) s =
     bind_outcome (store_update (env\<lparr>ce_clock := ut_clock t\<rparr>) (turn_request g t) (ut_io_ok t) s)
       (updater_loop env g ts)"

section \<open>Certificates are never lost\<close>

definition keeps_certs :: "'k store \<Rightarrow> 'k store \<Rightarrow> bool" where
  "keeps_certs s s' \<longleftrightarrow> store_domain s' = store_domain s \<and> dom (store_certs s) \<subseteq> dom (store_certs s')"

lemma keeps_certs_refl [simp]: "keeps_certs s s"
  by (simp add: keeps_certs_def)

lemma keeps_certs_trans: "keeps_certs s s1 \<Longrightarrow> keeps_certs s1 s2 \<Longrightarrow> keeps_certs s s2"
  by (auto simp: keeps_certs_def)

lemma update_cert_keeps: "update_cert env io d cert s = Return s' \<Longrightarrow> keeps_certs s s'"
  by (auto simp: update_cert_def store_add_def store_cert_def keeps_certs_def bind_outcome_Return Let_def
      split: option.splits if_splits)

lemma renew_cert_keeps: "renew_cert env request io d s = Return (r, s') \<Longrightarrow> keeps_certs s s'"
  by (auto simp: renew_cert_def bind_outcome_Return update_cert_keeps split: option.splits)

lemma renew_loop_keeps: "renew_loop env request io n ds s = Return (r, s') \<Longrightarrow> keeps_certs s s'"
proof (induction ds arbitrary: n s)
  case (Cons d ds)
  from Cons.prems obtain b where b: "should_renew_cert env n s d = Return b"
    and rest: "(if b then bind_outcome (renew_cert env request io d s) (\<lambda>(r, s').
        case r of Inl e \<Rightarrow> Return (Err e, s') | Inr _ \<Rightarrow> renew_loop env request io (n + 1) ds s')
      else renew_loop env request io (n + 1) ds s) = Return (r, s')"
    by (auto simp: bind_outcome_Return)
  show ?case
  proof (cases b)
    case False
    then show ?thesis using rest Cons.IH by simp
  next
    case True
    then obtain r1 s1 where one: "renew_cert env request io d s = Return (r1, s1)"
      and more: "(case r1 of Inl e \<Rightarrow> Return (Err e, s1) | Inr _ \<Rightarrow> renew_loop env request io (n + 1) ds s1) = Return (r, s')"
      using rest by (auto simp: bind_outcome_Return)
    have "keeps_certs s1 s'" using more Cons.IH by (cases r1) auto
    then show ?thesis using renew_cert_keeps [OF one] keeps_certs_trans by blast
  qed
qed simp

lemma store_update_keeps: "store_update env request io s = Return s' \<Longrightarrow> keeps_certs s s'"
  by (auto simp: store_update_def renew_def bind_outcome_Return simp del: renew_loop.simps dest: renew_loop_keeps split: if_splits)

lemma updater_loop_keeps: "updater_loop env g ts s = Return s' \<Longrightarrow> keeps_certs s s'"
  by (induction ts arbitrary: s) (auto simp: bind_outcome_Return dest!: store_update_keeps intro: keeps_certs_trans)

lemma resolve_keeps:
  assumes "keeps_certs s s'" "resolve s sni \<noteq> None" shows "resolve s' sni \<noteq> None"
  using assms by (fastforce simp: resolve_def or_else_def Let_def keeps_certs_def split: option.splits)

lemma resolve_keeps_domain: "keeps_certs s s' \<Longrightarrow> store_certs s d \<noteq> None \<Longrightarrow> store_certs s' d \<noteq> None"
  by (auto simp: keeps_certs_def)

section \<open>An update comes back\<close>

text \<open>Every entry of the store has a certificate, as \<open>Store::add\<close> makes it.\<close>

definition stocked :: "'k store \<Rightarrow> bool" where
  "stocked s \<longleftrightarrow> (\<forall>d c. store_certs s d = Some c \<longrightarrow> ck_cert c \<noteq> [])"

text \<open>The exchange for a domain comes back, with an error or with a key that \<open>rustls\<close> can use.\<close>

definition usable_answer :: "'k cert_env \<Rightarrow> cert_request \<Rightarrow> string \<Rightarrow> bool" where
  "usable_answer env request domain \<longleftrightarrow>
     (\<exists>answer. request domain = Return answer
        \<and> (\<forall>c. answer = Some c \<longrightarrow> ce_supported_key env (ac_private_key_der c) \<noteq> None))"

lemma cert_expiration_returns:
  "consuming from_der \<Longrightarrow> \<exists>r. cert_expiration from_der d = Return r"
  using der_chain_or_broken [of from_der d] cert_expiration_chain [of from_der d]
    cert_expiration_loop_broken [of from_der d]
  by (auto simp: cert_expiration_def)

lemma should_renew_cert_returns:
  assumes "consuming (ce_from_der env)" "stocked s"
  shows "\<exists>b. should_renew_cert env n s d = Return b"
proof (cases "store_certs s d")
  case None
  then have "should_renew_cert env n s d = Return True" by (simp add: should_renew_cert_def)
  then show ?thesis ..
next
  case (Some c)
  then obtain der rest where c: "ck_cert c = der # rest"
    using assms(2) by (cases "ck_cert c") (auto simp: stocked_def)
  obtain r where "cert_expiration (ce_from_der env) der = Return r"
    using cert_expiration_returns [OF assms(1)] by blast
  then show ?thesis using Some c by (cases r) (auto simp: should_renew_cert_def intro: exI [of _ True])
qed

lemma renew_cert_returns:
  assumes "usable_answer env request d" "stocked s"
  shows "\<exists>r s'. renew_cert env request io d s = Return (r, s') \<and> stocked s'"
proof -
  obtain answer where r: "request d = Return answer"
    and k: "\<And>c. answer = Some c \<Longrightarrow> ce_supported_key env (ac_private_key_der c) \<noteq> None"
    using assms(1) unfolding usable_answer_def by blast
  show ?thesis
  proof (cases answer)
    case None
    then show ?thesis using assms(2) r by (simp add: renew_cert_def)
  next
    case (Some c)
    then obtain key where "ce_supported_key env (ac_private_key_der c) = Some key" using k by blast
    then show ?thesis
      using assms(2) Some r
      by (auto simp: renew_cert_def update_cert_def store_add_def store_cert_def stocked_def Let_def
          split: option.splits)
  qed
qed

lemma renew_loop_returns:
  assumes "consuming (ce_from_der env)"
  shows "\<lbrakk>stocked s; list_all (usable_answer env request) ds\<rbrakk>
    \<Longrightarrow> \<exists>r s'. renew_loop env request io n ds s = Return (r, s') \<and> stocked s'"
proof (induction ds arbitrary: n s)
  case (Cons d ds)
  then have d: "usable_answer env request d" and ds: "list_all (usable_answer env request) ds" by simp_all
  obtain b where b: "should_renew_cert env n s d = Return b"
    using should_renew_cert_returns [OF assms(1) Cons.prems(1)] by blast
  obtain r1 s1 where one: "renew_cert env request io d s = Return (r1, s1)" "stocked s1"
    using renew_cert_returns [OF d Cons.prems(1)] by blast
  show ?case
    using b one Cons.IH [OF _ ds, of s1 "n + 1"] Cons.IH [OF Cons.prems(1) ds, of "n + 1"]
    by (cases b; cases r1) simp_all
qed simp

lemma store_update_returns:
  assumes "consuming (ce_from_der env)" "stocked s"
    and "usable_answer env request (root_domain s)" "usable_answer env request (wildcard_domain s)"
  shows "\<exists>s'. store_update env request io s = Return s' \<and> stocked s'"
proof -
  obtain a b where "should_renew_cert env 0 s (root_domain s) = Return a"
    "should_renew_cert env 1 s (wildcard_domain s) = Return b"
    using should_renew_cert_returns [OF assms(1,2)] by metis
  then have "should_renew env s = Return (a \<or> b)"
    by (simp add: should_renew_def)
  then obtain b' where r: "should_renew env s = Return b'" ..
  have both: "list_all (usable_answer env request) [root_domain s, wildcard_domain s]"
    using assms(3,4) by simp
  obtain r s' where "renew_loop env request io 2 [root_domain s, wildcard_domain s] s = Return (r, s')" "stocked s'"
    using renew_loop_returns [OF assms(1,2) both] by blast
  then show ?thesis
    using r assms(2) by (cases b') (simp_all add: store_update_def renew_def del: renew_loop.simps)
qed

lemma store_update_domain: "store_update env request io s = Return s' \<Longrightarrow> store_domain s' = store_domain s"
  by (drule store_update_keeps) (simp add: keeps_certs_def)

text \<open>Both exchanges of every turn come back, for the domain and for its subdomains.\<close>

definition exchanges_return ::
  "'k cert_env \<Rightarrow> generator \<Rightarrow> string \<Rightarrow> ('o, 'c, 'z) updater_turn list \<Rightarrow> bool" where
  "exchanges_return env g domain ts \<longleftrightarrow>
     list_all (\<lambda>t. usable_answer env (turn_request g t) domain
                 \<and> usable_answer env (turn_request g t) (''*.'' @ domain)) ts"

lemma updater_loop_returns:
  assumes "consuming (ce_from_der env)"
  shows "\<lbrakk>stocked s; exchanges_return env g (store_domain s) ts\<rbrakk>
    \<Longrightarrow> \<exists>s'. updater_loop env g ts s = Return s' \<and> stocked s'"
proof (induction ts arbitrary: s)
  case (Cons t ts)
  let ?env = "env\<lparr>ce_clock := ut_clock t\<rparr>"
  have "usable_answer ?env (turn_request g t) (root_domain s)" "usable_answer ?env (turn_request g t) (wildcard_domain s)"
    "consuming (ce_from_der ?env)"
    using Cons.prems(2) assms by (simp_all add: exchanges_return_def usable_answer_def root_domain_def wildcard_domain_def)
  then obtain s1 where s1: "store_update ?env (turn_request g t) (ut_io_ok t) s = Return s1" "stocked s1"
    using store_update_returns Cons.prems(1) by blast
  have "exchanges_return env g (store_domain s1) ts"
    using Cons.prems(2) store_update_domain [OF s1(1)] by (simp add: exchanges_return_def)
  then show ?case using Cons.IH [of s1] s1 by simp
qed simp

text \<open>
  C34. The hourly updates take no certificate away. After any number of updates that came back,
  whatever failed in them (the exchange with the ACME server, the writing of files, the parsing of
  certificates), the domains that had a certificate have one, and a client hello that was
  answered is answered, with or without a server name. The updates do come back, however many
  there are, if in each of them the exchange for the domain and that for its subdomains
  (\<open>Generator::request\<close>) come back, with an error or a key that \<open>rustls\<close> accepts; that is an
  assumption, since an exchange can panic or hang. It is assumed that the parser of certificates
  consumes input.
\<close>

theorem certificates_never_lost:
  assumes "consuming (ce_from_der env)" "stocked s"
  shows "(\<forall>s'. updater_loop env g ts s = Return s' \<longrightarrow>
        store_domain s' = store_domain s
        \<and> (\<forall>d. store_certs s d \<noteq> None \<longrightarrow> store_certs s' d \<noteq> None)
        \<and> (\<forall>sni. resolve s sni \<noteq> None \<longrightarrow> resolve s' sni \<noteq> None))
    \<and> (exchanges_return env g (store_domain s) ts \<longrightarrow> (\<exists>s'. updater_loop env g ts s = Return s' \<and> stocked s'))"
proof -
  have "store_domain s' = store_domain s
      \<and> (\<forall>d. store_certs s d \<noteq> None \<longrightarrow> store_certs s' d \<noteq> None)
      \<and> (\<forall>sni. resolve s sni \<noteq> None \<longrightarrow> resolve s' sni \<noteq> None)"
    if "updater_loop env g ts s = Return s'" for s'
  proof -
    have kept: "keeps_certs s s'" by (rule updater_loop_keeps [OF that])
    then have "store_domain s' = store_domain s" by (simp add: keeps_certs_def)
    then show ?thesis using resolve_keeps_domain [OF kept] resolve_keeps [OF kept] by blast
  qed
  then show ?thesis using updater_loop_returns [OF assms] by blast
qed

text \<open>Two updates with the sample ACME server: one that gets its certificates, one with a server that refuses.\<close>

definition sample_turn :: "(nat, string, dns_record list) updater_turn" where
  "sample_turn =
     \<lparr>ut_acme = Acme.sample_env, ut_api = list_zone (ge_updater sample_generator), ut_look = sample_look,
      ut_zone = (\<lambda>domain. sample_zone), ut_now = (\<lambda>domain. 0), ut_io_ok = True, ut_clock = (\<lambda>n. 0)\<rparr>"

definition refused_turn :: "(nat, string, dns_record list) updater_turn" where
  "refused_turn = sample_turn\<lparr>ut_acme := Acme.sample_env\<lparr>ac_new_order := (\<lambda>_ _ _ _. Return None)\<rparr>, ut_io_ok := False\<rparr>"

lemma sample_turn_requests:
  "turn_request sample_generator sample_turn ''a'' = Return (Some sample_cert)"
  "turn_request sample_generator sample_turn (CHR ''*'' # CHR ''.'' # ''a'') = Return (Some sample_cert)"
  "turn_request sample_generator refused_turn d = Return None"
  by code_simp+

theorem certificates_never_lost_witness:
  "\<exists>s'. updater_loop Cert_Store.sample_env sample_generator [sample_turn, refused_turn]
        ((store_new None ''a'')\<lparr>store_certs := [''a'' \<mapsto> \<lparr>ck_cert = [[9]], ck_key = ()\<rparr>]\<rparr>) = Return s'
     \<and> resolve s' (Some ''x'') \<noteq> None"
proof -
  let ?s = "(store_new None ''a'')\<lparr>store_certs := [''a'' \<mapsto> \<lparr>ck_cert = [[9]], ck_key = ()\<rparr>]\<rparr> :: unit store"
  have "consuming (ce_from_der Cert_Store.sample_env)" "stocked ?s"
    using byte_der_consuming by (simp_all add: Cert_Store.sample_env_def stocked_def)
  note never = certificates_never_lost [OF this]
  have "store_domain ?s = ''a''" by (simp add: store_new_def)
  then have "exchanges_return Cert_Store.sample_env sample_generator (store_domain ?s) [sample_turn, refused_turn]"
    by (simp add: exchanges_return_def usable_answer_def sample_turn_requests Cert_Store.sample_env_def)
  then obtain s' where s': "updater_loop Cert_Store.sample_env sample_generator [sample_turn, refused_turn] ?s = Return s'"
    using never by blast
  moreover have "resolve ?s (Some ''x'') \<noteq> None"
    by (simp add: resolve_def or_else_def store_new_def)
  ultimately show ?thesis using never by blast
qed

end
