(* ===== verification/Spec2Isabelle.thy ===== *)
theory Spec2Isabelle
  imports Registry_Steps Session_Props Router Np_Main Port_Lock Server_World Port_Agreement Await_Steps Early_Connection Lock_Order Reconnect Pages Server_Main Cert_Updates Acme
begin

text \<open>
  A model of nport, a tunnel for local HTTP and TCP services, with the theorems that make it
  correct.

  \<^bold>\<open>The program.\<close> The server (\<open>src/nport-server\<close>) has a public address. A client (\<open>src/np\<close>, with
  \<open>src/libnp\<close> shared by both) connects to it by a web socket and asks it to open host names (HTTP)
  or ports (TCP). A visitor's HTTP request for such a name travels to the client as a message,
  the client asks the local service, and the response travels back. A visitor's TCP connection
  to such a port is negotiated with the client, which connects to the local service; from then
  on one task on each side copies bytes between its socket and the web socket. The server
  redirects to TLS, keeps statistics, and stores and renews its own certificates with an ACME
  server and the DNS API of Cloudflare.

  \<^bold>\<open>Representation.\<close> A struct is a record, an enum a datatype, a machine integer a word of its
  width, a \<open>String\<close> a list of bytes, a \<open>HashMap\<close> a map or, where its order can be seen, an
  association list. A \<open>Result\<close> is a sum with the error on the left, a panic and a loop without
  end are values of \<open>outcome\<close>, and an operation that would wait gives \<open>Pending\<close>. Shared objects
  (\<open>Arc<Client>\<close>) live in a heap under a number, so aliasing is equality of numbers. A lock that
  is released before the next \<open>await\<close> makes an atomic step; where an operation takes several,
  the steps are definitions of their own and are interleaved by a step relation.
\<close>

text \<open>
  \<^bold>\<open>Theories.\<close>

  \<^item> \<open>Nport_Prelude\<close>: integers, results, Rust's functions on strings, collections of lemmas.
  \<^item> \<open>Std_Net\<close>: the parsers and printers of \<open>std::net\<close>. \<open>Channels\<close>: Tokio's channels,
    \<open>libnp/src/common.rs\<close>, and the locale \<open>port_table\<close> of named queues.
  \<^item> \<open>Messages\<close>: \<open>libnp/src/*.proto\<close>. \<open>Addr\<close>: \<open>libnp/src/lib.rs\<close> and \<open>error.rs\<close>; the round trips of
    addresses as text, protobuf and serde.
  \<^item> \<open>Hostname\<close>, \<open>Stats\<close>, \<open>Config\<close>: \<open>server/hostname.rs\<close>, \<open>stats.rs\<close>, \<open>config.rs\<close>; the grammar of host
    names, the counters, the block lists and the checks before a server starts.
  \<^item> \<open>Server_Client\<close>, \<open>Registry\<close>, \<open>Registry_Steps\<close>, \<open>Server_State\<close>: \<open>server/client.rs\<close>,
    \<open>registry.rs\<close>, \<open>state.rs\<close>. \<open>Registry\<close> holds the locale \<open>name_directory\<close>, the atomic operations
    and their refinement of a directory of names; \<open>Registry_Steps\<close> interleaves the critical
    sections of any number of tasks.
  \<^item> \<open>Byte_Pipe\<close>, \<open>Port_Server\<close>, \<open>Port_Props\<close>, \<open>Port_Lock\<close>: \<open>server/port_server.rs\<close>. The locale
    \<open>byte_pump\<close> is what the copying tasks of both sides share; listeners, negotiation and the
    copying task follow the code, and \<open>Port_Lock\<close> is the system of the lock on the port writers.
  \<^item> \<open>Msghandlers\<close>, \<open>Forwarding_Rules\<close>: \<open>server/msghandlers/\<close>; which names and ports a client gets.
  \<^item> \<open>Websockets\<close>, \<open>Session_Props\<close>, \<open>Http_Forwarding\<close>: \<open>server/handlers/websockets.rs\<close>; a session
    leaves no trace, a request reaches the owner of its name, an answer its visitor.
  \<^item> \<open>Router\<close>: \<open>server/implementation.rs\<close>, \<open>handlers/site.rs\<close>. \<open>Server_World\<close>: sessions, listeners,
    requests and tasks in any interleaving, with the invariant of the whole server.
  \<^item> \<open>Np_Client\<close>, \<open>Np_Dispatch\<close>, \<open>Np_Run\<close>, \<open>Np_Main\<close>: \<open>np/src/client.rs\<close> with \<open>error.rs\<close>, \<open>dispatch/\<close> with
    \<open>client/port.rs\<close>, the loop of \<open>lib.rs\<close>, and what leads to it (\<open>settings.rs\<close> and the start of
    \<open>run\<close>). \<open>Reconnect\<close>: what a lost connection leaves behind for the next session.
  \<^item> \<open>Port_Tunnel\<close>, \<open>Http_Tunnel\<close>: server and client together; the bytes of a connection and an
    HTTP exchange from one end to the other. The locale \<open>port_side\<close> extends \<open>byte_pump\<close> by the
    handler of messages, and is interpreted on both programs. \<open>Tunnel_World\<close> runs the whole server
    against an \<open>np\<close>: their tables of host names agree once \<open>np\<close> has caught up, no message of the
    server makes \<open>np\<close> panic, and a request in the middle of an open is refused. What it needs of the
    server is the locale \<open>telling_server\<close>. \<open>Port_Agreement\<close> does the same for TCP ports.
  \<^item> \<open>Await_Steps\<close>: the sessions and requests of \<open>Server_World\<close> in the parts between the awaits of
    their handlers, with anything in between. The locale is interpreted on this server too, so
    the agreement with \<open>np\<close> holds at every such wait.
    \<open>Early_Connection\<close>: a visitor of a port in the middle of its opening.
  \<^item> \<open>Lock_Order\<close>: all locks but that one, of the server and of \<open>np\<close>; in the locale \<open>lock_order\<close> tasks that take
    their locks in the order of a rank are held up by the network only, and only at the locks of
    a web socket; it is interpreted on both programs.
  \<^item> \<open>Cert_Store\<close>, \<open>Cert_Updates\<close>, \<open>Acme\<close>: \<open>cert/store.rs\<close>; the hourly updates of
    \<open>server/implementation.rs\<close>; \<open>cert/cloudflare.rs\<close> and \<open>generator.rs\<close>, with the effect of a request on
    the DNS zone.
  \<^item> \<open>Pages\<close>, \<open>Server_Main\<close>: \<open>server/templates.rs\<close>, \<open>error.rs\<close> and what a visitor gets in the end;
    \<open>main.rs\<close> with \<open>opentelemetry.rs\<close>, and when the server starts at all.
\<close>

text \<open>
  \<^bold>\<open>Loops and their ends.\<close> The copying tasks, the sessions and the accept loop are folds over what
  the outside does (frames, socket events, visitors), so they are total and their length is
  that of the input; a step relation takes any number of steps. The loop of \<open>np\<close> (\<open>run_loop\<close>)
  recurs over a list of rounds, one per attempt to connect: \<open>gives_up_unreachable\<close> shows that it
  exits after the limit of retries if the server cannot be reached. \<open>cert_expiration_loop\<close> and
  \<open>order_loop\<close> are partial functions whose \<open>None\<close> is a loop without end; the first always returns,
  the second only with an ACME server that confirms its orders, so theorems on requests and
  updates say what holds when they come back. \<open>wait_txt\<close> terminates by the measure of the
  milliseconds left of its 91 seconds, unless a lookup does not come back (\<open>Diverge\<close>).

  \<^bold>\<open>Parameters.\<close> What is not in the repository is an argument of the definitions: the decoder of
  \<open>prost\<close>, \<open>Url::parse\<close>, \<open>str::to_lowercase\<close> (of which at most is assumed that its results do not
  change under it and hold no capital letters), the random names, \<open>bind\<close> and \<open>connect\<close>, the
  validation of headers by the \<open>http\<close> crate and the exchange by \<open>hyper\<close>, \<open>x509_parser\<close> and
  \<open>rustls\<close>, \<open>acme_lib\<close>, the DNS resolver, the API of Cloudflare, \<open>tera\<close>, the binding and serving of ports
  by \<open>axum\<close>, and the pipelines of OpenTelemetry. Calls of \<open>acme_lib\<close>, of the API and of the resolver may
  also panic or never come back.

  \<^bold>\<open>Not modelled.\<close> The encoding of messages to bytes and the web socket below them; the parsing
  of the command line of \<open>np\<close> into the record \<open>arguments\<close> (\<open>clap\<close>) and of its configuration file and
  environment into maps (\<open>config\<close>); tracing and the export of metrics; the JSON of \<open>/build_info\<close>; the fairness of Tokio's scheduler
  (theorems on progress say which steps remain possible). The tests and the build scripts have
  no logic of their own.
\<close>

end
